(* ===== verification/Prelude.thy ===== *)
theory Prelude
  imports Main "HOL-Library.Word" "HOL-Library.AList" "HOL-Library.Multiset"
    "HOL-Library.Monad_Syntax"
begin

text \<open>
  The Go notions every component of the broker uses: machine integers, byte slices and
  strings, instants and durations, maps, the order in which \<open>range\<close> visits a map, and
  run-time panics. Nothing here is about the broker itself.

  \<^item> Integers of a fixed width are words (\<open>u8\<close>, \<open>u32\<close>, \<open>u64\<close>); Go's \<open>int\<close> on a 64-bit
    platform is \<open>int\<close> where it is only compared and \<open>nat\<close> where it is an index.
  \<^item> A \<open>time.Time\<close> is the number of nanoseconds since the Unix epoch, as an \<open>int\<close>; a
    \<open>time.Duration\<close> is a number of nanoseconds.
  \<^item> A Go map is an association list with distinct keys. Its list order carries no
    meaning: code that ranges over a map takes the visiting order as a function \<open>r\<close>, of
    which only \<open>range_order r\<close> (it permutes the entries) is ever assumed.
  \<^item> A computation that may panic returns an \<open>option\<close>: \<open>None\<close> is a run-time panic (index
    out of range, nil dereference, send on a closed channel), which takes the process
    down because no goroutine recovers.
\<close>

section \<open>Types\<close>

type_synonym u8 = "8 word"
type_synonym u32 = "32 word"
type_synonym u64 = "64 word"
type_synonym bytes = "u8 list"
type_synonym time = int
type_synonym duration = int
type_synonym ('k, 'v) gomap = "('k \<times> 'v) list"
type_synonym 'a go = "'a option"

lemma bind_Some_map: "Option.bind x (\<lambda>y. Some (f y)) = map_option f x"
  by (cases x) simp_all

text \<open>The development's own collections: definitions to unfold when a component's
  operation is evaluated, and rewrite rules about Go maps.\<close>

named_theorems go_defs "definitions of operations, unfolded on demand"
named_theorems gomap_simps "rewrite rules for maps as association lists"

definition second :: duration where
  "second = 1000000000"

definition zero_time :: time where
  \<comment> \<open>the zero \<open>time.Time\<close>, midnight of 1 January of the year 1 in UTC\<close>
  "zero_time = - 62135596800 * 1000000000"

definition unix_milli :: "time \<Rightarrow> int" where
  "unix_milli t = t div 1000000"

definition time_of_milli :: "int \<Rightarrow> time" where
  "time_of_milli ms = ms * 1000000"

lemma unix_milli_of_milli [simp]: "unix_milli (time_of_milli ms) = ms"
  by (simp add: unix_milli_def time_of_milli_def)

lemma unix_milli_mono: "s \<le> t \<Longrightarrow> unix_milli s \<le> unix_milli t"
  by (simp add: unix_milli_def zdiv_mono1)


section \<open>Byte slices and strings\<close>

definition bytes_of :: "string \<Rightarrow> bytes" where
  "bytes_of s = map of_char s"

definition string_of :: "bytes \<Rightarrow> string" where
  "string_of bs = map (\<lambda>b. char_of (unat b)) bs"

lemma unat_of_char: "unat (of_char c :: u8) = (of_char c :: nat)"
proof -
  have "(of_char c :: u8) = of_nat (of_char c :: nat)" by (simp only: of_nat_of_char)
  then show ?thesis by (simp add: unat_of_nat)
qed

lemma string_of_bytes_of [simp]: "string_of (bytes_of s) = s"
  by (induction s) (simp_all add: string_of_def bytes_of_def unat_of_char)

lemma length_bytes_of [simp]: "length (bytes_of s) = length s"
  by (simp add: bytes_of_def)

lemma length_string_of [simp]: "length (string_of bs) = length bs"
  by (simp add: string_of_def)

lemma bytes_of_append [simp]: "bytes_of (s @ t) = bytes_of s @ bytes_of t"
  by (simp add: bytes_of_def)

lemma bytes_of_inject [simp]: "bytes_of s = bytes_of t \<longleftrightarrow> s = t"
  by (metis string_of_bytes_of)


section \<open>Maps\<close>

abbreviation gm_get :: "('k, 'v) gomap \<Rightarrow> 'k \<Rightarrow> 'v option" where
  "gm_get m k \<equiv> map_of m k"

abbreviation gm_set :: "('k, 'v) gomap \<Rightarrow> 'k \<Rightarrow> 'v \<Rightarrow> ('k, 'v) gomap" where
  "gm_set m k v \<equiv> AList.update k v m"

abbreviation gm_del :: "('k, 'v) gomap \<Rightarrow> 'k \<Rightarrow> ('k, 'v) gomap" where
  "gm_del m k \<equiv> AList.delete k m"

abbreviation gm_keys :: "('k, 'v) gomap \<Rightarrow> 'k list" where
  "gm_keys m \<equiv> map fst m"

abbreviation gm_wf :: "('k, 'v) gomap \<Rightarrow> bool" where
  "gm_wf m \<equiv> distinct (map fst m)"

lemma gm_get_set [gomap_simps, simp]:
  "gm_get (gm_set m k v) k' = (if k' = k then Some v else gm_get m k')"
  by (simp add: update_conv')

lemma gm_get_del [gomap_simps, simp]:
  "gm_get (gm_del m k) k' = (if k' = k then None else gm_get m k')"
  by (simp add: delete_conv')

lemma gm_wf_set [simp, intro]: "gm_wf m \<Longrightarrow> gm_wf (gm_set m k v)"
  by (rule distinct_update)

lemma gm_wf_del [simp, intro]: "gm_wf m \<Longrightarrow> gm_wf (gm_del m k)"
  by (rule distinct_delete)

lemma gm_get_in_set: "gm_wf m \<Longrightarrow> gm_get m k = Some v \<longleftrightarrow> (k, v) \<in> set m"
  by (rule map_of_eq_Some_iff)

lemma mset_gm_del:
  assumes "gm_wf m" and "gm_get m k = Some v"
  shows "mset m = add_mset (k, v) (mset (gm_del m k))"
  using assms
proof (induction m)
  case Nil
  then show ?case by simp
next
  case (Cons a m)
  obtain k' v' where a: "a = (k', v')" by (cases a)
  show ?case
  proof (cases "k = k'")
    case True
    with Cons.prems a have v: "v = v'" and nk: "k \<notin> fst ` set m" by auto
    then have "gm_del m k = m" by (simp add: delete_id)
    with True v show ?thesis by (simp add: a)
  next
    case False
    with Cons a show ?thesis by simp
  qed
qed

lemma mset_gm_set_new:
  "gm_get m k = None \<Longrightarrow> mset (gm_set m k v) = add_mset (k, v) (mset m)"
  by (induction m) auto

lemma gm_set_new: "k \<notin> set (gm_keys m) \<Longrightarrow> gm_set m k v = m @ [(k, v)]"
  by (induction m) auto

lemma set_keys_gm_set [gomap_simps]: "fst ` set (gm_set m k v) = insert k (fst ` set m)"
  by (induction m) auto

lemma mset_keys_gm_set:
  "k \<notin> fst ` set m \<Longrightarrow> image_mset fst (mset (gm_set m k v)) = add_mset k (image_mset fst (mset m))"
  by (simp add: gm_set_new)

lemma set_keys_gm_del [gomap_simps]: "fst ` set (gm_del m k) = fst ` set m - {k}"
  by (induction m) auto

definition gm_all :: "('k \<Rightarrow> 'v \<Rightarrow> bool) \<Rightarrow> ('k, 'v) gomap \<Rightarrow> bool" where
  "gm_all P m \<longleftrightarrow> (\<forall>kv \<in> set m. P (fst kv) (snd kv))"

lemma gm_all_Nil [simp]: "gm_all P []"
  by (simp add: gm_all_def)

lemma gm_all_Cons [simp]: "gm_all P (kv # m) \<longleftrightarrow> P (fst kv) (snd kv) \<and> gm_all P m"
  by (simp add: gm_all_def)

lemma gm_all_append [simp]: "gm_all P (m @ m') \<longleftrightarrow> gm_all P m \<and> gm_all P m'"
  by (auto simp: gm_all_def)

lemma gm_all_set: "gm_all P m \<Longrightarrow> P k v \<Longrightarrow> gm_all P (gm_set m k v)"
  by (induction m) auto

lemma gm_all_del: "gm_all P m \<Longrightarrow> gm_all P (gm_del m k)"
  by (induction m) auto

lemma gm_all_get: "gm_all P m \<Longrightarrow> gm_get m k = Some v \<Longrightarrow> P k v"
  by (auto simp: gm_all_def dest!: map_of_SomeD)

lemma length_gm_del:
  assumes "gm_wf m" and "gm_get m k = Some v"
  shows "length m = Suc (length (gm_del m k))"
  using arg_cong [OF mset_gm_del [OF assms], of size] by simp

text \<open>The interface the components rely on when they keep a Go map: what a lookup returns
  after a store and after a delete, and that both keep the representation invariant.\<close>

locale go_map =
  fixes mempty :: "'m"
    and mget :: "'m \<Rightarrow> 'k \<Rightarrow> 'v option"
    and mset_at :: "'m \<Rightarrow> 'k \<Rightarrow> 'v \<Rightarrow> 'm"
    and mdel :: "'m \<Rightarrow> 'k \<Rightarrow> 'm"
    and minv :: "'m \<Rightarrow> bool"
  assumes get_empty: "mget mempty k = None"
    and get_set: "minv m \<Longrightarrow> mget (mset_at m k v) k' = (if k' = k then Some v else mget m k')"
    and get_del: "minv m \<Longrightarrow> mget (mdel m k) k' = (if k' = k then None else mget m k')"
    and inv_empty: "minv mempty"
    and inv_set: "minv m \<Longrightarrow> minv (mset_at m k v)"
    and inv_del: "minv m \<Longrightarrow> minv (mdel m k)"
begin

lemma move_key:
  assumes "minv m" and "mget m k = Some v" and "k \<noteq> k'"
  shows "mget (mset_at (mdel m k) k' v) k = None" and "mget (mset_at (mdel m k) k' v) k' = Some v"
  using assms by (simp_all add: get_set get_del inv_del)

lemma fold_del_get:
  assumes "minv m"
  shows "mget (foldl mdel m ks) k = (if k \<in> set ks then None else mget m k)"
    and "minv (foldl mdel m ks)"
  using assms by (induction ks arbitrary: m) (auto simp: get_del inv_del)

lemma fold_set_get:
  assumes "minv m" and "distinct (map fst kvs)"
  shows "mget (foldl (\<lambda>m (k, v). mset_at m k v) m kvs) k
    = (case map_of kvs k of Some v \<Rightarrow> Some v | None \<Rightarrow> mget m k)"
  using assms
proof (induction kvs arbitrary: m)
  case Nil
  then show ?case by simp
next
  case (Cons kv kvs)
  obtain k1 v1 where kv: "kv = (k1, v1)" by (cases kv)
  from Cons.prems kv have "map_of kvs k1 = None" by (auto simp: map_of_eq_None_iff)
  with Cons kv show ?case by (auto simp: get_set inv_set split: option.splits)
qed

end

interpretation gm: go_map "[]" gm_get gm_set gm_del gm_wf
  by unfold_locales auto


section \<open>Ranging over a map\<close>

definition range_order :: "('a list \<Rightarrow> 'a list) \<Rightarrow> bool" where
  "range_order r \<longleftrightarrow> (\<forall>xs. mset (r xs) = mset xs)"

lemma range_orderD: "range_order r \<Longrightarrow> mset (r xs) = mset xs"
  by (simp add: range_order_def)

lemma range_order_set: "range_order r \<Longrightarrow> set (r xs) = set xs"
  by (metis range_orderD mset_eq_setD)

lemma range_order_length: "range_order r \<Longrightarrow> length (r xs) = length xs"
  by (metis range_orderD size_mset)

lemma range_order_distinct:
  "range_order r \<Longrightarrow> distinct (map f (r xs)) \<longleftrightarrow> distinct (map f xs)"
  by (metis range_orderD mset_map mset_eq_imp_distinct_iff)

lemma range_order_id [simp]: "range_order (\<lambda>xs. xs)"
  by (simp add: range_order_def)

lemma range_order_rev [simp]: "range_order rev"
  by (simp add: range_order_def)

lemma range_order_map_of:
  assumes "range_order r" and "gm_wf m"
  shows "map_of (r m) = map_of m"
  using assms by (metis map_of_inject_set range_order_distinct range_order_set)


section \<open>Lists\<close>

definition remove_at :: "nat \<Rightarrow> 'a list \<Rightarrow> 'a list" where
  \<comment> \<open>\<open>append(xs[:i], xs[i+1:]...)\<close>\<close>
  "remove_at i xs = take i xs @ drop (Suc i) xs"

lemma remove_at_0 [simp]: "remove_at 0 (x # xs) = xs"
  by (simp add: remove_at_def)

lemma remove_at_Suc [simp]: "remove_at (Suc i) (x # xs) = x # remove_at i xs"
  by (simp add: remove_at_def)

lemma set_remove_at_subset: "set (remove_at i xs) \<subseteq> set xs"
  by (auto simp: remove_at_def dest: in_set_takeD in_set_dropD)

lemma mset_remove_at: "i < length xs \<Longrightarrow> mset xs = add_mset (xs ! i) (mset (remove_at i xs))"
  by (subst id_take_nth_drop [of i xs]) (simp_all add: remove_at_def)

lemma length_remove_at: "i < length xs \<Longrightarrow> length (remove_at i xs) = length xs - 1"
  by (simp add: remove_at_def)

lemma distinct_remove_at: "distinct (map f xs) \<Longrightarrow> distinct (map f (remove_at i xs))"
proof (cases "i < length xs")
  case True
  assume "distinct (map f xs)"
  moreover have "map f xs = map f (take i xs) @ f (xs ! i) # map f (drop (Suc i) xs)"
    using id_take_nth_drop [OF True] by (metis list.simps(9) map_append)
  ultimately show ?thesis by (auto simp: remove_at_def)
qed (simp add: remove_at_def)

fun find_index :: "('a \<Rightarrow> bool) \<Rightarrow> 'a list \<Rightarrow> nat option" where
  \<comment> \<open>the first index a \<open>for i, x := range xs\<close> loop stops at\<close>
  "find_index P [] = None"
| "find_index P (x # xs) = (if P x then Some 0 else map_option Suc (find_index P xs))"

lemma find_index_None: "find_index P xs = None \<longleftrightarrow> (\<forall>x \<in> set xs. \<not> P x)"
  by (induction xs) auto

lemma find_index_Some:
  "find_index P xs = Some i \<Longrightarrow> i < length xs \<and> P (xs ! i) \<and> (\<forall>j < i. \<not> P (xs ! j))"
proof (induction xs arbitrary: i)
  case Nil
  then show ?case by simp
next
  case (Cons x xs)
  then show ?case by (auto split: if_splits simp: nth_Cons split: nat.splits)
qed

lemma mset_filter_split: "mset xs = mset (filter P xs) + mset (filter (\<lambda>x. \<not> P x) xs)"
  by (induction xs) auto

lemma nat_mod_less [simp]: "xs \<noteq> [] \<Longrightarrow> nat (i mod int (length xs)) < length xs"
  by (simp add: nat_less_iff)

end
