(* ===== verification/Frame.thy ===== *)
theory Frame
  imports Prelude
begin

unbundle bit_operations_syntax

text \<open>
  The wire protocol: the opcodes of \<open>internal/protocol/opcodes.go\<close> and the length-prefixed
  frames of \<open>internal/protocol/frame.go\<close>. A connection is the stream of bytes still to be
  read; a read returns what it decoded and the rest of the stream.
\<close>

section \<open>Opcodes\<close>

type_synonym OpCode = u8

definition ProtocolVersion :: u8 where "ProtocolVersion = 1"

definition OpPublish :: OpCode where "OpPublish = 0x01"
definition OpConsume :: OpCode where "OpConsume = 0x03"
definition OpAck :: OpCode where "OpAck = 0x05"
definition OpNack :: OpCode where "OpNack = 0x06"
definition OpExtendVisibility :: OpCode where "OpExtendVisibility = 0x08"
definition OpHeartbeat :: OpCode where "OpHeartbeat = 0x0A"
definition OpUnsubscribe :: OpCode where "OpUnsubscribe = 0x0B"
definition OpSchemaRegister :: OpCode where "OpSchemaRegister = 0x10"
definition OpSchemaGet :: OpCode where "OpSchemaGet = 0x11"
definition OpCall :: OpCode where "OpCall = 0x20"

definition OpPublishAck :: OpCode where "OpPublishAck = 0x02"
definition OpMessage :: OpCode where "OpMessage = 0x04"
definition OpError :: OpCode where "OpError = 0x07"
definition OpExtendVisibilityAck :: OpCode where "OpExtendVisibilityAck = 0x09"
definition OpHeartbeatAck :: OpCode where "OpHeartbeatAck = 0x0C"
definition OpSchemaResponse :: OpCode where "OpSchemaResponse = 0x12"
definition OpCallResponse :: OpCode where "OpCallResponse = 0x21"

definition OpSeek :: OpCode where "OpSeek = 0x50"
definition OpCommitOffset :: OpCode where "OpCommitOffset = 0x51"
definition OpSeekAck :: OpCode where "OpSeekAck = 0x52"
definition OpCommitOffsetAck :: OpCode where "OpCommitOffsetAck = 0x53"
definition OpStreamMessage :: OpCode where "OpStreamMessage = 0x54"

definition OpSchemaList :: OpCode where "OpSchemaList = 0x30"
definition OpSchemaListResp :: OpCode where "OpSchemaListResp = 0x31"
definition OpQueueList :: OpCode where "OpQueueList = 0x32"
definition OpQueueListResp :: OpCode where "OpQueueListResp = 0x33"

definition OpAuth :: OpCode where "OpAuth = 0x40"
definition OpAuthResponse :: OpCode where "OpAuthResponse = 0x41"

lemmas client_op_defs = OpPublish_def OpConsume_def OpAck_def OpNack_def OpExtendVisibility_def
  OpHeartbeat_def OpUnsubscribe_def OpSchemaRegister_def OpSchemaGet_def OpCall_def OpSeek_def
  OpCommitOffset_def OpSchemaList_def OpQueueList_def OpAuth_def

lemmas server_op_defs = OpPublishAck_def OpMessage_def OpError_def OpExtendVisibilityAck_def
  OpHeartbeatAck_def OpSchemaResponse_def OpCallResponse_def OpSeekAck_def OpCommitOffsetAck_def
  OpStreamMessage_def OpSchemaListResp_def OpQueueListResp_def OpAuthResponse_def

lemmas opcode_defs = client_op_defs server_op_defs

definition opCodeNames :: "(OpCode, string) gomap" where
  "opCodeNames = [
    (OpPublish, ''PUBLISH''), (OpPublishAck, ''PUBLISH_ACK''), (OpConsume, ''CONSUME''),
    (OpMessage, ''MESSAGE''), (OpAck, ''ACK''), (OpNack, ''NACK''), (OpError, ''ERROR''),
    (OpExtendVisibility, ''EXTEND_VISIBILITY''),
    (OpExtendVisibilityAck, ''EXTEND_VISIBILITY_ACK''), (OpHeartbeat, ''HEARTBEAT''),
    (OpUnsubscribe, ''UNSUBSCRIBE''), (OpHeartbeatAck, ''HEARTBEAT_ACK''), (OpSeek, ''SEEK''),
    (OpCommitOffset, ''COMMIT_OFFSET''), (OpSeekAck, ''SEEK_ACK''),
    (OpCommitOffsetAck, ''COMMIT_OFFSET_ACK''), (OpStreamMessage, ''STREAM_MESSAGE''),
    (OpSchemaRegister, ''SCHEMA_REGISTER''), (OpSchemaGet, ''SCHEMA_GET''),
    (OpSchemaResponse, ''SCHEMA_RESPONSE''), (OpCall, ''CALL''),
    (OpCallResponse, ''CALL_RESPONSE''), (OpSchemaList, ''SCHEMA_LIST''),
    (OpSchemaListResp, ''SCHEMA_LIST_RESP''), (OpQueueList, ''QUEUE_LIST''),
    (OpQueueListResp, ''QUEUE_LIST_RESP''), (OpAuth, ''AUTH''),
    (OpAuthResponse, ''AUTH_RESPONSE'')]"

definition OpCode_String :: "OpCode \<Rightarrow> string" where
  "OpCode_String op = (case gm_get opCodeNames op of Some name \<Rightarrow> name | None \<Rightarrow> ''UNKNOWN'')"

lemma opCodeNames_wf: "gm_wf opCodeNames" "distinct (map snd opCodeNames)"
  by (simp_all add: opCodeNames_def opcode_defs)


section \<open>Buffers\<close>

text \<open>
  The four buffer pools hold byte slices of which only the capacity matters. Taking from a
  pool removes some slice, or makes a new one of the pool's size when it is empty; which
  slice is unspecified, and here it is the first of a list whose order carries no meaning.
\<close>

record buf_pools =
  smallBufPool :: "nat list"
  medBufPool :: "nat list"
  largeBufPool :: "nat list"
  xlargeBufPool :: "nat list"

definition pool_get :: "nat \<Rightarrow> nat list \<Rightarrow> nat \<times> nat list" where
  "pool_get new pool = (case pool of [] \<Rightarrow> (new, []) | b # bs \<Rightarrow> (b, bs))"

definition getBuffer :: "nat \<Rightarrow> buf_pools \<Rightarrow> nat \<times> buf_pools" where
  \<comment> \<open>the capacity of the returned slice, whose length is \<open>sz\<close>\<close>
  "getBuffer sz p =
     (if sz \<le> 1024 then
        (let (buf, rest) = pool_get 1024 (smallBufPool p)
         in if buf \<ge> sz then (buf, p\<lparr>smallBufPool := rest\<rparr>)
            else (sz, p\<lparr>smallBufPool := buf # rest\<rparr>))
      else if sz \<le> 16 * 1024 then
        (let (buf, rest) = pool_get (16 * 1024) (medBufPool p)
         in if buf \<ge> sz then (buf, p\<lparr>medBufPool := rest\<rparr>)
            else (sz, p\<lparr>medBufPool := buf # rest\<rparr>))
      else if sz \<le> 64 * 1024 then
        (let (buf, rest) = pool_get (64 * 1024) (largeBufPool p)
         in if buf \<ge> sz then (buf, p\<lparr>largeBufPool := rest\<rparr>)
            else (sz, p\<lparr>largeBufPool := buf # rest\<rparr>))
      else if sz \<le> 256 * 1024 then
        (let (buf, rest) = pool_get (256 * 1024) (xlargeBufPool p)
         in if buf \<ge> sz then (buf, p\<lparr>xlargeBufPool := rest\<rparr>)
            else (sz, p\<lparr>xlargeBufPool := buf # rest\<rparr>))
      else (sz, p))"

definition PutBuffer :: "nat \<Rightarrow> buf_pools \<Rightarrow> buf_pools" where
  "PutBuffer sz p =
     (if sz \<le> 1024 then p\<lparr>smallBufPool := sz # smallBufPool p\<rparr>
      else if sz \<le> 16 * 1024 then p\<lparr>medBufPool := sz # medBufPool p\<rparr>
      else if sz \<le> 64 * 1024 then p\<lparr>largeBufPool := sz # largeBufPool p\<rparr>
      else if sz \<le> 256 * 1024 then p\<lparr>xlargeBufPool := sz # xlargeBufPool p\<rparr>
      else p)"

definition pools_bounded :: "buf_pools \<Rightarrow> bool" where
  "pools_bounded p \<longleftrightarrow> list_all (\<lambda>c. c \<le> 1024) (smallBufPool p)
     \<and> list_all (\<lambda>c. c \<le> 16 * 1024) (medBufPool p)
     \<and> list_all (\<lambda>c. c \<le> 64 * 1024) (largeBufPool p)
     \<and> list_all (\<lambda>c. c \<le> 256 * 1024) (xlargeBufPool p)"

lemma getBuffer_fits: "fst (getBuffer sz p) \<ge> sz"
  by (simp add: getBuffer_def Let_def split: prod.splits)

lemma getBuffer_bounded: "pools_bounded p \<Longrightarrow> pools_bounded (snd (getBuffer sz p))"
  by (auto simp: getBuffer_def pools_bounded_def pool_get_def Let_def split: list.splits)

lemma PutBuffer_bounded: "pools_bounded p \<Longrightarrow> pools_bounded (PutBuffer sz p)"
  by (simp add: PutBuffer_def pools_bounded_def)


section \<open>Frames\<close>

definition MaxFrameSize :: u32 where "MaxFrameSize = 16 * 1024 * 1024"
definition DefaultMaxMessageSize :: u32 where "DefaultMaxMessageSize = 1 * 1024 * 1024"

text \<open>Errors of \<open>DecodeFrame\<close>: the three of the package and the two of \<open>io.ReadFull\<close>.\<close>

datatype frame_error = ErrFrameTooLarge | ErrMessageTooLarge | ErrFrameTooSmall
  | EOF | ErrUnexpectedEOF

record frame =
  fVersion :: u8
  fOpCode :: OpCode
  fPayload :: bytes

definition PutUint32 :: "u32 \<Rightarrow> bytes" where
  \<comment> \<open>\<open>binary.BigEndian.PutUint32\<close>\<close>
  "PutUint32 w = [ucast (drop_bit 24 w), ucast (drop_bit 16 w), ucast (drop_bit 8 w), ucast w]"

fun Uint32 :: "bytes \<Rightarrow> u32" where
  \<comment> \<open>\<open>binary.BigEndian.Uint32\<close>, called on four bytes\<close>
  "Uint32 [a, b, c, d] =
     push_bit 24 (ucast a) OR push_bit 16 (ucast b) OR push_bit 8 (ucast c) OR ucast d"
| "Uint32 _ = 0"

definition ReadFull :: "nat \<Rightarrow> bytes \<Rightarrow> (frame_error + bytes) \<times> bytes" where
  "ReadFull n r =
     (if n \<le> length r then (Inr (take n r), drop n r)
      else if r = [] then (Inl EOF, [])
      else (Inl ErrUnexpectedEOF, []))"

definition EncodeFrame :: "OpCode \<Rightarrow> bytes \<Rightarrow> bytes go" where
  \<comment> \<open>the length and the size of the slice are 32-bit sums; \<open>None\<close> when the slice is too
    short for the six header bytes\<close>
  "EncodeFrame op payload =
     (let len = (of_nat (2 + length payload) :: u32);
          sz = unat (4 + len)
      in if sz < 6 then None
         else Some (PutUint32 len @ [ProtocolVersion, op] @ take (sz - 6) payload))"

definition WriteFrame :: "OpCode \<Rightarrow> bytes \<Rightarrow> bytes" where
  "WriteFrame op payload =
     PutUint32 (of_nat (2 + length payload)) @ [ProtocolVersion, op] @ payload"

definition DecodeFrame :: "u32 \<Rightarrow> bytes \<Rightarrow> (frame_error + frame) \<times> bytes" where
  \<comment> \<open>the first argument is the configured maximal message size (\<open>maxMessageSize\<close>)\<close>
  "DecodeFrame maxMessageSize r =
     (case ReadFull 4 r of
        (Inl e, r1) \<Rightarrow> (Inl e, r1)
      | (Inr lengthBuf, r1) \<Rightarrow>
          (let len = Uint32 lengthBuf in
           if len > MaxFrameSize then (Inl ErrFrameTooLarge, r1)
           else if len < 2 then (Inl ErrFrameTooSmall, r1)
           else if len - 2 > maxMessageSize then (Inl ErrMessageTooLarge, r1)
           else (case ReadFull (unat len) r1 of
                   (Inl e, r2) \<Rightarrow> (Inl e, r2)
                 | (Inr data, r2) \<Rightarrow>
                     (Inr \<lparr>fVersion = data ! 0, fOpCode = data ! 1, fPayload = drop 2 data\<rparr>, r2))))"

text \<open>How the server and the client read a connection: frame after frame until an error.\<close>

fun decode_n :: "nat \<Rightarrow> u32 \<Rightarrow> bytes \<Rightarrow> (frame_error + frame list) \<times> bytes" where
  "decode_n 0 mx r = (Inr [], r)"
| "decode_n (Suc n) mx r =
     (case DecodeFrame mx r of
        (Inl e, r') \<Rightarrow> (Inl e, r')
      | (Inr f, r') \<Rightarrow>
          (case decode_n n mx r' of
             (Inl e, r'') \<Rightarrow> (Inl e, r'')
           | (Inr fs, r'') \<Rightarrow> (Inr (f # fs), r'')))"

lemma length_PutUint32 [simp]: "length (PutUint32 w) = 4"
  by (simp add: PutUint32_def)

lemma Uint32_PutUint32 [simp]: "Uint32 (PutUint32 w) = w"
  unfolding PutUint32_def Uint32.simps
proof (rule bit_word_eqI)
  fix n
  assume n: "n < LENGTH(32)"
  consider "n < 8" | "8 \<le> n" "n < 16" | "16 \<le> n" "n < 24" | "24 \<le> n" by linarith
  then show "bit (push_bit 24 (ucast (ucast (drop_bit 24 w) :: u8))
      OR push_bit 16 (ucast (ucast (drop_bit 16 w) :: u8))
      OR push_bit 8 (ucast (ucast (drop_bit 8 w) :: u8)) OR ucast (ucast w :: u8) :: u32) n
      = bit w n"
    using n by cases (auto simp: bit_simps)
qed

lemma ReadFull_append [simp]: "n = length xs \<Longrightarrow> ReadFull n (xs @ ys) = (Inr xs, ys)"
  by (simp add: ReadFull_def)

definition frame_fits :: "u32 \<Rightarrow> bytes \<Rightarrow> bool" where
  "frame_fits mx payload \<longleftrightarrow>
     length payload + 2 \<le> unat MaxFrameSize \<and> length payload \<le> unat mx"

lemma frame_len_unat:
  assumes "length payload + 2 \<le> unat MaxFrameSize"
  shows "unat (of_nat (2 + length payload) :: u32) = 2 + length payload"
  using assms by (subst unat_of_nat) (simp add: MaxFrameSize_def)

lemma DecodeFrame_WriteFrame_aux:
  assumes "frame_fits mx payload"
  shows "DecodeFrame mx (WriteFrame op payload @ rest)
     = (Inr \<lparr>fVersion = ProtocolVersion, fOpCode = op, fPayload = payload\<rparr>, rest)"
proof -
  let ?l = "of_nat (2 + length payload) :: u32"
  have l: "unat ?l = 2 + length payload"
    using assms by (intro frame_len_unat) (simp add: frame_fits_def)
  have "unat ?l \<le> unat MaxFrameSize" using assms l by (simp add: frame_fits_def)
  then have c1: "\<not> ?l > MaxFrameSize" by (simp add: word_le_nat_alt not_less)
  have c2: "\<not> ?l < 2" using l by (simp add: word_less_nat_alt)
  have "unat (?l - 2) = length payload"
    using l c2 by (subst unat_sub) (simp_all add: word_le_nat_alt)
  then have c3: "\<not> ?l - 2 > mx" using assms by (simp add: word_less_nat_alt frame_fits_def)
  have rd: "ReadFull (unat ?l) (ProtocolVersion # op # payload @ rest)
      = (Inr (ProtocolVersion # op # payload), rest)"
    using ReadFull_append [of "unat ?l" "ProtocolVersion # op # payload" rest] l by simp
  show ?thesis
    using c1 c2 c3 rd
    by (simp add: DecodeFrame_def WriteFrame_def Let_def del: of_nat_add)
qed

lemma EncodeFrame_eq_WriteFrame_aux:
  assumes "length payload < 2 ^ 32 - 6"
  shows "EncodeFrame op payload = Some (WriteFrame op payload)"
proof -
  have "unat (4 + (of_nat (2 + length payload) :: u32)) = 6 + length payload"
    using assms by (simp add: unat_word_ariths unat_of_nat)
  then show ?thesis by (simp add: EncodeFrame_def WriteFrame_def Let_def)
qed

lemma frame_fits_EncodeFrame:
  "frame_fits mx payload \<Longrightarrow> EncodeFrame op payload = Some (WriteFrame op payload)"
  by (rule EncodeFrame_eq_WriteFrame_aux) (simp add: frame_fits_def MaxFrameSize_def)

lemma decode_n_WriteFrame:
  assumes "\<forall>(op, p) \<in> set fs. frame_fits mx p"
  shows "decode_n (length fs) mx (concat (map (\<lambda>(op, p). WriteFrame op p) fs) @ rest)
     = (Inr (map (\<lambda>(op, p). \<lparr>fVersion = ProtocolVersion, fOpCode = op, fPayload = p\<rparr>) fs), rest)"
  using assms
  by (induction fs) (auto simp: DecodeFrame_WriteFrame_aux)

text \<open>A decoded frame is within both limits, and the bytes consumed are exactly its header
  and payload.\<close>

lemma DecodeFrame_Inr:
  assumes "DecodeFrame mx r = (Inr f, rest)"
  shows "length (fPayload f) \<le> unat mx" and "length (fPayload f) + 2 \<le> unat MaxFrameSize"
    and "length r = 6 + length (fPayload f) + length rest"
    and "\<exists>pre. r = pre @ fVersion f # fOpCode f # fPayload f @ rest \<and> length pre = 4"
proof -
  from assms have r4: "4 \<le> length r"
    by (auto simp: DecodeFrame_def ReadFull_def split: if_splits)
  define len where "len = Uint32 (take 4 r)"
  from assms r4 have big: "\<not> len > MaxFrameSize" and small: "\<not> len < 2" and msg: "\<not> len - 2 > mx"
    and rd: "unat len \<le> length (drop 4 r)"
    and f: "f = \<lparr>fVersion = take (unat len) (drop 4 r) ! 0,
        fOpCode = take (unat len) (drop 4 r) ! 1, fPayload = drop 2 (take (unat len) (drop 4 r))\<rparr>"
    and rest: "rest = drop (unat len) (drop 4 r)"
    by (auto simp: DecodeFrame_def ReadFull_def Let_def len_def split: if_splits)
  have two: "2 \<le> unat len" using small by (simp add: word_less_nat_alt)
  have pl: "length (fPayload f) = unat len - 2" using rd f by simp
  have "unat (len - 2) = unat len - 2"
    using two by (subst unat_sub) (simp_all add: word_le_nat_alt)
  then show "length (fPayload f) \<le> unat mx" using msg pl by (simp add: word_less_nat_alt)
  show "length (fPayload f) + 2 \<le> unat MaxFrameSize"
    using big pl two by (simp add: word_less_nat_alt)
  show "length r = 6 + length (fPayload f) + length rest"
    using pl rd rest two r4 by simp
  obtain a b xs where d: "take (unat len) (drop 4 r) = a # b # xs"
  proof -
    have "2 \<le> length (take (unat len) (drop 4 r))" using rd two by simp
    then show ?thesis using that by (metis Suc_le_length_iff numeral_2_eq_2)
  qed
  have "r = take 4 r @ take (unat len) (drop 4 r) @ drop (unat len) (drop 4 r)"
    by (metis append_take_drop_id)
  then have "r = take 4 r @ fVersion f # fOpCode f # fPayload f @ rest"
    using d f rest by simp
  then show "\<exists>pre. r = pre @ fVersion f # fOpCode f # fPayload f @ rest \<and> length pre = 4"
    using r4 by (intro exI [of _ "take 4 r"]) simp
qed

section \<open>Properties\<close>

text \<open>C16. Frames survive a connection: whatever sequence of frames one side writes, each within the
  frame limit and the configured message limit, the other side decodes exactly this sequence, in
  order, and the reader is left at the first byte after it. The buffer that \<open>EncodeFrame\<close> returns
  holds the same bytes that \<open>WriteFrame\<close> sends.\<close>

theorem frame_stream_roundtrip:
  assumes "\<forall>(op, p) \<in> set fs. frame_fits mx p"
  shows "decode_n (length fs) mx (concat (map (\<lambda>(op, p). WriteFrame op p) fs) @ rest)
       = (Inr (map (\<lambda>(op, p). \<lparr>fVersion = ProtocolVersion, fOpCode = op, fPayload = p\<rparr>) fs), rest)
     \<and> (\<forall>(op, p) \<in> set fs. EncodeFrame op p = Some (WriteFrame op p))"
  using assms decode_n_WriteFrame [of fs mx rest] frame_fits_EncodeFrame [of mx] by auto

theorem frame_stream_roundtrip_witness:
  "decode_n (Suc (Suc 0)) 1024 (WriteFrame OpPublish [1, 2, 3] @ WriteFrame OpAck [] @ [9, 9])
     = (Inr [\<lparr>fVersion = 1, fOpCode = OpPublish, fPayload = [1, 2, 3]\<rparr>,
             \<lparr>fVersion = 1, fOpCode = OpAck, fPayload = []\<rparr>], [9, 9])"
  using frame_stream_roundtrip [of "[(OpPublish, [1, 2, 3]), (OpAck, [])]" 1024 "[9, 9]"]
  by (simp add: frame_fits_def MaxFrameSize_def ProtocolVersion_def del: decode_n.simps)

text \<open>No frame above a limit gets past the decoder: a decoded frame has a payload within the
  configured message limit and the frame limit, it is the part of the input that follows the four
  length bytes, and the decoder consumed no byte beyond it.\<close>

theorem decoded_frame_within_limits:
  assumes "DecodeFrame mx r = (Inr f, rest)"
  shows "length (fPayload f) \<le> unat mx \<and> length (fPayload f) + 2 \<le> unat MaxFrameSize
     \<and> (\<exists>pre. r = pre @ fVersion f # fOpCode f # fPayload f @ rest \<and> length pre = 4)"
  using DecodeFrame_Inr [OF assms] by blast

theorem decoded_frame_within_limits_witness:
  "length (fPayload \<lparr>fVersion = 1, fOpCode = OpAck, fPayload = [7 :: u8]\<rparr>) \<le> unat (1024 :: u32)"
  using decoded_frame_within_limits
      [of 1024 "WriteFrame OpAck [7]" "\<lparr>fVersion = 1, fOpCode = OpAck, fPayload = [7]\<rparr>" "[]"]
    DecodeFrame_WriteFrame_aux [of 1024 "[7]" OpAck "[]"]
  by (simp add: frame_fits_def MaxFrameSize_def ProtocolVersion_def)

end
