(* ===== verification/Varint.thy ===== *)
theory Varint
  imports Prelude
begin

unbundle bit_operations_syntax

text \<open>
  The variable-length integers of Go's \<open>encoding/binary\<close>, which the storage codec and the
  hand-written protobuf codecs build on: seven bits per byte, least significant group first,
  with the top bit of a byte set when more follow; signed values are zig-zag coded. The
  decoder reports the number of bytes it read: 0 when the input ends too early, a negative
  number when the value does not fit 64 bits.
\<close>

type_synonym i64 = "64 word" \<comment> \<open>read as two's complement\<close>

definition MaxVarintLen64 :: nat where "MaxVarintLen64 = 10"

function AppendUvarint' :: "u64 \<Rightarrow> bytes" where
  \<comment> \<open>what \<open>AppendUvarint\<close> appends\<close>
  "AppendUvarint' x =
     (if x \<ge> 0x80 then (ucast x OR 0x80) # AppendUvarint' (drop_bit 7 x) else [ucast x])"
  by pat_completeness auto
termination
proof (relation "measure unat")
  fix x :: u64
  assume "0x80 \<le> x"
  then have "128 \<le> unat x" by (simp add: word_le_nat_alt)
  then show "(drop_bit 7 x, x) \<in> measure unat"
    by (simp add: drop_bit_eq_div unat_div)
qed simp

declare AppendUvarint'.simps [simp del]

definition AppendUvarint :: "bytes \<Rightarrow> u64 \<Rightarrow> bytes" where
  "AppendUvarint buf x = buf @ AppendUvarint' x"

definition PutUvarint_len :: "u64 \<Rightarrow> nat" where
  \<comment> \<open>the number of bytes \<open>PutUvarint\<close> reports to have written\<close>
  "PutUvarint_len x = length (AppendUvarint' x)"

fun Uvarint_loop :: "nat \<Rightarrow> u64 \<Rightarrow> nat \<Rightarrow> bytes \<Rightarrow> u64 \<times> int" where
  "Uvarint_loop i x s [] = (0, 0)"
| "Uvarint_loop i x s (b # bs) =
     (if i = MaxVarintLen64 then (0, - int (i + 1))
      else if b < 0x80 then
        (if i = MaxVarintLen64 - 1 \<and> b > 1 then (0, - int (i + 1))
         else (x OR push_bit s (ucast b), int (i + 1)))
      else Uvarint_loop (Suc i) (x OR push_bit s (ucast (b AND 0x7f))) (s + 7) bs)"

definition Uvarint :: "bytes \<Rightarrow> u64 \<times> int" where
  "Uvarint buf = Uvarint_loop 0 0 0 buf"

definition zigzag :: "i64 \<Rightarrow> u64" where
  "zigzag x = (if sint x < 0 then NOT (push_bit 1 x) else push_bit 1 x)"

definition unzigzag :: "u64 \<Rightarrow> i64" where
  "unzigzag ux = (if ux AND 1 \<noteq> 0 then NOT (drop_bit 1 ux) else drop_bit 1 ux)"

definition AppendVarint :: "bytes \<Rightarrow> i64 \<Rightarrow> bytes" where
  "AppendVarint buf x = AppendUvarint buf (zigzag x)"

definition PutVarint_len :: "i64 \<Rightarrow> nat" where
  "PutVarint_len x = PutUvarint_len (zigzag x)"

definition Varint :: "bytes \<Rightarrow> i64 \<times> int" where
  "Varint buf = (let (ux, n) = Uvarint buf in (unzigzag ux, n))"

section \<open>Decoding inverts encoding\<close>

lemma byte_less_0x80: "(w :: u8) < 0x80 \<longleftrightarrow> \<not> bit w 7"
proof -
  have "bit w 7 \<longleftrightarrow> bit (unat w) 7" by (simp add: bit_simps)
  also have "\<dots> \<longleftrightarrow> odd (unat w div 128)" by (simp add: bit_iff_odd)
  also have "\<dots> \<longleftrightarrow> \<not> unat w < 128"
  proof -
    have "unat w < 256" using unsigned_less [of w] by simp
    then have "unat w div 128 = (if unat w < 128 then 0 else 1)" by auto
    then show ?thesis by simp
  qed
  finally show ?thesis by (simp add: word_less_nat_alt)
qed

lemma byte_0x7f: "(0x7f :: u8) = mask 7"
  by (simp add: mask_eq_exp_minus_1)

lemma byte_0x80: "(0x80 :: u8) = push_bit 7 1"
  by (simp add: push_bit_eq_mult)

lemma uvarint_byte:
  fixes x :: u64
  shows "\<not> (ucast x OR 0x80 :: u8) < 0x80" and
    "(ucast ((ucast x OR 0x80 :: u8) AND 0x7f) :: u64) = take_bit 7 x"
proof -
  show "\<not> (ucast x OR 0x80 :: u8) < 0x80"
    unfolding byte_less_0x80 unfolding byte_0x80 by (simp add: bit_simps del: push_bit_of_1)
  show "(ucast ((ucast x OR 0x80 :: u8) AND 0x7f) :: u64) = take_bit 7 x"
    unfolding byte_0x7f byte_0x80
    by (rule bit_word_eqI) (auto simp: bit_simps simp del: push_bit_of_1)
qed

lemma or_take_drop:
  fixes x acc :: u64
  shows "(acc OR push_bit s (take_bit 7 x)) OR push_bit (s + 7) (drop_bit 7 x) = acc OR push_bit s x"
proof (rule bit_word_eqI)
  fix n
  assume "n < LENGTH(64)"
  consider "n < s" | "s \<le> n" "n < s + 7" | "s + 7 \<le> n" by linarith
  then show "bit ((acc OR push_bit s (take_bit 7 x)) OR push_bit (s + 7) (drop_bit 7 x)) n
      = bit (acc OR push_bit s x) n"
    by cases (auto simp: bit_simps)
qed

lemma Uvarint_loop_append:
  assumes "i < MaxVarintLen64" and "unat x * 2 ^ (7 * i) < 2 ^ 64"
  shows "Uvarint_loop i acc (7 * i) (AppendUvarint' x @ rest)
     = (acc OR push_bit (7 * i) x, int (i + length (AppendUvarint' x)))"
  using assms
proof (induction x arbitrary: i acc rule: AppendUvarint'.induct)
  case (1 x)
  show ?case
  proof (cases "x \<ge> 0x80")
    case True
    then have big: "128 \<le> unat x" by (simp add: word_le_nat_alt)
    have i9: "Suc i < MaxVarintLen64"
    proof (rule ccontr)
      assume "\<not> Suc i < MaxVarintLen64"
      with "1.prems"(1) have "i = 9" by (simp add: MaxVarintLen64_def)
      with "1.prems"(2) big show False by simp
    qed
    have "unat (drop_bit 7 x) * 2 ^ (7 * Suc i) = (unat x div 128) * 128 * 2 ^ (7 * i)"
      by (simp add: drop_bit_eq_div unat_div power_add)
    also have "\<dots> \<le> unat x * 2 ^ (7 * i)" by (intro mult_right_mono) simp_all
    finally have lt: "unat (drop_bit 7 x) * 2 ^ (7 * Suc i) < 2 ^ 64"
      using "1.prems"(2) by linarith
    have ap: "AppendUvarint' x = (ucast x OR 0x80) # AppendUvarint' (drop_bit 7 x)"
      using True by (subst AppendUvarint'.simps) simp
    have "Uvarint_loop i acc (7 * i) (AppendUvarint' x @ rest)
        = Uvarint_loop (Suc i) (acc OR push_bit (7 * i) (take_bit 7 x)) (7 * Suc i)
            (AppendUvarint' (drop_bit 7 x) @ rest)"
      using uvarint_byte [of x] "1.prems"(1) by (simp add: ap add.commute)
    also have "\<dots> = ((acc OR push_bit (7 * i) (take_bit 7 x)) OR push_bit (7 * Suc i) (drop_bit 7 x),
        int (Suc i + length (AppendUvarint' (drop_bit 7 x))))"
      by (rule "1.IH" [OF True i9 lt])
    also have "\<dots> = (acc OR push_bit (7 * i) x, int (i + length (AppendUvarint' x)))"
      using or_take_drop [of acc "7 * i" x] by (simp add: ap add.commute)
    finally show ?thesis .
  next
    case False
    then have small: "unat x < 128" by (simp add: word_le_nat_alt)
    have b: "unat (ucast x :: u8) = unat x"
      using small by (simp add: unsigned_ucast_eq take_bit_eq_mod)
    then have lt: "(ucast x :: u8) < 0x80" using small by (simp add: word_less_nat_alt)
    have id: "ucast (ucast x :: u8) = x"
      using b by (intro word_unat_eq_iff [THEN iffD2]) (simp add: unsigned_ucast_eq take_bit_eq_mod unat_mod)
    have "\<not> (i = 9 \<and> (ucast x :: u8) > 1)"
      using "1.prems"(2) b by (auto simp: word_less_nat_alt)
    then show ?thesis
      using False lt "1.prems"(1) id
      by (subst (1 2) AppendUvarint'.simps) (auto simp: MaxVarintLen64_def)
  qed
qed

lemma Uvarint_append [simp]:
  "Uvarint (AppendUvarint' x @ rest) = (x, int (length (AppendUvarint' x)))"
proof -
  have "unat x < 2 ^ 64" using unsigned_less [of x] by simp
  then show ?thesis
    using Uvarint_loop_append [of 0 x 0 rest] by (simp add: Uvarint_def MaxVarintLen64_def)
qed

lemma AppendUvarint'_nonempty: "0 < length (AppendUvarint' x)"
  by (subst AppendUvarint'.simps) simp

lemma bit_u64_cases: "n < LENGTH(64) \<Longrightarrow> n < 63 \<or> n = 63"
  by auto

lemma unzigzag_zigzag [simp]: "unzigzag (zigzag x) = x"
proof (cases "sint x < 0")
  case True
  then have msb: "bit x 63" using bit_last_iff [of x] by simp
  have "NOT (push_bit 1 x) AND 1 \<noteq> 0"
    by (simp add: and_one_eq odd_iff_mod_2_eq_one [symmetric])
  moreover have "NOT (drop_bit 1 (NOT (push_bit 1 x))) = x"
    by (rule bit_word_eqI, drule bit_u64_cases)
      (use msb in \<open>auto simp: bit_simps bit_double_iff mult.commute [of x 2]\<close>)
  ultimately show ?thesis using True by (simp add: zigzag_def unzigzag_def)
next
  case False
  then have msb: "\<not> bit x 63" using bit_last_iff [of x] by simp
  have "push_bit 1 x AND 1 = 0" by (simp add: and_one_eq even_iff_mod_2_eq_zero [symmetric])
  moreover have "drop_bit 1 (push_bit 1 x) = x"
    by (rule bit_word_eqI, drule bit_u64_cases)
      (use msb in \<open>auto simp: bit_simps bit_double_iff mult.commute [of x 2]\<close>)
  ultimately show ?thesis using False by (simp add: zigzag_def unzigzag_def)
qed

lemma Varint_append [simp]:
  "Varint (AppendUvarint' (zigzag x) @ rest) = (x, int (length (AppendUvarint' (zigzag x))))"
  by (simp add: Varint_def)

text \<open>The decoder never reports more bytes than it was given, nor more than ten.\<close>

lemma Uvarint_loop_bound:
  "Uvarint_loop i x s bs = (v, n) \<Longrightarrow> 0 < n \<Longrightarrow> i \<le> MaxVarintLen64
    \<Longrightarrow> n \<le> int (i + length bs) \<and> n \<le> int MaxVarintLen64"
proof (induction i x s bs rule: Uvarint_loop.induct)
  case (1 i x s)
  then show ?case by simp
next
  case (2 i x s b bs)
  then show ?case by (auto split: if_splits simp: MaxVarintLen64_def)
qed

lemma Uvarint_bound:
  "Uvarint bs = (v, n) \<Longrightarrow> 0 < n \<Longrightarrow> n \<le> int (length bs) \<and> n \<le> int MaxVarintLen64"
  unfolding Uvarint_def by (drule (1) Uvarint_loop_bound) simp_all

end
