(* ===== verification/Client_Codec.thy ===== *)
theory Client_Codec
  imports Varint
begin

text \<open>
  The hand-written protobuf payloads of the simple client path:
  \<open>internal/protocol/client_codec.go\<close> and \<open>internal/protocol/publish_response.go\<close>. The
  peer decodes them with the protobuf library, so next to the code stands a reader for the
  protobuf wire format (\<open>parse_wire\<close>), as the format's documentation defines it, and the
  lemmas say which fields the code's bytes denote.
\<close>

section \<open>The code\<close>

definition fieldQueueString :: u8 where "fieldQueueString = 0x0a"
definition fieldPayloadBytes :: u8 where "fieldPayloadBytes = 0x12"
definition fieldPrefetchUint32 :: u8 where "fieldPrefetchUint32 = 0x10"
definition fieldMessageIDString :: u8 where "fieldMessageIDString = 0x0a"
definition publishResponseMessageIDField :: u8 where "publishResponseMessageIDField = 0x0a"

lemmas field_defs = fieldQueueString_def fieldPayloadBytes_def fieldPrefetchUint32_def
  fieldMessageIDString_def publishResponseMessageIDField_def

definition EncodeSimplePublishRequestPayload :: "string \<Rightarrow> bytes \<Rightarrow> bytes" where
  "EncodeSimplePublishRequestPayload queue payload =
     (let buf = [fieldQueueString];
          buf = AppendUvarint buf (of_nat (length queue));
          buf = buf @ bytes_of queue;
          buf = buf @ [fieldPayloadBytes];
          buf = AppendUvarint buf (of_nat (length payload))
      in buf @ payload)"

definition EncodeSimpleConsumeRequestPayload :: "string \<Rightarrow> u32 \<Rightarrow> u32 \<Rightarrow> bytes" where
  "EncodeSimpleConsumeRequestPayload queue prefetch visibilityTimeout =
     (let buf = [fieldQueueString];
          buf = AppendUvarint buf (of_nat (length queue));
          buf = buf @ bytes_of queue;
          buf = (if prefetch \<noteq> 0
                 then AppendUvarint (buf @ [fieldPrefetchUint32]) (ucast prefetch) else buf)
      in if visibilityTimeout \<noteq> 0
         then AppendUvarint (buf @ [0x18]) (ucast visibilityTimeout) else buf)"

definition EncodeAckRequestPayload :: "string \<Rightarrow> bytes" where
  "EncodeAckRequestPayload messageID =
     (let buf = [fieldMessageIDString];
          buf = AppendUvarint buf (of_nat (length messageID))
      in buf @ bytes_of messageID)"

definition EncodePublishResponsePayload :: "string \<Rightarrow> bytes" where
  "EncodePublishResponsePayload messageID =
     (let buf = [publishResponseMessageIDField];
          buf = AppendUvarint buf (of_nat (length messageID))
      in buf @ bytes_of messageID)"

definition DecodePublishResponsePayload :: "bytes \<Rightarrow> (string \<times> bool) go" where
  \<comment> \<open>\<open>end\<close> is a 64-bit signed sum, and slicing past either bound panics\<close>
  "DecodePublishResponsePayload payload =
     (if length payload = 0 then Some ([], True)
      else if payload ! 0 \<noteq> publishResponseMessageIDField then Some ([], False)
      else let (len, n) = Uvarint (drop 1 payload) in
        if n \<le> 0 then Some ([], False)
        else let start = 1 + n;
                 end' = sint (of_int start + len :: 64 word)
          in if end' > int (length payload) then Some ([], False)
             else if end' \<noteq> int (length payload) then Some ([], False)
             else if start \<le> end'
               then Some (string_of (take (nat (end' - start)) (drop (nat start) payload)), True)
               else None)"


section \<open>The protobuf wire format\<close>

datatype wire_value = WVarint u64 | WBytes bytes

text \<open>One field: a tag varint holding the field number and the wire type, then a varint
  (type 0) or a length-delimited block (type 2). Other wire types do not occur here.\<close>

definition parse_field :: "bytes \<Rightarrow> ((nat \<times> wire_value) \<times> bytes) option" where
  "parse_field bs =
     (let (tag, n) = Uvarint bs; rest = drop (nat n) bs in
      if n \<le> 0 then None
      else if unat tag mod 8 = 0 then
        (let (v, m) = Uvarint rest in
         if m \<le> 0 then None else Some ((unat tag div 8, WVarint v), drop (nat m) rest))
      else if unat tag mod 8 = 2 then
        (let (l, m) = Uvarint rest; body = drop (nat m) rest in
         if m \<le> 0 \<or> length body < unat l then None
         else Some ((unat tag div 8, WBytes (take (unat l) body)), drop (unat l) body))
      else None)"

fun parse_wire :: "nat \<Rightarrow> bytes \<Rightarrow> (nat \<times> wire_value) list option" where
  "parse_wire fuel [] = Some []"
| "parse_wire 0 (b # bs) = None"
| "parse_wire (Suc fuel) (b # bs) =
     (case parse_field (b # bs) of
        None \<Rightarrow> None
      | Some (f, rest) \<Rightarrow> map_option (Cons f) (parse_wire fuel rest))"

text \<open>A field uses at least one byte, so the length of the input is enough fuel.\<close>

lemma parse_field_shrinks: "parse_field bs = Some (f, rest) \<Longrightarrow> length rest < length bs"
proof -
  assume p: "parse_field bs = Some (f, rest)"
  then have "bs \<noteq> []" by (auto simp: parse_field_def Uvarint_def)
  moreover have "length rest < length bs \<or> bs = []"
    using p by (auto simp: parse_field_def Let_def split: prod.splits if_splits)
  ultimately show ?thesis by simp
qed

lemma parse_wire_fuel:
  assumes "length bs \<le> n" and "length bs \<le> k"
  shows "parse_wire n bs = parse_wire k bs"
  using assms
proof (induction n bs arbitrary: k rule: parse_wire.induct)
  case (1 fuel)
  then show ?case by simp
next
  case (2 b bs)
  then show ?case by simp
next
  case (3 fuel b bs)
  then obtain k' where k: "k = Suc k'" by (cases k) auto
  show ?case
  proof (cases "parse_field (b # bs)")
    case None
    then show ?thesis by (simp add: k)
  next
    case (Some fr)
    obtain f rest where fr: "fr = (f, rest)" by (cases fr)
    with Some have "length rest < length (b # bs)" by (intro parse_field_shrinks) simp
    with "3.prems" k have "parse_wire fuel rest = parse_wire k' rest"
      by (intro "3.IH" [OF Some fr [symmetric]]) simp_all
    with Some fr show ?thesis by (simp add: k)
  qed
qed

definition wire_fields :: "bytes \<Rightarrow> (nat \<times> wire_value) list option" where
  "wire_fields bs = parse_wire (length bs) bs"

lemma wire_fields_step:
  assumes "parse_field bs = Some (f, rest)"
  shows "wire_fields bs = map_option (Cons f) (wire_fields rest)"
proof -
  from assms obtain b bs' where bs: "bs = b # bs'"
    by (cases bs) (auto simp: parse_field_def Uvarint_def)
  have "length rest < length bs" by (rule parse_field_shrinks [OF assms])
  then have "parse_wire (length bs') rest = parse_wire (length rest) rest"
    by (intro parse_wire_fuel) (simp_all add: bs)
  with assms show ?thesis by (simp add: wire_fields_def bs)
qed

lemma Uvarint_small:
  assumes "b < 0x80"
  shows "Uvarint (b # bs) = (ucast b, 1)"
  using assms by (simp add: Uvarint_def MaxVarintLen64_def)

lemma parse_field_bytes:
  assumes "b \<in> {0x0a, 0x12}" and "length body < 2 ^ 64"
  shows "parse_field (b # AppendUvarint' (of_nat (length body)) @ body @ rest)
     = Some ((unat b div 8, WBytes body), rest)"
proof -
  have "unat (of_nat (length body) :: u64) = length body"
    using assms(2) by (simp add: unat_of_nat)
  moreover have "b < 0x80" using assms(1) by auto
  ultimately show ?thesis
    using assms(1) AppendUvarint'_nonempty [of "of_nat (length body)"]
    by (auto simp: parse_field_def Uvarint_small Let_def)
qed

lemma parse_field_varint:
  assumes "b \<in> {0x10, 0x18}"
  shows "parse_field (b # AppendUvarint' v @ rest) = Some ((unat b div 8, WVarint v), rest)"
proof -
  have "b < 0x80" using assms by auto
  then show ?thesis
    using assms AppendUvarint'_nonempty [of v]
    by (auto simp: parse_field_def Uvarint_small Let_def)
qed

lemma parse_field_bytes_end:
  "b \<in> {0x0a, 0x12} \<Longrightarrow> length body < 2 ^ 64 \<Longrightarrow>
    parse_field (b # AppendUvarint' (of_nat (length body)) @ body)
     = Some ((unat b div 8, WBytes body), [])"
  using parse_field_bytes [of b body "[]"] by simp

lemma parse_field_varint_end:
  "b \<in> {0x10, 0x18} \<Longrightarrow> parse_field (b # AppendUvarint' v) = Some ((unat b div 8, WVarint v), [])"
  using parse_field_varint [of b v "[]"] by simp

lemma wire_fields_Nil [simp]: "wire_fields [] = Some []"
  by (simp add: wire_fields_def)

section \<open>What the code's payloads denote\<close>

lemma string_field:
  assumes "length s < 2 ^ 63" and "b \<in> {0x0a, 0x12}"
  shows "parse_field (b # AppendUvarint' (of_nat (length s)) @ bytes_of s @ rest)
     = Some ((unat b div 8, WBytes (bytes_of s)), rest)"
  using parse_field_bytes [of b "bytes_of s" rest] assms by simp

lemma wire_publish_request:
  assumes "length queue < 2 ^ 63" and "length payload < 2 ^ 63"
  shows "wire_fields (EncodeSimplePublishRequestPayload queue payload)
     = Some [(1, WBytes (bytes_of queue)), (2, WBytes payload)]"
proof -
  have p: "parse_field (fieldPayloadBytes # AppendUvarint' (of_nat (length payload)) @ payload)
      = Some ((2, WBytes payload), [])"
    using assms by (simp add: parse_field_bytes_end field_defs)
  have q: "parse_field (fieldQueueString # AppendUvarint' (of_nat (length queue)) @ bytes_of queue @ rest)
      = Some ((1, WBytes (bytes_of queue)), rest)" for rest
    using assms by (simp add: string_field field_defs)
  show ?thesis
    by (simp add: EncodeSimplePublishRequestPayload_def AppendUvarint_def
      wire_fields_step [OF q] wire_fields_step [OF p])
qed

lemma wire_ack_request:
  assumes "length messageID < 2 ^ 63"
  shows "wire_fields (EncodeAckRequestPayload messageID) = Some [(1, WBytes (bytes_of messageID))]"
proof -
  have q: "parse_field (fieldMessageIDString # AppendUvarint' (of_nat (length messageID))
        @ bytes_of messageID) = Some ((1, WBytes (bytes_of messageID)), [])"
    using string_field [of messageID "0x0a" "[]"] assms by (simp add: field_defs)
  show ?thesis
    by (simp add: EncodeAckRequestPayload_def AppendUvarint_def wire_fields_step [OF q])
qed

lemma wire_consume_request:
  assumes "length queue < 2 ^ 63"
  shows "wire_fields (EncodeSimpleConsumeRequestPayload queue prefetch vt)
     = Some ((1, WBytes (bytes_of queue)) #
         (if prefetch \<noteq> 0 then [(2, WVarint (ucast prefetch))] else []) @
         (if vt \<noteq> 0 then [(3, WVarint (ucast vt))] else []))"
proof -
  have q: "parse_field (fieldQueueString # AppendUvarint' (of_nat (length queue)) @ bytes_of queue @ rest)
      = Some ((1, WBytes (bytes_of queue)), rest)" for rest
    using assms by (simp add: string_field field_defs)
  have p: "parse_field (fieldPrefetchUint32 # AppendUvarint' v @ rest) = Some ((2, WVarint v), rest)"
    for v rest by (simp add: parse_field_varint field_defs)
  have t: "parse_field (0x18 # AppendUvarint' v) = Some ((3, WVarint v), [])" for v
    by (simp add: parse_field_varint_end)
  note steps = wire_fields_step [OF q] wire_fields_step [OF q [of "[]", simplified]]
    wire_fields_step [OF p] wire_fields_step [OF p [of _ "[]", simplified]] wire_fields_step [OF t]
  show ?thesis
    by (simp add: EncodeSimpleConsumeRequestPayload_def AppendUvarint_def steps)
qed

lemma sint_sum_small:
  assumes "0 \<le> a" and "a + int l < 2 ^ 63"
  shows "sint (of_int a + of_nat l :: 64 word) = a + int l"
proof -
  have "sint (of_int a + of_nat l :: 64 word) = sint (of_int (a + int l) :: 64 word)"
    by simp
  also have "\<dots> = signed_take_bit 63 (a + int l)" by (simp only: signed_of_int) simp
  also have "\<dots> = a + int l"
    using assms by (intro signed_take_bit_int_eq_self) simp_all
  finally show ?thesis .
qed

lemma DecodePublishResponse_Encode_aux:
  assumes "length messageID < 2 ^ 62"
  shows "DecodePublishResponsePayload (EncodePublishResponsePayload messageID) = Some (messageID, True)"
proof -
  let ?u = "AppendUvarint' (of_nat (length messageID) :: u64)"
  have len: "length ?u \<le> MaxVarintLen64"
    using Uvarint_bound [OF Uvarint_append [of "of_nat (length messageID)" "[]", simplified]]
      AppendUvarint'_nonempty [of "of_nat (length messageID)"] by simp
  have s: "sint (of_int (1 + int (length ?u)) + of_nat (length messageID) :: 64 word)
      = 1 + int (length ?u) + int (length messageID)"
    using assms len by (intro sint_sum_small) (simp_all add: MaxVarintLen64_def)
  show ?thesis
    using s AppendUvarint'_nonempty [of "of_nat (length messageID)"]
    by (simp add: DecodePublishResponsePayload_def EncodePublishResponsePayload_def
      AppendUvarint_def nat_add_distrib)
qed

lemma DecodePublishResponse_total: "\<exists>s ok. DecodePublishResponsePayload payload = Some (s, ok)"
proof (cases "payload = [] \<or> payload ! 0 \<noteq> publishResponseMessageIDField")
  case True
  then show ?thesis by (auto simp: DecodePublishResponsePayload_def)
next
  case False
  obtain len n where u: "Uvarint (drop 1 payload) = (len, n)" by (cases "Uvarint (drop 1 payload)")
  have "0 < n \<Longrightarrow> n \<le> int (length payload) - 1"
    using Uvarint_bound [OF u] False by (cases payload) auto
  with False u show ?thesis
    by (cases "n \<le> 0") (auto simp: DecodePublishResponsePayload_def Let_def)
qed

section \<open>Properties\<close>

text \<open>The hand-written encoders produce the protobuf wire format: read by a field reader of that
  format, the publish payload has the queue as field 1 and the payload as field 2, the consume payload
  has the queue and, when they are not zero, the prefetch count as field 2 and the visibility timeout as
  field 3, and the ack payload has the message id as field 1.\<close>

theorem client_payloads_are_protobuf:
  assumes "length queue < 2 ^ 63" and "length payload < 2 ^ 63" and "length messageID < 2 ^ 63"
  shows "wire_fields (EncodeSimplePublishRequestPayload queue payload)
       = Some [(1, WBytes (bytes_of queue)), (2, WBytes payload)]
     \<and> wire_fields (EncodeSimpleConsumeRequestPayload queue prefetch vt)
       = Some ((1, WBytes (bytes_of queue)) #
           (if prefetch \<noteq> 0 then [(2, WVarint (ucast prefetch))] else []) @
           (if vt \<noteq> 0 then [(3, WVarint (ucast vt))] else []))
     \<and> wire_fields (EncodeAckRequestPayload messageID) = Some [(1, WBytes (bytes_of messageID))]"
  using assms wire_publish_request wire_consume_request wire_ack_request by blast

theorem client_payloads_are_protobuf_witness:
  "wire_fields (EncodeSimplePublishRequestPayload ''jobs'' [1, 2])
     = Some [(1, WBytes (bytes_of ''jobs'')), (2, WBytes [1, 2])]
   \<and> wire_fields (EncodeSimpleConsumeRequestPayload ''jobs'' 0 30)
     = Some [(1, WBytes (bytes_of ''jobs'')), (3, WVarint 30)]"
  using client_payloads_are_protobuf [of "''jobs''" "[1, 2]" "''m1''" 0 30] by simp

text \<open>A publish response carries the message id to the client unchanged, and the client's decoder
  never runs out of the slice, whatever bytes it is given.\<close>

theorem publish_response_roundtrip:
  assumes "length messageID < 2 ^ 62"
  shows "DecodePublishResponsePayload (EncodePublishResponsePayload messageID) = Some (messageID, True)
     \<and> DecodePublishResponsePayload payload \<noteq> None"
  using DecodePublishResponse_Encode_aux [OF assms] DecodePublishResponse_total [of payload] by auto

theorem publish_response_roundtrip_witness:
  "DecodePublishResponsePayload (EncodePublishResponsePayload ''01ARZ3NDEK'') = Some (''01ARZ3NDEK'', True)"
  using publish_response_roundtrip [of "''01ARZ3NDEK''"] by simp

end
