(* ===== verification/Message.thy ===== *)
theory Message
  imports Prelude
begin

text \<open>
  The message record of \<open>internal/types/message.go\<close>, shared by the storage layer, the queues
  and the broker, and the generator \<open>NewULID\<close>. The two string-typed maps of the source
  (headers) are Go maps; a nil map and an empty map behave alike under lookup, \<open>len\<close> and
  \<open>range\<close> and are both the empty list.
\<close>

record message =
  mID :: string
  mQueue :: string
  mPayload :: bytes
  mHeaders :: "(string, string) gomap"
  mAttempt :: u32
  mPublishedAt :: time
  mVisibleAt :: time
  mOrderingKey :: string
  mSequence :: u64

text \<open>
  \<open>NewULID\<close> picks one of eight entropy shards by a 64-bit counter that is incremented
  atomically, then asks the ULID library for an identifier. The library is the parameter
  \<open>must_new\<close>: it takes the current time in milliseconds and the shard's entropy state and
  returns the identifier and the shard's next state.
\<close>

definition numEntropyShards :: nat where
  "numEntropyShards = 8"

record 'e ulid_state =
  entropyNext :: u64
  entropyShards :: "'e list"

definition NewULID ::
    "(int \<Rightarrow> 'e \<Rightarrow> string \<times> 'e) \<Rightarrow> time \<Rightarrow> 'e ulid_state \<Rightarrow> (string \<times> 'e ulid_state) go" where
  "NewULID must_new now u =
     (let n = entropyNext u + 1;
          idx = unat (n mod of_nat numEntropyShards)
      in if idx < length (entropyShards u)
         then (let (s, e) = must_new (unix_milli now) (entropyShards u ! idx)
               in Some (s, u\<lparr>entropyNext := n, entropyShards := (entropyShards u)[idx := e]\<rparr>))
         else None)"

lemma NewULID_index_in_range:
  assumes "length (entropyShards u) = numEntropyShards"
  shows "\<exists>s u'. NewULID must_new now u = Some (s, u')
     \<and> entropyNext u' = entropyNext u + 1 \<and> length (entropyShards u') = numEntropyShards"
proof -
  let ?n = "entropyNext u + 1"
  have "unat (?n mod of_nat numEntropyShards) < numEntropyShards"
    by (simp add: numEntropyShards_def unat_mod)
  with assms show ?thesis
    by (auto simp: NewULID_def Let_def split: prod.splits)
qed

end
