(* ===== verification/Broker_Types.thy ===== *)
theory Broker_Types
  imports Message
begin

text \<open>
  What the parts of \<open>internal/broker\<close> share: the errors they return, the failure policies and
  dead-letter names of \<open>dlq.go\<close>, the \<open>NackResult\<close> of \<open>queue.go\<close>, buffered channels, and the
  hooks that \<open>ackWithHook\<close> and \<open>nackWithHooks\<close> call while they hold a lock.
\<close>

section \<open>Errors\<close>

datatype error =
    ErrQueueFull
  | ErrMemoryPressure
  | ErrDuplicateMessage string
  | ErrCallTimeout
  | ErrStorage string
  | ErrJoin error error
  | ErrRollback string error error
  | ErrNotLeader
  | ErrApplyFailed error
  | ErrText string

text \<open>\<open>ErrStorage\<close> is whatever the storage backend returns, \<open>ErrJoin\<close> is \<open>errors.Join\<close>,
  \<open>ErrRollback\<close> an \<open>fmt.Errorf\<close> that wraps two errors, and \<open>ErrText\<close> one that is told apart by
  its text alone. \<open>ErrNotLeader\<close> and \<open>ErrApplyFailed\<close> are those of the cluster.\<close>

section \<open>Failure policies and dead-letter queues\<close>

type_synonym FailurePolicy = string

definition FailurePolicyDLQ :: FailurePolicy where "FailurePolicyDLQ = ''dlq''"
definition FailurePolicyDrop :: FailurePolicy where "FailurePolicyDrop = ''drop''"
definition FailurePolicyInfinite :: FailurePolicy where "FailurePolicyInfinite = ''infinite''"

lemmas policy_defs = FailurePolicyDLQ_def FailurePolicyDrop_def FailurePolicyInfinite_def

lemma policies_distinct [simp]:
  "FailurePolicyDLQ \<noteq> FailurePolicyDrop" "FailurePolicyDLQ \<noteq> FailurePolicyInfinite"
  "FailurePolicyDrop \<noteq> FailurePolicyInfinite" "FailurePolicyDrop \<noteq> FailurePolicyDLQ"
  "FailurePolicyInfinite \<noteq> FailurePolicyDLQ" "FailurePolicyInfinite \<noteq> FailurePolicyDrop"
  by (simp_all add: policy_defs)

definition DefaultMaxRetries :: u32 where "DefaultMaxRetries = 5"

definition DLQSuffix :: string where "DLQSuffix = ''.dlq''"

definition DLQName :: "string \<Rightarrow> string" where
  "DLQName queue = queue @ DLQSuffix"

definition IsDLQ :: "string \<Rightarrow> bool" where
  "IsDLQ queue \<longleftrightarrow> length queue > length DLQSuffix
     \<and> drop (length queue - length DLQSuffix) queue = DLQSuffix"

lemma DLQName_neq [simp]: "DLQName q \<noteq> q" "q \<noteq> DLQName q"
  by (simp_all add: DLQName_def DLQSuffix_def)

lemma DLQName_inject [simp]: "DLQName p = DLQName q \<longleftrightarrow> p = q"
  by (simp add: DLQName_def)

lemma IsDLQ_iff: "IsDLQ q \<longleftrightarrow> (\<exists>p. p \<noteq> [] \<and> q = DLQName p)"
proof
  assume q: "IsDLQ q"
  let ?p = "take (length q - length DLQSuffix) q"
  have "q = ?p @ drop (length q - length DLQSuffix) q" by simp
  also have "\<dots> = DLQName ?p" using q by (simp only: IsDLQ_def DLQName_def)
  finally have "q = DLQName ?p" .
  moreover have "?p \<noteq> []" using q by (auto simp: IsDLQ_def)
  ultimately show "\<exists>p. p \<noteq> [] \<and> q = DLQName p" by blast
next
  assume "\<exists>p. p \<noteq> [] \<and> q = DLQName p"
  then show "IsDLQ q" by (auto simp: IsDLQ_def DLQName_def)
qed

section \<open>Nack results and hooks\<close>

record NackResult =
  nrFound :: bool
  nrMessage :: "message option"
  nrToDLQ :: bool
  nrDropped :: bool

definition NackNotFound :: NackResult where
  "NackNotFound = \<lparr>nrFound = False, nrMessage = None, nrToDLQ = False, nrDropped = False\<rparr>"

definition NackToDLQ :: "message \<Rightarrow> NackResult" where
  "NackToDLQ msg = \<lparr>nrFound = True, nrMessage = Some msg, nrToDLQ = True, nrDropped = False\<rparr>"

definition NackDropped :: "message \<Rightarrow> NackResult" where
  "NackDropped msg = \<lparr>nrFound = True, nrMessage = Some msg, nrToDLQ = False, nrDropped = True\<rparr>"

definition NackRequeued :: "message \<Rightarrow> NackResult" where
  "NackRequeued msg = \<lparr>nrFound = True, nrMessage = Some msg, nrToDLQ = False, nrDropped = False\<rparr>"

lemmas nack_result_defs = NackNotFound_def NackToDLQ_def NackDropped_def NackRequeued_def

text \<open>The rule that queues and groups apply to a nack: what becomes of the message. The code spells it out
  as nested conditionals in both places; \<open>nack_verdict\<close> is the rule itself, by policy.\<close>

datatype verdict = DeadLetter | Drop | Requeue

definition nack_verdict :: "FailurePolicy \<Rightarrow> bool \<Rightarrow> u32 \<Rightarrow> u32 \<Rightarrow> verdict" where
  "nack_verdict policy requeue attempt maxRetries =
     (if requeue \<and> (policy \<notin> {FailurePolicyDLQ, FailurePolicyDrop} \<or> attempt < maxRetries) then Requeue
      else if policy = FailurePolicyDLQ then DeadLetter
      else Drop)"

text \<open>A hook is nil or a function that may change the state \<open>'s\<close> behind it (the storage) and
  may fail.\<close>

type_synonym 's hook = "(message \<Rightarrow> 's \<Rightarrow> 's \<times> error option) option"

definition run_hook :: "'s hook \<Rightarrow> message \<Rightarrow> 's \<Rightarrow> 's \<times> error option" where
  "run_hook h msg s = (case h of None \<Rightarrow> (s, None) | Some f \<Rightarrow> f msg s)"

lemma run_hook_None [simp]: "run_hook None msg s = (s, None)"
  and run_hook_Some [simp]: "run_hook (Some f) msg s = f msg s"
  by (simp_all add: run_hook_def)

section \<open>Channels\<close>

text \<open>
  Consumers and group members own a channel with room for one message. Of a channel, a
  queue only ever does the non-blocking send of a \<open>select\<close> with a default branch: it
  succeeds when the buffer has room. A channel is closed exactly when its owner leaves the
  list it is reached through.
\<close>

definition chanCap :: nat where "chanCap = 1"

definition chan_ready :: "message list \<Rightarrow> bool" where
  "chan_ready buf \<longleftrightarrow> length buf < chanCap"

lemma chan_ready_iff [simp]: "chan_ready buf \<longleftrightarrow> buf = []"
  by (simp add: chan_ready_def chanCap_def)

end
