(* ===== verification/Delivery.thy ===== *)
theory Delivery
  imports Broker_Types
begin

text \<open>
  Queues and consumer groups deliver by the same kind of loop: as long as the head of the
  pending list can be handed to somebody, move it to the in-flight map and look at the next
  head. When the head cannot be delivered the loop ends; it may still have noted something
  about the head (\<open>settle\<close>), such as the consumer it is to wait for. The locale states what one turn of such a loop promises; its lemmas say what the
  whole loop does. \<open>Group\<close> and \<open>Queue\<close> interpret it with the loops of the code.
\<close>

definition tracked :: "('q \<Rightarrow> message list) \<Rightarrow> ('q \<Rightarrow> string list) \<Rightarrow> 'q \<Rightarrow> string list" where
  \<comment> \<open>the identifiers a queue answers for: pending ones, then in-flight ones\<close>
  "tracked pend infl q = map mID (pend q) @ infl q"

locale delivery =
  fixes inv :: "'q \<Rightarrow> bool"
    and pend :: "'q \<Rightarrow> message list"
    and infl :: "'q \<Rightarrow> string list"
    and turn :: "time \<Rightarrow> 'q \<Rightarrow> 'q option"
    and settle :: "time \<Rightarrow> 'q \<Rightarrow> 'q"
    and run :: "time \<Rightarrow> 'q \<Rightarrow> 'q go"
  assumes turn_pend: "inv q \<Longrightarrow> turn now q = Some q' \<Longrightarrow>
      \<exists>m. pend q = m # pend q' \<and> mVisibleAt m \<le> now
        \<and> set (infl q') = insert (mID m) (set (infl q))
        \<and> (mID m \<notin> set (infl q) \<longrightarrow> mset (infl q') = add_mset (mID m) (mset (infl q)))"
    and turn_inv: "inv q \<Longrightarrow> turn now q = Some q' \<Longrightarrow> inv q'"
    and run_turn: "inv q \<Longrightarrow>
      run now q = (case turn now q of None \<Rightarrow> Some (settle now q) | Some q' \<Rightarrow> run now q')"
    and settle_inv: "inv q \<Longrightarrow> turn now q = None \<Longrightarrow> inv (settle now q)"
    and settle_turn: "inv q \<Longrightarrow> turn now q = None \<Longrightarrow> turn now (settle now q) = None"
    and settle_idem: "inv q \<Longrightarrow> turn now q = None \<Longrightarrow> settle now (settle now q) = settle now q"
    and settle_pend: "inv q \<Longrightarrow> turn now q = None \<Longrightarrow> pend (settle now q) = pend q"
    and settle_infl: "inv q \<Longrightarrow> turn now q = None \<Longrightarrow> infl (settle now q) = infl q"
begin

lemma run_exists:
  assumes "inv q"
  shows "\<exists>q' ds. run now q = Some q' \<and> inv q' \<and> turn now q' = None \<and> settle now q' = q' \<and> pend q = ds @ pend q'
    \<and> (\<forall>m \<in> set ds. mVisibleAt m \<le> now)
    \<and> set (infl q') = mID ` set ds \<union> set (infl q)
    \<and> (distinct (tracked pend infl q) \<longrightarrow>
        mset (infl q') = mset (map mID ds) + mset (infl q))"
  using assms
proof (induction "length (pend q)" arbitrary: q rule: less_induct)
  case less
  show ?case
  proof (cases "turn now q")
    case None
    with less.prems show ?thesis
      by (intro exI [of _ "settle now q"] exI [of _ "[]"])
        (simp add: run_turn settle_inv settle_turn settle_idem settle_pend settle_infl)
  next
    case (Some q1)
    obtain m where m: "pend q = m # pend q1" "mVisibleAt m \<le> now"
        "set (infl q1) = insert (mID m) (set (infl q))"
        "mID m \<notin> set (infl q) \<longrightarrow> mset (infl q1) = add_mset (mID m) (mset (infl q))"
      using turn_pend [OF less.prems Some] by blast
    have "length (pend q1) < length (pend q)" using m(1) by simp
    from less.hyps [OF this turn_inv [OF less.prems Some]] obtain q' ds where
      q': "run now q1 = Some q'" "inv q'" "turn now q' = None \<and> settle now q' = q'"
        "pend q1 = ds @ pend q'"
        "\<forall>m \<in> set ds. mVisibleAt m \<le> now" "set (infl q') = mID ` set ds \<union> set (infl q1)"
      and ms: "distinct (tracked pend infl q1) \<longrightarrow>
        mset (infl q') = mset (map mID ds) + mset (infl q1)"
      by blast
    have "mset (infl q') = mset (map mID (m # ds)) + mset (infl q)"
      if d: "distinct (tracked pend infl q)"
    proof -
      from d m(1) have new: "mID m \<notin> set (infl q)" by (auto simp: tracked_def)
      with m(4) have i: "mset (infl q1) = add_mset (mID m) (mset (infl q))" by simp
      have "mset (tracked pend infl q1) = mset (tracked pend infl q)"
        using m(1) i by (simp add: tracked_def)
      with d have "distinct (tracked pend infl q1)" by (metis mset_eq_imp_distinct_iff)
      with ms i show ?thesis by simp
    qed
    moreover have "run now q = Some q'" using less.prems Some q'(1) by (simp add: run_turn)
    moreover have "pend q = (m # ds) @ pend q'" using m(1) q'(4) by simp
    moreover have "\<forall>x \<in> set (m # ds). mVisibleAt x \<le> now" using m(2) q'(5) by simp
    moreover have "set (infl q') = mID ` set (m # ds) \<union> set (infl q)" using m(3) q'(6) by simp
    ultimately show ?thesis using q'(2,3) by blast
  qed
qed

lemma run_rel:
  assumes "inv q" and "run now q = Some q'"
    and trans: "\<And>a b c. R a b \<Longrightarrow> R b c \<Longrightarrow> R a c"
    and turn: "\<And>a b. inv a \<Longrightarrow> turn now a = Some b \<Longrightarrow> R a b"
    and settle: "\<And>a. inv a \<Longrightarrow> turn now a = None \<Longrightarrow> R a (settle now a)"
  shows "R q q'"
  using assms(1,2)
proof (induction "length (pend q)" arbitrary: q rule: less_induct)
  case less
  show ?case
  proof (cases "turn now q")
    case None
    with less.prems have "q' = settle now q" by (simp add: run_turn)
    with settle [OF less.prems(1) None] show ?thesis by simp
  next
    case (Some q1)
    obtain m where "pend q = m # pend q1" using turn_pend [OF less.prems(1) Some] by blast
    then have "R q1 q'"
      using less turn_inv [OF less.prems(1) Some] Some by (intro less.hyps) (simp_all add: run_turn)
    with turn [OF less.prems(1) Some] show ?thesis by (rule trans)
  qed
qed

lemma run_total: "inv q \<Longrightarrow> \<exists>q'. run now q = Some q'"
  using run_exists by blast

lemma run_inv: "inv q \<Longrightarrow> run now q = Some q' \<Longrightarrow> inv q'"
  using run_exists [of q now] by auto

lemma run_stuck: "inv q \<Longrightarrow> run now q = Some q' \<Longrightarrow> turn now q' = None"
  using run_exists [of q now] by auto

lemma run_fifo:
  "inv q \<Longrightarrow> run now q = Some q' \<Longrightarrow>
    \<exists>ds. pend q = ds @ pend q' \<and> (\<forall>m \<in> set ds. mVisibleAt m \<le> now)
      \<and> set (infl q') = mID ` set ds \<union> set (infl q)"
  using run_exists [of q now] by auto

lemma run_tracked_set:
  assumes "inv q" and "run now q = Some q'"
  shows "set (tracked pend infl q') = set (tracked pend infl q)"
proof -
  obtain ds where "pend q = ds @ pend q'" and "set (infl q') = mID ` set ds \<union> set (infl q)"
    using run_fifo [OF assms] by blast
  then show ?thesis by (auto simp: tracked_def)
qed

lemma run_tracked_mset:
  assumes "inv q" and "run now q = Some q'" and "distinct (tracked pend infl q)"
  shows "mset (tracked pend infl q') = mset (tracked pend infl q)"
proof -
  obtain q'' ds where "run now q = Some q''" "pend q = ds @ pend q''"
    "mset (infl q'') = mset (map mID ds) + mset (infl q)"
    using run_exists [OF assms(1), of now] assms(3) by blast
  with assms(2) show ?thesis by (simp add: tracked_def)
qed

lemma run_tracked_distinct:
  "inv q \<Longrightarrow> run now q = Some q' \<Longrightarrow> distinct (tracked pend infl q)
    \<Longrightarrow> distinct (tracked pend infl q')"
  by (drule (2) run_tracked_mset) (simp add: mset_eq_imp_distinct_iff [of "tracked pend infl q'"])

lemma run_idem:
  assumes "inv q" and "run now q = Some q'"
  shows "run now q' = Some q'"
  using run_turn [OF run_inv [OF assms], of now] run_stuck [OF assms] run_exists [OF assms(1), of now]
    assms(2) by auto

end

section \<open>Requeueing in-flight entries\<close>

text \<open>
  Queues and groups also share the loop that ranges over the in-flight map, deletes the
  entries that satisfy a condition and appends their messages to the pending list.
\<close>

definition requeue_entry :: "('v \<Rightarrow> bool) \<Rightarrow> ('v \<Rightarrow> message)
    \<Rightarrow> (string, 'v) gomap \<times> message list \<Rightarrow> string \<times> 'v \<Rightarrow> (string, 'v) gomap \<times> message list" where
  "requeue_entry P f st kv =
     (if P (snd kv) then (gm_del (fst st) (fst kv), snd st @ [f (snd kv)]) else st)"

lemma requeue_entries:
  assumes "distinct (map fst kvs)" and "gm_wf m" and "set kvs \<subseteq> set m"
  shows "foldl (requeue_entry P f) (m, ms) kvs
     = (filter (\<lambda>kv. \<not> (kv \<in> set kvs \<and> P (snd kv))) m,
        ms @ map (\<lambda>kv. f (snd kv)) (filter (\<lambda>kv. P (snd kv)) kvs))"
  using assms
proof (induction kvs arbitrary: m ms)
  case Nil
  then show ?case by simp
next
  case (Cons kv kvs)
  obtain k e where kv: "kv = (k, e)" by (cases kv)
  have in_m: "(k, e) \<in> set m" using Cons.prems(3) kv by simp
  have del: "gm_del m k = filter (\<lambda>kv. kv \<noteq> (k, e)) m"
    using Cons.prems(2) in_m unfolding AList.delete_eq
    by (intro filter_cong) (auto simp: eq_key_imp_eq_value)
  define m1 where "m1 = filter (\<lambda>kv. \<not> (kv = (k, e) \<and> P e)) m"
  define ms1 where "ms1 = ms @ (if P e then [f e] else [])"
  have st: "requeue_entry P f (m, ms) kv = (m1, ms1)"
    by (simp add: requeue_entry_def kv del m1_def ms1_def)
  have nk: "(k, e) \<notin> set kvs" using Cons.prems(1) kv by (auto simp: rev_image_eqI)
  have "foldl (requeue_entry P f) (m1, ms1) kvs
     = (filter (\<lambda>kv. \<not> (kv \<in> set kvs \<and> P (snd kv))) m1,
        ms1 @ map (\<lambda>kv. f (snd kv)) (filter (\<lambda>kv. P (snd kv)) kvs))"
    using Cons.prems nk
    by (intro Cons.IH) (auto simp: kv m1_def distinct_map_filter)
  moreover have "filter (\<lambda>kv. \<not> (kv \<in> set kvs \<and> P (snd kv))) m1
      = filter (\<lambda>kv'. \<not> (kv' \<in> set (kv # kvs) \<and> P (snd kv'))) m"
    unfolding m1_def filter_filter by (intro filter_cong) (auto simp: kv)
  ultimately show ?case by (simp add: st [unfolded kv] kv ms1_def)
qed

lemma requeue_range:
  assumes "range_order r" and "gm_wf m"
  shows "foldl (requeue_entry P f) (m, ms) (r m)
     = (filter (\<lambda>kv. \<not> P (snd kv)) m, ms @ map (\<lambda>kv. f (snd kv)) (filter (\<lambda>kv. P (snd kv)) (r m)))"
proof -
  have "distinct (map fst (r m))" using assms by (simp add: range_order_distinct)
  moreover have "set (r m) = set m" using assms(1) by (rule range_order_set)
  ultimately show ?thesis
    using assms(2) by (subst requeue_entries) (auto intro: filter_cong)
qed

lemma requeue_ids:
  assumes "range_order r" and "gm_all (\<lambda>k v. mID (f v) = k) m"
  shows "mset (map mID (ms @ map (\<lambda>kv. f (snd kv)) (filter (\<lambda>kv. P (snd kv)) (r m))))
      + mset (gm_keys (filter (\<lambda>kv. \<not> P (snd kv)) m)) = mset (map mID ms) + mset (gm_keys m)"
proof -
  let ?xs = "filter (\<lambda>kv. P (snd kv)) (r m)"
  have "map (\<lambda>kv. mID (f (snd kv))) ?xs = map fst ?xs"
    using assms(2) range_order_set [OF assms(1), of m] by (auto simp: gm_all_def)
  then have "mset (map (\<lambda>kv. mID (f (snd kv))) ?xs) = mset (map fst ?xs)" by (rule arg_cong)
  moreover have "mset ?xs = mset (filter (\<lambda>kv. P (snd kv)) m)"
    using range_orderD [OF assms(1), of m] by (simp add: mset_filter)
  then have "mset (map fst ?xs) = mset (map fst (filter (\<lambda>kv. P (snd kv)) m))"
    unfolding mset_map by (rule arg_cong)
  moreover have "mset (map fst m) = mset (map fst (filter (\<lambda>kv. P (snd kv)) m))
      + mset (map fst (filter (\<lambda>kv. \<not> P (snd kv)) m))"
    using mset_filter_split [of m "\<lambda>kv. P (snd kv)"] unfolding mset_map
    by (metis image_mset_union)
  moreover have "map mID (ms @ map (\<lambda>kv. f (snd kv)) ?xs) = map mID ms @ map (\<lambda>kv. mID (f (snd kv))) ?xs"
    by simp
  ultimately show ?thesis by (simp only: mset_append ac_simps)
qed

end
