(* ===== verification/Group.thy ===== *)
theory Group
  imports Delivery
begin

text \<open>
  Consumer groups, \<open>internal/broker/group.go\<close>. Every method holds the group's lock from
  beginning to end, so each is one atomic step from a group to a group; the instant \<open>now\<close> is
  the clock during that step. The delivery loop of \<open>tryDeliver\<close> is translated with Go's
  meaning of \<open>break\<close>: inside a \<open>select\<close> it leaves the \<open>select\<close>, not the loop around it.
\<close>

definition DefaultHeartbeatTimeout :: duration where
  "DefaultHeartbeatTimeout = 10 * second"

record groupMember =
  gmID :: string
  gmBuf :: "message list"
  gmVisTimeout :: duration
  gmLastHeartbeat :: time

record inFlightEntry =
  ieMsg :: message
  ieMemberID :: string

record ConsumerGroup =
  gName :: string
  gQueueName :: string
  gMembers :: "groupMember list"
  gNextIdx :: nat
  gMessages :: "message list"
  gInFlight :: "(string, inFlightEntry) gomap"
  gHeartbeatTimeout :: duration

type_synonym entry_order = "(string \<times> inFlightEntry) list \<Rightarrow> (string \<times> inFlightEntry) list"

definition NewConsumerGroup :: "string \<Rightarrow> string \<Rightarrow> ConsumerGroup" where
  "NewConsumerGroup name queueName =
     \<lparr>gName = name, gQueueName = queueName, gMembers = [], gNextIdx = 0, gMessages = [],
      gInFlight = [], gHeartbeatTimeout = DefaultHeartbeatTimeout\<rparr>"

section \<open>Delivery\<close>

fun gdeliver_members :: "nat \<Rightarrow> nat \<Rightarrow> time \<Rightarrow> message \<Rightarrow> bool \<Rightarrow> ConsumerGroup
    \<Rightarrow> (message \<times> bool \<times> ConsumerGroup) go" where
  \<comment> \<open>the inner loop, \<open>j\<close> counting up while the first argument counts down; the send comes
    first, then \<open>g.messages[1:]\<close>, which panics when no message is pending any more\<close>
  "gdeliver_members 0 j now msg delivered g = Some (msg, delivered, g)"
| "gdeliver_members (Suc k) j now msg delivered g =
     (let n = length (gMembers g);
          idx = (gNextIdx g + j) mod n;
          m = gMembers g ! idx
      in if chan_ready (gmBuf m) then
           (case gMessages g of
              [] \<Rightarrow> None
            | _ # rest \<Rightarrow>
                let msg' = msg\<lparr>mAttempt := mAttempt msg + 1, mVisibleAt := now + gmVisTimeout m\<rparr>
                in gdeliver_members k (j + 1) now msg' True
                    (g\<lparr>gMembers := (gMembers g)[idx := m\<lparr>gmBuf := gmBuf m @ [msg']\<rparr>],
                       gMessages := rest,
                       gInFlight := gm_set (gInFlight g) (mID msg)
                         \<lparr>ieMsg = msg', ieMemberID = gmID m\<rparr>,
                       gNextIdx := (idx + 1) mod n\<rparr>))
         else gdeliver_members k (j + 1) now msg delivered g)"

lemma gdeliver_members_shrinks:
  "gdeliver_members k j now msg d g = Some (msg', d', g') \<Longrightarrow>
     length (gMessages g') \<le> length (gMessages g)
     \<and> (d' \<and> \<not> d \<longrightarrow> length (gMessages g') < length (gMessages g))"
  by (induction k j now msg d g rule: gdeliver_members.induct)
    (fastforce simp: Let_def split: if_splits list.splits)+

function gdeliver_loop :: "time \<Rightarrow> ConsumerGroup \<Rightarrow> ConsumerGroup go" where
  "gdeliver_loop now g =
     (case gMessages g of
        [] \<Rightarrow> Some g
      | msg # _ \<Rightarrow>
          if mVisibleAt msg > now then Some g
          else (case gdeliver_members (length (gMembers g)) 0 now msg False g of
                  None \<Rightarrow> None
                | Some (_, delivered, g') \<Rightarrow>
                    if delivered then gdeliver_loop now g' else Some g'))"
  by pat_completeness auto
termination
  by (relation "measure (\<lambda>(now, g). length (gMessages g))")
    (auto dest: gdeliver_members_shrinks)

declare gdeliver_loop.simps [simp del]

definition gtryDeliver :: "time \<Rightarrow> ConsumerGroup \<Rightarrow> ConsumerGroup go" where
  "gtryDeliver now g =
     (if gMembers g = [] \<or> gMessages g = [] then Some g else gdeliver_loop now g)"

section \<open>Operations\<close>

definition AddMember :: "string \<Rightarrow> duration \<Rightarrow> time \<Rightarrow> ConsumerGroup \<Rightarrow> ConsumerGroup go" where
  "AddMember memberID visTimeout now g =
     gtryDeliver now (g\<lparr>gMembers := gMembers g @
       [\<lparr>gmID = memberID, gmBuf = [], gmVisTimeout = visTimeout, gmLastHeartbeat = now\<rparr>]\<rparr>)"

definition requeue_where ::
    "entry_order \<Rightarrow> (inFlightEntry \<Rightarrow> bool) \<Rightarrow> time \<Rightarrow> ConsumerGroup \<Rightarrow> ConsumerGroup" where
  \<comment> \<open>the three loops over \<open>g.inFlight\<close> differ in the condition only\<close>
  "requeue_where r P now g =
     (let (infl, msgs) = foldl (requeue_entry P (\<lambda>entry. (ieMsg entry)\<lparr>mVisibleAt := now\<rparr>))
            (gInFlight g, gMessages g) (r (gInFlight g))
      in g\<lparr>gInFlight := infl, gMessages := msgs\<rparr>)"

definition requeueForMemberLocked ::
    "entry_order \<Rightarrow> string \<Rightarrow> time \<Rightarrow> ConsumerGroup \<Rightarrow> ConsumerGroup" where
  "requeueForMemberLocked r memberID now g =
     requeue_where r (\<lambda>entry. ieMemberID entry = memberID) now g"

definition requeueForMember ::
    "entry_order \<Rightarrow> string \<Rightarrow> time \<Rightarrow> ConsumerGroup \<Rightarrow> ConsumerGroup go" where
  "requeueForMember r memberID now g =
     gtryDeliver now (requeue_where r (\<lambda>entry. ieMemberID entry = memberID) now g)"

definition clamp_nextIdx :: "ConsumerGroup \<Rightarrow> ConsumerGroup" where
  \<comment> \<open>after members left, in \<open>RemoveMember\<close> and in \<open>ReapDeadMembers\<close>\<close>
  "clamp_nextIdx g =
     (if gNextIdx g \<ge> length (gMembers g) \<and> length (gMembers g) > 0
      then g\<lparr>gNextIdx := 0\<rparr> else g)"

definition RemoveMember ::
    "entry_order \<Rightarrow> string \<Rightarrow> time \<Rightarrow> ConsumerGroup \<Rightarrow> (bool \<times> ConsumerGroup) go" where
  "RemoveMember r memberID now g =
     (case find_index (\<lambda>m. gmID m = memberID) (gMembers g) of
        None \<Rightarrow> Some (gMembers g = [], g)
      | Some i \<Rightarrow>
          do {
            g1 \<leftarrow> requeueForMember r memberID now
                    (clamp_nextIdx (g\<lparr>gMembers := remove_at i (gMembers g)\<rparr>));
            Some (gMembers g1 = [], g1)
          })"

definition gEnqueue :: "message \<Rightarrow> time \<Rightarrow> ConsumerGroup \<Rightarrow> ConsumerGroup go" where
  "gEnqueue msg now g =
     (let cloned = \<lparr>mID = mID msg, mQueue = mQueue msg, mPayload = mPayload msg,
            mHeaders = mHeaders msg, mAttempt = 0, mPublishedAt = mPublishedAt msg,
            mVisibleAt = zero_time, mOrderingKey = [], mSequence = 0\<rparr>
      in gtryDeliver now (g\<lparr>gMessages := gMessages g @ [cloned]\<rparr>))"

definition gAckWithHook :: "'s hook \<Rightarrow> string \<Rightarrow> time \<Rightarrow> ConsumerGroup \<Rightarrow> 's
    \<Rightarrow> ((bool \<times> error option) \<times> ConsumerGroup \<times> 's) go" where
  "gAckWithHook beforeAck messageID now g s =
     (case gm_get (gInFlight g) messageID of
        None \<Rightarrow> Some ((False, None), g, s)
      | Some entry \<Rightarrow>
          (case run_hook beforeAck (ieMsg entry) s of
             (s', Some e) \<Rightarrow> Some ((False, Some e), g, s')
           | (s', None) \<Rightarrow> do {
               g' \<leftarrow> gtryDeliver now (g\<lparr>gInFlight := gm_del (gInFlight g) messageID\<rparr>);
               Some ((True, None), g', s')
             }))"

definition gAck :: "string \<Rightarrow> time \<Rightarrow> ConsumerGroup \<Rightarrow> (bool \<times> ConsumerGroup) go" where
  "gAck messageID now g =
     do { ((ok, _), g', _) \<leftarrow> gAckWithHook None messageID now g (); Some (ok, g') }"

definition gNackWithHooks :: "'s hook \<Rightarrow> string \<Rightarrow> bool \<Rightarrow> u32 \<Rightarrow> FailurePolicy \<Rightarrow> time
    \<Rightarrow> ConsumerGroup \<Rightarrow> 's \<Rightarrow> ((NackResult \<times> error option) \<times> ConsumerGroup \<times> 's) go" where
  "gNackWithHooks beforeDrop messageID requeue maxRetries policy now g s =
     (case gm_get (gInFlight g) messageID of
        None \<Rightarrow> Some ((NackNotFound, None), g, s)
      | Some entry \<Rightarrow>
          (let msg = ieMsg entry;
               removed = g\<lparr>gInFlight := gm_del (gInFlight g) messageID\<rparr>;
               drop' = (case run_hook beforeDrop msg s of
                    (s', Some e) \<Rightarrow> Some ((NackDropped msg, Some e), g, s')
                  | (s', None) \<Rightarrow> Some ((NackDropped msg, None), removed, s'))
           in if \<not> requeue then
                (if policy = FailurePolicyDLQ then Some ((NackToDLQ msg, None), removed, s)
                 else drop')
              else if policy \<noteq> FailurePolicyInfinite \<and> mAttempt msg \<ge> maxRetries
                  \<and> policy = FailurePolicyDLQ then
                Some ((NackToDLQ msg, None), removed, s)
              else if policy \<noteq> FailurePolicyInfinite \<and> mAttempt msg \<ge> maxRetries
                  \<and> policy = FailurePolicyDrop then drop'
              else do {
                let msg' = msg\<lparr>mVisibleAt := now\<rparr>;
                g' \<leftarrow> gtryDeliver now (removed\<lparr>gMessages := gMessages g @ [msg']\<rparr>);
                Some ((NackRequeued msg', None), g', s)
              }))"

definition gNack :: "string \<Rightarrow> bool \<Rightarrow> u32 \<Rightarrow> FailurePolicy \<Rightarrow> time \<Rightarrow> ConsumerGroup
    \<Rightarrow> (NackResult \<times> ConsumerGroup) go" where
  "gNack messageID requeue maxRetries policy now g =
     do { ((res, _), g', _) \<leftarrow> gNackWithHooks None messageID requeue maxRetries policy now g ();
          Some (res, g') }"

definition Heartbeat :: "string \<Rightarrow> time \<Rightarrow> ConsumerGroup \<Rightarrow> bool \<times> ConsumerGroup" where
  "Heartbeat memberID now g =
     (case find_index (\<lambda>m. gmID m = memberID) (gMembers g) of
        None \<Rightarrow> (False, g)
      | Some i \<Rightarrow>
          (True, g\<lparr>gMembers := (gMembers g)[i := (gMembers g ! i)\<lparr>gmLastHeartbeat := now\<rparr>]\<rparr>))"

fun reap_loop :: "entry_order \<Rightarrow> time \<Rightarrow> groupMember list \<Rightarrow> groupMember list \<Rightarrow> string list
    \<Rightarrow> ConsumerGroup \<Rightarrow> groupMember list \<times> string list \<times> ConsumerGroup" where
  \<comment> \<open>the loop of \<open>ReapDeadMembers\<close>: the members to visit, the ones alive, the dead ones\<close>
  "reap_loop r now [] alive dead g = (alive, dead, g)"
| "reap_loop r now (m # ms) alive dead g =
     (if now - gmLastHeartbeat m > gHeartbeatTimeout g
      then reap_loop r now ms alive (dead @ [gmID m]) (requeueForMemberLocked r (gmID m) now g)
      else reap_loop r now ms (alive @ [m]) dead g)"

definition ReapDeadMembers ::
    "entry_order \<Rightarrow> time \<Rightarrow> ConsumerGroup \<Rightarrow> (string list \<times> ConsumerGroup) go" where
  "ReapDeadMembers r now g =
     (let (alive, dead, g1) = reap_loop r now (gMembers g) [] [] g
      in do { g2 \<leftarrow> gtryDeliver now (clamp_nextIdx (g1\<lparr>gMembers := alive\<rparr>)); Some (dead, g2) })"

definition gRequeueExpired :: "entry_order \<Rightarrow> time \<Rightarrow> ConsumerGroup \<Rightarrow> ConsumerGroup go" where
  "gRequeueExpired r now g =
     gtryDeliver now (requeue_where r (\<lambda>entry. mVisibleAt (ieMsg entry) < now) now g)"

definition gLen :: "ConsumerGroup \<Rightarrow> nat" where
  "gLen g = length (gMessages g)"

definition gInFlightLen :: "ConsumerGroup \<Rightarrow> nat" where
  "gInFlightLen g = length (gInFlight g)"

definition MemberCount :: "ConsumerGroup \<Rightarrow> nat" where
  "MemberCount g = length (gMembers g)"

definition IsEmpty :: "ConsumerGroup \<Rightarrow> bool" where
  "IsEmpty g \<longleftrightarrow> length (gMembers g) = 0"

section \<open>Groups of at most two members\<close>

text \<open>
  With at most two members a turn of the delivery loop hands the head message to exactly one
  of them: after a send to the member at \<open>idx\<close>, the inner loop goes on with the member
  at \<open>idx + 2\<close>, which is the same one and is now full.
\<close>

definition group_wf :: "ConsumerGroup \<Rightarrow> bool" where
  "group_wf g \<longleftrightarrow> gm_wf (gInFlight g)
     \<and> gm_all (\<lambda>k e. mID (ieMsg e) = k) (gInFlight g)
     \<and> (\<forall>m \<in> set (gMembers g). length (gmBuf m) \<le> chanCap)"

definition small_group :: "ConsumerGroup \<Rightarrow> bool" where
  "small_group g \<longleftrightarrow> group_wf g \<and> length (gMembers g) \<le> 2"

definition ginfl :: "ConsumerGroup \<Rightarrow> string list" where
  "ginfl g = gm_keys (gInFlight g)"

definition gdelivered :: "time \<Rightarrow> message \<Rightarrow> groupMember \<Rightarrow> message" where
  "gdelivered now msg m = msg\<lparr>mAttempt := mAttempt msg + 1, mVisibleAt := now + gmVisTimeout m\<rparr>"

definition gdeliver_to :: "time \<Rightarrow> message \<Rightarrow> nat \<Rightarrow> ConsumerGroup \<Rightarrow> ConsumerGroup" where
  \<comment> \<open>the group after the head message went to the member at index \<open>idx\<close>\<close>
  "gdeliver_to now msg idx g =
     (let m = gMembers g ! idx; msg' = gdelivered now msg m
      in g\<lparr>gMembers := (gMembers g)[idx := m\<lparr>gmBuf := gmBuf m @ [msg']\<rparr>],
           gMessages := tl (gMessages g),
           gInFlight := gm_set (gInFlight g) (mID msg) \<lparr>ieMsg = msg', ieMemberID = gmID m\<rparr>,
           gNextIdx := (idx + 1) mod length (gMembers g)\<rparr>)"

definition gturn :: "time \<Rightarrow> ConsumerGroup \<Rightarrow> ConsumerGroup option" where
  "gturn now g =
     (case gMessages g of
        [] \<Rightarrow> None
      | msg # _ \<Rightarrow>
          if mVisibleAt msg > now then None
          else (case gdeliver_members (length (gMembers g)) 0 now msg False g of
                  Some (_, True, g') \<Rightarrow> Some g'
                | _ \<Rightarrow> None))"

lemma gdeliver_two:
  assumes "length (gMembers g) = 2" and "gMessages g = msg # rest"
  shows "(\<exists>idx < 2. gmBuf (gMembers g ! idx) = [] \<and>
        gdeliver_members 2 0 now msg False g
        = Some (gdelivered now msg (gMembers g ! idx), True, gdeliver_to now msg idx g))
    \<or> (\<forall>m \<in> set (gMembers g). gmBuf m \<noteq> []) \<and>
        gdeliver_members 2 0 now msg False g = Some (msg, False, g)"
proof -
  define i where "i = gNextIdx g mod 2"
  have i2: "i < 2" by (simp add: i_def)
  have next_i: "(gNextIdx g + 1) mod 2 = 1 - i" "(Suc (gNextIdx g)) mod 2 = 1 - i"
    unfolding i_def by presburger+
  have wrap: "Suc (Suc i mod 2) mod 2 = i" using i2 by (cases i) auto
  show ?thesis
  proof (cases "gmBuf (gMembers g ! i) = []")
    case True
    then have "gdeliver_members 2 0 now msg False g
        = Some (gdelivered now msg (gMembers g ! i), True, gdeliver_to now msg i g)"
      using assms i2 wrap
      by (simp add: numeral_2_eq_2 Let_def i_def [unfolded numeral_2_eq_2, symmetric]
        gdelivered_def gdeliver_to_def)
    with True i2 show ?thesis by blast
  next
    case busy: False
    show ?thesis
    proof (cases "gmBuf (gMembers g ! (1 - i)) = []")
      case True
      then have "gdeliver_members 2 0 now msg False g
          = Some (gdelivered now msg (gMembers g ! (1 - i)), True, gdeliver_to now msg (1 - i) g)"
        using assms busy next_i
        by (simp add: numeral_2_eq_2 Let_def i_def [unfolded numeral_2_eq_2, symmetric]
          gdelivered_def gdeliver_to_def)
      moreover have "1 - i < 2" by simp
      ultimately show ?thesis using True by blast
    next
      case False
      have "\<forall>m \<in> set (gMembers g). gmBuf m \<noteq> []"
      proof
        fix m
        assume "m \<in> set (gMembers g)"
        then obtain k where "k < 2" "m = gMembers g ! k" using assms by (auto simp: in_set_conv_nth)
        moreover have "k = i \<or> k = 1 - i" using i2 \<open>k < 2\<close> by auto
        ultimately show "gmBuf m \<noteq> []" using busy False by auto
      qed
      moreover have "gdeliver_members 2 0 now msg False g = Some (msg, False, g)"
        using assms busy False next_i
        by (simp add: numeral_2_eq_2 Let_def i_def [unfolded numeral_2_eq_2, symmetric])
      ultimately show ?thesis by blast
    qed
  qed
qed

lemma gdeliver_small:
  assumes "length (gMembers g) \<le> 2" and "gMessages g = msg # rest"
  shows "(\<exists>idx < length (gMembers g). gmBuf (gMembers g ! idx) = [] \<and>
        gdeliver_members (length (gMembers g)) 0 now msg False g
        = Some (gdelivered now msg (gMembers g ! idx), True, gdeliver_to now msg idx g))
    \<or> (\<forall>m \<in> set (gMembers g). gmBuf m \<noteq> []) \<and>
        gdeliver_members (length (gMembers g)) 0 now msg False g = Some (msg, False, g)"
proof -
  from assms(1) consider "gMembers g = []" | m where "gMembers g = [m]" | "length (gMembers g) = 2"
    by (cases "gMembers g" rule: list.exhaust; cases "tl (gMembers g)") auto
  then show ?thesis
  proof cases
    case 1
    then show ?thesis by simp
  next
    case (2 m)
    with assms show ?thesis
      by (cases "gmBuf m = []") (simp_all add: Let_def gdelivered_def gdeliver_to_def)
  next
    case 3
    from gdeliver_two [OF this assms(2), of now] show ?thesis unfolding 3 .
  qed
qed

lemma gdeliver_to_simps [simp]:
  "gMessages (gdeliver_to now msg idx g) = tl (gMessages g)"
  "length (gMembers (gdeliver_to now msg idx g)) = length (gMembers g)"
  "gInFlight (gdeliver_to now msg idx g) = gm_set (gInFlight g) (mID msg)
     \<lparr>ieMsg = gdelivered now msg (gMembers g ! idx), ieMemberID = gmID (gMembers g ! idx)\<rparr>"
  by (simp_all add: gdeliver_to_def Let_def)

lemma group_wf_deliver_to:
  assumes "group_wf g" and "idx < length (gMembers g)" and "gmBuf (gMembers g ! idx) = []"
  shows "group_wf (gdeliver_to now msg idx g)"
proof -
  have "gm_all (\<lambda>k e. mID (ieMsg e) = k) (gInFlight (gdeliver_to now msg idx g))"
    using assms(1) by (simp add: group_wf_def gm_all_set gdelivered_def)
  moreover have "length (gmBuf m) \<le> chanCap" if "m \<in> set (gMembers (gdeliver_to now msg idx g))" for m
    using that assms
    by (auto simp: group_wf_def gdeliver_to_def Let_def chanCap_def
      dest!: set_update_subset_insert [THEN subsetD])
  ultimately show ?thesis using assms(1) by (simp add: group_wf_def)
qed

lemma gturn_cases:
  assumes "small_group g" and "gturn now g = Some g'"
  obtains msg idx where "gMessages g = msg # tl (gMessages g)" "mVisibleAt msg \<le> now"
    "idx < length (gMembers g)" "gmBuf (gMembers g ! idx) = []" "g' = gdeliver_to now msg idx g"
proof -
  from assms(2) obtain msg rest where m: "gMessages g = msg # rest" "mVisibleAt msg \<le> now"
    by (auto simp: gturn_def split: list.splits if_splits)
  from assms m show ?thesis
    using gdeliver_small [of g msg rest now] that [of msg]
    by (auto simp: gturn_def small_group_def split: if_splits)
qed

lemma small_group_turn:
  assumes "small_group g" and "gturn now g = Some g'"
  shows "small_group g'"
  by (rule gturn_cases [OF assms])
    (use assms(1) in \<open>simp add: small_group_def group_wf_deliver_to\<close>)

interpretation gd: delivery small_group gMessages ginfl gturn "\<lambda>_ g. g" gdeliver_loop
proof (unfold_locales, goal_cases)
  case (1 g now g')
  from 1 obtain msg idx where "gMessages g = msg # tl (gMessages g)" "mVisibleAt msg \<le> now"
      "g' = gdeliver_to now msg idx g"
    by (rule gturn_cases)
  then show ?case
    by (intro exI [of _ msg]) (simp add: ginfl_def mset_keys_gm_set set_keys_gm_set)
next
  case (2 g now g')
  then show ?case by (rule small_group_turn)
next
  case (3 g now)
  then show ?case
    using gdeliver_small [of g _ _ now]
    by (subst gdeliver_loop.simps)
      (fastforce simp: gturn_def small_group_def split: list.splits)
qed simp_all


section \<open>What the operations do to a small group\<close>

abbreviation gtracked :: "ConsumerGroup \<Rightarrow> string list" where
  "gtracked \<equiv> tracked gMessages ginfl"

lemma gtryDeliver_small:
  assumes "small_group g"
  obtains g' where "gtryDeliver now g = Some g'" "small_group g'"
    "set (gtracked g') = set (gtracked g)"
    "distinct (gtracked g) \<Longrightarrow> mset (gtracked g') = mset (gtracked g)"
proof (cases "gMembers g = [] \<or> gMessages g = []")
  case True
  then show ?thesis using that [of g] assms by (auto simp: gtryDeliver_def)
next
  case False
  obtain g' where g': "gdeliver_loop now g = Some g'" using gd.run_total [OF assms] by blast
  show ?thesis
    using False g' gd.run_inv [OF assms g'] gd.run_tracked_set [OF assms g']
      gd.run_tracked_mset [OF assms g']
    by (intro that [of g']) (simp_all add: gtryDeliver_def)
qed

lemma requeue_where_eq:
  assumes "range_order r" and "group_wf g"
  shows "requeue_where r P now g = g\<lparr>
      gInFlight := filter (\<lambda>kv. \<not> P (snd kv)) (gInFlight g),
      gMessages := gMessages g @ map (\<lambda>kv. (ieMsg (snd kv))\<lparr>mVisibleAt := now\<rparr>)
        (filter (\<lambda>kv. P (snd kv)) (r (gInFlight g)))\<rparr>"
  using requeue_range [of r "gInFlight g" P _ "gMessages g"] assms
  by (simp add: requeue_where_def group_wf_def)

end
