(* ===== verification/Queues.thy ===== *)
theory Queues
  imports Group
begin

unbundle bit_operations_syntax

text \<open>
  Queue mode, \<open>internal/broker/queue.go\<close>. A \<open>Queue\<close> is the record of the struct's fields.
  Its methods run under the queue's lock, so each is one atomic step; \<open>now\<close> is the clock
  during the step. A consumer's channel is identified by a number (\<open>cCh\<close>), its buffer is the
  list of messages sent and not yet received. \<open>keyAssignments\<close> maps an ordering key to the
  channel number of the consumer it points to.

  The queue hands out copies (\<open>cloneMessage\<close>) and keeps the original in its in-flight map, so
  messages are values here.
\<close>

definition DefaultMaxQueueSize :: int where "DefaultMaxQueueSize = 10000"

record Consumer =
  cCh :: nat
  cBuf :: "message list"
  cVisibilityTimeout :: duration

record Queue =
  qName :: string
  qMessages :: "message list"
  qInFlight :: "(string, message) gomap"
  qConsumers :: "Consumer list"
  qNextIdx :: nat
  qMaxSize :: int
  qFailurePolicy :: FailurePolicy
  qMaxRetries :: u32
  qKeyAssignments :: "(string, nat) gomap"
  qGroups :: "(string, ConsumerGroup) gomap"

text \<open>The orders in which one step ranges over the maps of a queue and of its groups.\<close>

record range_orders =
  roInFlight :: "(string \<times> message) list \<Rightarrow> (string \<times> message) list"
  roGroups :: "(string \<times> ConsumerGroup) list \<Rightarrow> (string \<times> ConsumerGroup) list"
  roEntries :: entry_order

definition orders_ok :: "range_orders \<Rightarrow> bool" where
  "orders_ok ro \<longleftrightarrow>
     range_order (roInFlight ro) \<and> range_order (roGroups ro) \<and> range_order (roEntries ro)"

definition NewQueue :: "string \<Rightarrow> Queue" where
  "NewQueue name =
     \<lparr>qName = name, qMessages = [], qInFlight = [], qConsumers = [], qNextIdx = 0,
      qMaxSize = DefaultMaxQueueSize, qFailurePolicy = FailurePolicyDLQ,
      qMaxRetries = DefaultMaxRetries, qKeyAssignments = [], qGroups = []\<rparr>"

definition SetMaxSize :: "int \<Rightarrow> Queue \<Rightarrow> Queue" where
  "SetMaxSize max' q = q\<lparr>qMaxSize := max'\<rparr>"

definition SetFailurePolicy :: "FailurePolicy \<Rightarrow> Queue \<Rightarrow> Queue" where
  "SetFailurePolicy policy q = q\<lparr>qFailurePolicy := policy\<rparr>"

definition SetMaxRetries :: "u32 \<Rightarrow> Queue \<Rightarrow> Queue" where
  "SetMaxRetries max' q = q\<lparr>qMaxRetries := max'\<rparr>"

section \<open>Delivery\<close>

definition cloneMessage :: "message \<Rightarrow> message" where
  "cloneMessage msg = msg\<lparr>mAttempt := mAttempt msg + 1\<rparr>"

definition fnv32a :: "bytes \<Rightarrow> u32" where
  \<comment> \<open>\<open>hash/fnv\<close>, \<open>New32a\<close>, \<open>Write\<close> and \<open>Sum32\<close>\<close>
  "fnv32a bs = foldl (\<lambda>h b. (h XOR ucast b) * 16777619) 2166136261 bs"

definition send_to :: "nat \<Rightarrow> message \<Rightarrow> Queue \<Rightarrow> Queue" where
  \<comment> \<open>\<open>c.Ch <- cloneMessage(msg)\<close> for the consumer at an index\<close>
  "send_to idx msg q =
     (let c = qConsumers q ! idx
      in q\<lparr>qConsumers := (qConsumers q)[idx := c\<lparr>cBuf := cBuf c @ [cloneMessage msg]\<rparr>]\<rparr>)"

fun rr_loop :: "nat \<Rightarrow> nat \<Rightarrow> message \<Rightarrow> time \<Rightarrow> Queue \<Rightarrow> message \<times> bool \<times> Queue" where
  \<comment> \<open>the loop of \<open>deliverRoundRobin\<close>, \<open>j\<close> counting up while the first argument counts down\<close>
  "rr_loop 0 j msg now q = (msg, False, q)"
| "rr_loop (Suc k) j msg now q =
     (let n = length (qConsumers q);
          idx = (qNextIdx q + j) mod n;
          c = qConsumers q ! idx
      in if chan_ready (cBuf c)
         then (msg\<lparr>mVisibleAt := now + cVisibilityTimeout c\<rparr>, True,
               (send_to idx msg q)\<lparr>qNextIdx := (idx + 1) mod n\<rparr>)
         else rr_loop k (j + 1) msg now q)"

definition deliverRoundRobin :: "message \<Rightarrow> time \<Rightarrow> Queue \<Rightarrow> message \<times> bool \<times> Queue" where
  "deliverRoundRobin msg now q = rr_loop (length (qConsumers q)) 0 msg now q"

definition deliverOrdered :: "message \<Rightarrow> time \<Rightarrow> Queue \<Rightarrow> (message \<times> bool \<times> Queue) go" where
  \<comment> \<open>a panic when there is no consumer (modulo zero), or when the assigned consumer has left
    (its channel is closed)\<close>
  "deliverOrdered msg now q =
     (let key = mOrderingKey msg;
          n = length (qConsumers q)
      in do {
        (idx, q1) \<leftarrow>
          (case gm_get (qKeyAssignments q) key of
             Some ch \<Rightarrow> map_option (\<lambda>i. (i, q)) (find_index (\<lambda>c. cCh c = ch) (qConsumers q))
           | None \<Rightarrow>
               if n = 0 then None
               else (let i = nat (uint (fnv32a (bytes_of key)) mod int n)
                     in Some (i, q\<lparr>qKeyAssignments :=
                          gm_set (qKeyAssignments q) key (cCh (qConsumers q ! i))\<rparr>)));
        let c = qConsumers q1 ! idx;
        if chan_ready (cBuf c)
        then Some (msg\<lparr>mVisibleAt := now + cVisibilityTimeout c\<rparr>, True, send_to idx msg q1)
        else Some (msg, False, q1)
      })"

definition deliver_head :: "message \<Rightarrow> time \<Rightarrow> Queue \<Rightarrow> (message \<times> bool \<times> Queue) go" where
  "deliver_head msg now q =
     (if mOrderingKey msg \<noteq> [] then deliverOrdered msg now q
      else Some (deliverRoundRobin msg now q))"

function tryDeliver_loop :: "time \<Rightarrow> Queue \<Rightarrow> Queue go" where
  "tryDeliver_loop now q =
     (case qMessages q of
        [] \<Rightarrow> Some q
      | msg # rest \<Rightarrow>
          if mVisibleAt msg > now then Some q
          else (case deliver_head msg now q of
                  None \<Rightarrow> None
                | Some (msg', delivered, q1) \<Rightarrow>
                    if \<not> delivered then Some q1
                    else tryDeliver_loop now
                      (q1\<lparr>qMessages := rest,
                          qInFlight := gm_set (qInFlight q1) (mID msg')
                            (msg'\<lparr>mAttempt := mAttempt msg' + 1\<rparr>)\<rparr>)))"
  by pat_completeness auto
termination
  by (relation "measure (\<lambda>(now, q). length (qMessages q))") auto

declare tryDeliver_loop.simps [simp del]

definition tryDeliver :: "time \<Rightarrow> Queue \<Rightarrow> Queue go" where
  "tryDeliver now q =
     (if qConsumers q = [] \<or> qMessages q = [] then Some q else tryDeliver_loop now q)"

section \<open>Operations\<close>

fun fan_out :: "message \<Rightarrow> time \<Rightarrow> (string \<times> ConsumerGroup) list
    \<Rightarrow> (string, ConsumerGroup) gomap \<Rightarrow> (string, ConsumerGroup) gomap go" where
  \<comment> \<open>\<open>for _, g := range q.groups { g.Enqueue(msg) }\<close>\<close>
  "fan_out msg now [] gs = Some gs"
| "fan_out msg now ((name, g) # rest) gs =
     do { g' \<leftarrow> gEnqueue msg now g; fan_out msg now rest (gm_set gs name g') }"

definition Enqueue :: "range_orders \<Rightarrow> message \<Rightarrow> time \<Rightarrow> Queue \<Rightarrow> (error option \<times> Queue) go" where
  "Enqueue ro msg now q =
     (if qMaxSize q > 0 \<and> int (length (qMessages q)) \<ge> qMaxSize q
      then Some (Some ErrQueueFull, q)
      else do {
        q1 \<leftarrow> tryDeliver now (q\<lparr>qMessages := qMessages q @ [msg]\<rparr>);
        gs \<leftarrow> fan_out msg now (roGroups ro (qGroups q1)) (qGroups q1);
        Some (None, q1\<lparr>qGroups := gs\<rparr>)
      })"

definition EnqueueDirect :: "range_orders \<Rightarrow> message \<Rightarrow> time \<Rightarrow> Queue \<Rightarrow> Queue go" where
  "EnqueueDirect ro msg now q = do {
     q1 \<leftarrow> tryDeliver now (q\<lparr>qMessages := qMessages q @ [msg]\<rparr>);
     gs \<leftarrow> fan_out msg now (roGroups ro (qGroups q1)) (qGroups q1);
     Some (q1\<lparr>qGroups := gs\<rparr>)
   }"

definition Dequeue :: "nat \<Rightarrow> duration \<Rightarrow> time \<Rightarrow> Queue \<Rightarrow> Queue go" where
  \<comment> \<open>\<open>ch\<close> is the channel that \<open>make\<close> returned\<close>
  "Dequeue ch visibilityTimeout now q =
     tryDeliver now (q\<lparr>qConsumers := qConsumers q @
       [\<lparr>cCh = ch, cBuf = [], cVisibilityTimeout = visibilityTimeout\<rparr>]\<rparr>)"

definition RemoveConsumer :: "nat \<Rightarrow> Queue \<Rightarrow> Queue" where
  "RemoveConsumer ch q =
     (case find_index (\<lambda>c. cCh c = ch) (qConsumers q) of
        None \<Rightarrow> q
      | Some i \<Rightarrow>
          q\<lparr>qKeyAssignments := filter (\<lambda>ka. snd ka \<noteq> ch) (qKeyAssignments q),
            qConsumers := remove_at i (qConsumers q)\<rparr>)"

definition receive :: "nat \<Rightarrow> Queue \<Rightarrow> message option \<times> Queue" where
  \<comment> \<open>a receive by the goroutine that owns a consumer's channel\<close>
  "receive ch q =
     (case find_index (\<lambda>c. cCh c = ch) (qConsumers q) of
        None \<Rightarrow> (None, q)
      | Some i \<Rightarrow>
          (case cBuf (qConsumers q ! i) of
             [] \<Rightarrow> (None, q)
           | m # ms \<Rightarrow>
               (Some m, q\<lparr>qConsumers := (qConsumers q)[i := (qConsumers q ! i)\<lparr>cBuf := ms\<rparr>]\<rparr>)))"

definition ackWithHook :: "'s hook \<Rightarrow> string \<Rightarrow> time \<Rightarrow> Queue \<Rightarrow> 's
    \<Rightarrow> ((bool \<times> error option) \<times> Queue \<times> 's) go" where
  "ackWithHook beforeAck messageID now q s =
     (case gm_get (qInFlight q) messageID of
        None \<Rightarrow> Some ((False, None), q, s)
      | Some msg \<Rightarrow>
          (case run_hook beforeAck msg s of
             (s', Some e) \<Rightarrow> Some ((False, Some e), q, s')
           | (s', None) \<Rightarrow> do {
               q' \<leftarrow> tryDeliver now (q\<lparr>qInFlight := gm_del (qInFlight q) messageID\<rparr>);
               Some ((True, None), q', s')
             }))"

definition Ack :: "string \<Rightarrow> time \<Rightarrow> Queue \<Rightarrow> (bool \<times> Queue) go" where
  "Ack messageID now q =
     do { ((ok, _), q', _) \<leftarrow> ackWithHook None messageID now q (); Some (ok, q') }"

definition nackWithHooks :: "'s hook \<Rightarrow> 's hook \<Rightarrow> string \<Rightarrow> bool \<Rightarrow> time \<Rightarrow> Queue \<Rightarrow> 's
    \<Rightarrow> ((NackResult \<times> error option) \<times> Queue \<times> 's) go" where
  "nackWithHooks beforeDrop beforeRequeue messageID requeue now q s =
     (case gm_get (qInFlight q) messageID of
        None \<Rightarrow> Some ((NackNotFound, None), q, s)
      | Some msg \<Rightarrow>
          (let policy = qFailurePolicy q;
               removed = q\<lparr>qInFlight := gm_del (qInFlight q) messageID\<rparr>;
               drop' = (case run_hook beforeDrop msg s of
                    (s', Some e) \<Rightarrow> Some ((NackDropped msg, Some e), q, s')
                  | (s', None) \<Rightarrow> Some ((NackDropped msg, None), removed, s'))
           in if \<not> requeue then
                (if policy = FailurePolicyDLQ then Some ((NackToDLQ msg, None), removed, s)
                 else drop')
              else if policy \<noteq> FailurePolicyInfinite \<and> mAttempt msg \<ge> qMaxRetries q
                  \<and> policy = FailurePolicyDLQ then
                Some ((NackToDLQ msg, None), removed, s)
              else if policy \<noteq> FailurePolicyInfinite \<and> mAttempt msg \<ge> qMaxRetries q
                  \<and> policy = FailurePolicyDrop then drop'
              else (let msg' = msg\<lparr>mVisibleAt := now\<rparr> in
                case run_hook beforeRequeue msg' s of
                  (s', Some e) \<Rightarrow> Some ((NackRequeued msg, Some e), q, s')
                | (s', None) \<Rightarrow> do {
                    q' \<leftarrow> tryDeliver now (removed\<lparr>qMessages := qMessages q @ [msg']\<rparr>);
                    Some ((NackRequeued msg', None), q', s')
                  })))"

definition Nack :: "string \<Rightarrow> bool \<Rightarrow> time \<Rightarrow> Queue \<Rightarrow> (NackResult \<times> Queue) go" where
  "Nack messageID requeue now q =
     do { ((res, _), q', _) \<leftarrow> nackWithHooks None None messageID requeue now q (); Some (res, q') }"

definition Len :: "Queue \<Rightarrow> nat" where
  "Len q = length (qMessages q)"

definition InFlightLen :: "Queue \<Rightarrow> nat" where
  "InFlightLen q = length (qInFlight q)"

fun groups_each :: "(ConsumerGroup \<Rightarrow> ConsumerGroup go) \<Rightarrow> (string \<times> ConsumerGroup) list
    \<Rightarrow> (string, ConsumerGroup) gomap \<Rightarrow> (string, ConsumerGroup) gomap go" where
  \<comment> \<open>a method called on every group of a slice collected by a \<open>range\<close>\<close>
  "groups_each f [] gs = Some gs"
| "groups_each f ((name, g) # rest) gs =
     do { g' \<leftarrow> f g; groups_each f rest (gm_set gs name g') }"

definition RequeueExpiredGroups :: "range_orders \<Rightarrow> time \<Rightarrow> Queue \<Rightarrow> Queue go" where
  "RequeueExpiredGroups ro now q = do {
     gs \<leftarrow> groups_each (gRequeueExpired (roEntries ro) now) (roGroups ro (qGroups q)) (qGroups q);
     Some (q\<lparr>qGroups := gs\<rparr>)
   }"

definition requeue_expired :: "range_orders \<Rightarrow> time \<Rightarrow> Queue \<Rightarrow> Queue" where
  \<comment> \<open>the loop over \<open>q.inFlight\<close>\<close>
  "requeue_expired ro now q =
     (let (infl, msgs) = foldl (requeue_entry (\<lambda>msg. mVisibleAt msg < now)
              (\<lambda>msg. msg\<lparr>mVisibleAt := now\<rparr>))
            (qInFlight q, qMessages q) (roInFlight ro (qInFlight q))
      in q\<lparr>qInFlight := infl, qMessages := msgs\<rparr>)"

definition RequeueExpired :: "range_orders \<Rightarrow> time \<Rightarrow> Queue \<Rightarrow> Queue go" where
  "RequeueExpired ro now q = do {
     q1 \<leftarrow> tryDeliver now (requeue_expired ro now q);
     gs \<leftarrow> groups_each (gRequeueExpired (roEntries ro) now) (roGroups ro (qGroups q1)) (qGroups q1);
     Some (q1\<lparr>qGroups := gs\<rparr>)
   }"

definition GetOrCreateGroup :: "string \<Rightarrow> Queue \<Rightarrow> ConsumerGroup \<times> Queue" where
  "GetOrCreateGroup groupName q =
     (case gm_get (qGroups q) groupName of
        Some g \<Rightarrow> (g, q)
      | None \<Rightarrow>
          (let g = NewConsumerGroup groupName (qName q)
           in (g, q\<lparr>qGroups := gm_set (qGroups q) groupName g\<rparr>)))"

definition GetGroup :: "string \<Rightarrow> Queue \<Rightarrow> ConsumerGroup option" where
  "GetGroup groupName q = gm_get (qGroups q) groupName"

definition RemoveGroup :: "string \<Rightarrow> Queue \<Rightarrow> Queue" where
  "RemoveGroup groupName q = q\<lparr>qGroups := gm_del (qGroups q) groupName\<rparr>"

fun reap_groups :: "entry_order \<Rightarrow> time \<Rightarrow> (string \<times> ConsumerGroup) list \<Rightarrow> string list
    \<Rightarrow> (string, ConsumerGroup) gomap \<Rightarrow> (string list \<times> (string, ConsumerGroup) gomap) go" where
  "reap_groups r now [] dead gs = Some (dead, gs)"
| "reap_groups r now ((name, g) # rest) dead gs =
     do { (d, g') \<leftarrow> ReapDeadMembers r now g; reap_groups r now rest (dead @ d) (gm_set gs name g') }"

definition ReapDeadGroupMembers :: "range_orders \<Rightarrow> time \<Rightarrow> Queue \<Rightarrow> (string list \<times> Queue) go" where
  "ReapDeadGroupMembers ro now q = do {
     (dead, gs) \<leftarrow> reap_groups (roEntries ro) now (roGroups ro (qGroups q)) [] (qGroups q);
     Some (dead, q\<lparr>qGroups := gs\<rparr>)
   }"

definition ExtendVisibility :: "string \<Rightarrow> duration \<Rightarrow> time \<Rightarrow> Queue \<Rightarrow> time \<times> Queue" where
  "ExtendVisibility messageID extension now q =
     (case gm_get (qInFlight q) messageID of
        None \<Rightarrow> (zero_time, q)
      | Some msg \<Rightarrow>
          (now + extension,
           q\<lparr>qInFlight := gm_set (qInFlight q) messageID (msg\<lparr>mVisibleAt := now + extension\<rparr>)\<rparr>))"

definition ConsumerCount :: "Queue \<Rightarrow> nat" where
  "ConsumerCount q = length (qConsumers q)"

definition Peek :: "int \<Rightarrow> Queue \<Rightarrow> message list go" where
  \<comment> \<open>\<open>make\<close> panics on a negative length\<close>
  "Peek n q =
     (let n = (if n > int (length (qMessages q)) then int (length (qMessages q)) else n)
      in if n < 0 then None else Some (take (nat n) (qMessages q)))"

definition Remove :: "string \<Rightarrow> Queue \<Rightarrow> bool \<times> Queue" where
  "Remove messageID q =
     (case find_index (\<lambda>msg. mID msg = messageID) (qMessages q) of
        Some i \<Rightarrow> (True, q\<lparr>qMessages := remove_at i (qMessages q)\<rparr>)
      | None \<Rightarrow>
          (case gm_get (qInFlight q) messageID of
             Some _ \<Rightarrow> (True, q\<lparr>qInFlight := gm_del (qInFlight q) messageID\<rparr>)
           | None \<Rightarrow> (False, q)))"

definition Purge :: "Queue \<Rightarrow> nat \<times> Queue" where
  "Purge q = (length (qMessages q) + length (qInFlight q), q\<lparr>qMessages := [], qInFlight := []\<rparr>)"

end
