(* ===== verification/Queue_Delivery.thy ===== *)
theory Queue_Delivery
  imports Queues
begin

text \<open>
  The delivery loop of a queue: the well-formedness invariant \<open>queue_wf\<close>, what one turn of
  the loop does, the interpretation of the locale \<open>delivery\<close>, and the facts about
  round-robin and ordering-key routing that the properties rest on.
\<close>

section \<open>The invariant\<close>

definition queue_wf :: "Queue \<Rightarrow> bool" where
  "queue_wf q \<longleftrightarrow> gm_wf (qInFlight q) \<and> gm_all (\<lambda>k m. mID m = k) (qInFlight q)
     \<and> gm_wf (qKeyAssignments q)
     \<and> gm_all (\<lambda>_ ch. ch \<in> cCh ` set (qConsumers q)) (qKeyAssignments q)
     \<and> distinct (map cCh (qConsumers q))
     \<and> (\<forall>c \<in> set (qConsumers q). length (cBuf c) \<le> chanCap)"

definition qinfl :: "Queue \<Rightarrow> string list" where
  "qinfl q = gm_keys (qInFlight q)"

abbreviation qtracked :: "Queue \<Rightarrow> string list" where
  "qtracked \<equiv> tracked qMessages qinfl"

lemma queue_wf_NewQueue: "queue_wf (NewQueue name)"
  by (simp add: queue_wf_def NewQueue_def)

lemma queue_wf_messages [simp]: "queue_wf (q\<lparr>qMessages := ms\<rparr>) = queue_wf q"
  and queue_wf_groups [simp]: "queue_wf (q\<lparr>qGroups := gs\<rparr>) = queue_wf q"
  and queue_wf_nextIdx [simp]: "queue_wf (q\<lparr>qNextIdx := i\<rparr>) = queue_wf q"
  by (simp_all add: queue_wf_def)

lemma queue_wf_inflight_set:
  "queue_wf q \<Longrightarrow> mID m = k \<Longrightarrow> queue_wf (q\<lparr>qInFlight := gm_set (qInFlight q) k m\<rparr>)"
  by (simp add: queue_wf_def gm_all_set)

lemma queue_wf_inflight_del:
  "queue_wf q \<Longrightarrow> queue_wf (q\<lparr>qInFlight := gm_del (qInFlight q) k\<rparr>)"
  by (simp add: queue_wf_def gm_all_del)

lemma queue_wf_inflight_filter:
  "queue_wf q \<Longrightarrow> queue_wf (q\<lparr>qInFlight := filter P (qInFlight q)\<rparr>)"
  by (auto simp: queue_wf_def gm_all_def distinct_map_filter)

lemma queue_wf_inflight_empty: "queue_wf q \<Longrightarrow> queue_wf (q\<lparr>qInFlight := []\<rparr>)"
  by (simp add: queue_wf_def)

lemma queue_wf_assign:
  "queue_wf q \<Longrightarrow> ch \<in> cCh ` set (qConsumers q)
    \<Longrightarrow> queue_wf (q\<lparr>qKeyAssignments := gm_set (qKeyAssignments q) key ch\<rparr>)"
  by (simp add: queue_wf_def gm_all_set)

section \<open>Sending to a consumer\<close>

lemma send_to_simps [simp]:
  "qMessages (send_to idx msg q) = qMessages q" "qInFlight (send_to idx msg q) = qInFlight q"
  "qKeyAssignments (send_to idx msg q) = qKeyAssignments q"
  "qNextIdx (send_to idx msg q) = qNextIdx q" "qGroups (send_to idx msg q) = qGroups q"
  "length (qConsumers (send_to idx msg q)) = length (qConsumers q)"
  "qMaxSize (send_to idx msg q) = qMaxSize q" "qName (send_to idx msg q) = qName q"
  "qFailurePolicy (send_to idx msg q) = qFailurePolicy q"
  "qMaxRetries (send_to idx msg q) = qMaxRetries q"
  by (simp_all add: send_to_def Let_def)

lemma send_to_keys [simp]: "(send_to idx msg q)\<lparr>qKeyAssignments := qKeyAssignments q\<rparr> = send_to idx msg q"
  by (cases q) (simp add: send_to_def Let_def)

lemma map_cCh_send_to [simp]: "map cCh (qConsumers (send_to idx msg q)) = map cCh (qConsumers q)"
proof (cases "idx < length (qConsumers q)")
  case True
  then show ?thesis by (simp add: send_to_def Let_def map_update list_update_same_conv)
next
  case False
  then show ?thesis by (simp add: send_to_def Let_def list_update_beyond)
qed

lemma cCh_image_send_to [simp]:
  "cCh ` set (qConsumers (send_to idx msg q)) = cCh ` set (qConsumers q)"
  by (metis map_cCh_send_to set_map)

lemma queue_wf_send_to:
  assumes "queue_wf q" and "idx < length (qConsumers q)" and "cBuf (qConsumers q ! idx) = []"
  shows "queue_wf (send_to idx msg q)"
proof -
  have "length (cBuf c) \<le> chanCap" if "c \<in> set (qConsumers (send_to idx msg q))" for c
    using that assms
    by (auto simp: send_to_def Let_def queue_wf_def chanCap_def
      dest!: set_update_subset_insert [THEN subsetD])
  then show ?thesis using assms(1) by (simp add: queue_wf_def)
qed

section \<open>Round robin\<close>

lemma rr_loop_cases:
  defines "at q n i \<equiv> qConsumers q ! ((qNextIdx q + i) mod n)"
  assumes n: "n = length (qConsumers q)"
  shows "(\<exists>i < k. cBuf (at q n (j + i)) = [] \<and> (\<forall>i' < i. cBuf (at q n (j + i')) \<noteq> [])
        \<and> rr_loop k j msg now q
          = (msg\<lparr>mVisibleAt := now + cVisibilityTimeout (at q n (j + i))\<rparr>, True,
             (send_to ((qNextIdx q + (j + i)) mod n) msg q)
               \<lparr>qNextIdx := ((qNextIdx q + (j + i)) mod n + 1) mod n\<rparr>))
    \<or> (\<forall>i < k. cBuf (at q n (j + i)) \<noteq> []) \<and> rr_loop k j msg now q = (msg, False, q)"
proof (induction k arbitrary: j)
  case 0
  then show ?case by simp
next
  case (Suc k)
  show ?case
  proof (cases "cBuf (at q n j) = []")
    case True
    then show ?thesis
      by (intro disjI1 exI [of _ 0]) (simp add: at_def n Let_def)
  next
    case busy: False
    then have step: "rr_loop (Suc k) j msg now q = rr_loop k (j + 1) msg now q"
      by (simp add: at_def n Let_def)
    from Suc [of "j + 1"] show ?thesis
    proof (elim disjE exE conjE)
      fix i
      assume i: "i < k" "cBuf (at q n (j + 1 + i)) = []"
        "\<forall>i' < i. cBuf (at q n (j + 1 + i')) \<noteq> []"
        and eq: "rr_loop k (j + 1) msg now q
          = (msg\<lparr>mVisibleAt := now + cVisibilityTimeout (at q n (j + 1 + i))\<rparr>, True,
             (send_to ((qNextIdx q + (j + 1 + i)) mod n) msg q)
               \<lparr>qNextIdx := ((qNextIdx q + (j + 1 + i)) mod n + 1) mod n\<rparr>)"
      have "\<forall>i' < Suc i. cBuf (at q n (j + i')) \<noteq> []"
        using busy i(3) by (auto simp: less_Suc_eq_0_disj)
      then show ?thesis
        using i(1,2) eq step by (intro disjI1 exI [of _ "Suc i"]) simp
    next
      assume "\<forall>i < k. cBuf (at q n (j + 1 + i)) \<noteq> []" "rr_loop k (j + 1) msg now q = (msg, False, q)"
      then show ?thesis
        using busy step by (intro disjI2) (auto simp: less_Suc_eq_0_disj)
    qed
  qed
qed

lemma mod_covers:
  fixes n :: nat
  assumes "k < n"
  shows "\<exists>i < n. (s + i) mod n = k"
proof -
  have "(s + (k + (n - s mod n)) mod n) mod n = (s mod n + (k + (n - s mod n))) mod n"
    by (metis mod_add_eq mod_mod_trivial)
  also have "s mod n + (k + (n - s mod n)) = k + n"
    using assms mod_less_divisor [of n s] by linarith
  finally have "(s + (k + (n - s mod n)) mod n) mod n = k" using assms by simp
  then show ?thesis using assms by (intro exI [of _ "(k + (n - s mod n)) mod n"]) simp
qed

text \<open>Round robin hands the message to the first free consumer, counting cyclically from
  \<open>nextIdx\<close>, and gives up only when every consumer's channel is full.\<close>

lemma deliverRoundRobin_cases:
  fixes q :: Queue
  defines "n \<equiv> length (qConsumers q)"
  obtains (sent) i where "i < n" "cBuf (qConsumers q ! ((qNextIdx q + i) mod n)) = []"
      "\<forall>i' < i. cBuf (qConsumers q ! ((qNextIdx q + i') mod n)) \<noteq> []"
      "deliverRoundRobin msg now q
        = (msg\<lparr>mVisibleAt := now + cVisibilityTimeout (qConsumers q ! ((qNextIdx q + i) mod n))\<rparr>,
           True, (send_to ((qNextIdx q + i) mod n) msg q)
             \<lparr>qNextIdx := ((qNextIdx q + i) mod n + 1) mod n\<rparr>)"
  | (full) "\<forall>c \<in> set (qConsumers q). cBuf c \<noteq> []" "deliverRoundRobin msg now q = (msg, False, q)"
proof -
  from rr_loop_cases [of n q n 0 msg now]
  have "(\<exists>i < n. cBuf (qConsumers q ! ((qNextIdx q + i) mod n)) = []
      \<and> (\<forall>i' < i. cBuf (qConsumers q ! ((qNextIdx q + i') mod n)) \<noteq> [])
      \<and> deliverRoundRobin msg now q
        = (msg\<lparr>mVisibleAt := now + cVisibilityTimeout (qConsumers q ! ((qNextIdx q + i) mod n))\<rparr>,
           True, (send_to ((qNextIdx q + i) mod n) msg q)
             \<lparr>qNextIdx := ((qNextIdx q + i) mod n + 1) mod n\<rparr>))
    \<or> (\<forall>i < n. cBuf (qConsumers q ! ((qNextIdx q + i) mod n)) \<noteq> [])
      \<and> deliverRoundRobin msg now q = (msg, False, q)"
    by (simp add: n_def deliverRoundRobin_def)
  then show thesis
  proof (elim disjE exE conjE)
    fix i
    assume "i < n" "cBuf (qConsumers q ! ((qNextIdx q + i) mod n)) = []"
      "\<forall>i' < i. cBuf (qConsumers q ! ((qNextIdx q + i') mod n)) \<noteq> []"
      "deliverRoundRobin msg now q
        = (msg\<lparr>mVisibleAt := now + cVisibilityTimeout (qConsumers q ! ((qNextIdx q + i) mod n))\<rparr>,
           True, (send_to ((qNextIdx q + i) mod n) msg q)
             \<lparr>qNextIdx := ((qNextIdx q + i) mod n + 1) mod n\<rparr>)"
    then show thesis by (rule sent)
  next
    assume busy: "\<forall>i < n. cBuf (qConsumers q ! ((qNextIdx q + i) mod n)) \<noteq> []"
      and r: "deliverRoundRobin msg now q = (msg, False, q)"
    have "\<forall>c \<in> set (qConsumers q). cBuf c \<noteq> []"
      using busy mod_covers [of _ n "qNextIdx q"] by (auto simp: in_set_conv_nth n_def) metis
    then show thesis using r by (rule full)
  qed
qed

section \<open>Ordering keys\<close>

definition assign_key :: "string \<Rightarrow> Queue \<Rightarrow> nat \<times> Queue" where
  \<comment> \<open>the index of the consumer a key is bound to, and the queue that records the binding\<close>
  "assign_key key q =
     (case gm_get (qKeyAssignments q) key of
        Some ch \<Rightarrow> (the (find_index (\<lambda>c. cCh c = ch) (qConsumers q)), q)
      | None \<Rightarrow>
          (let i = nat (uint (fnv32a (bytes_of key)) mod int (length (qConsumers q)))
           in (i, q\<lparr>qKeyAssignments := gm_set (qKeyAssignments q) key (cCh (qConsumers q ! i))\<rparr>)))"

lemma assigned_index:
  assumes "queue_wf q" and "gm_get (qKeyAssignments q) key = Some ch"
  obtains i where "find_index (\<lambda>c. cCh c = ch) (qConsumers q) = Some i" "i < length (qConsumers q)"
    "cCh (qConsumers q ! i) = ch"
proof -
  have "ch \<in> cCh ` set (qConsumers q)"
    using assms gm_all_get [of _ "qKeyAssignments q" key ch] unfolding queue_wf_def by blast
  then obtain i where i: "find_index (\<lambda>c. cCh c = ch) (qConsumers q) = Some i"
    by (cases "find_index (\<lambda>c. cCh c = ch) (qConsumers q)") (auto simp: find_index_None)
  with find_index_Some [OF i] show thesis by (intro that) auto
qed

lemma assign_key:
  assumes "queue_wf q" and "qConsumers q \<noteq> []" and "assign_key key q = (idx, q1)"
  shows "idx < length (qConsumers q)"
    and "gm_get (qKeyAssignments q1) key = Some (cCh (qConsumers q ! idx))"
    and "q1 = q\<lparr>qKeyAssignments := qKeyAssignments q1\<rparr>"
    and "queue_wf q1"
    and "assign_key key q1 = (idx, q1)"
    and "gm_get (qKeyAssignments q) k = Some ch \<Longrightarrow> gm_get (qKeyAssignments q1) k = Some ch"
proof -
  have all: "idx < length (qConsumers q)
    \<and> gm_get (qKeyAssignments q1) key = Some (cCh (qConsumers q ! idx))
    \<and> q1 = q\<lparr>qKeyAssignments := qKeyAssignments q1\<rparr> \<and> queue_wf q1
    \<and> (\<forall>k ch. gm_get (qKeyAssignments q) k = Some ch \<longrightarrow> gm_get (qKeyAssignments q1) k = Some ch)"
  proof (cases "gm_get (qKeyAssignments q) key")
    case None
    with assms show ?thesis
      by (auto simp: assign_key_def Let_def intro!: queue_wf_assign)
  next
    case (Some ch)
    from assigned_index [OF assms(1) Some] obtain i where
      "find_index (\<lambda>c. cCh c = ch) (qConsumers q) = Some i" "i < length (qConsumers q)"
      "cCh (qConsumers q ! i) = ch" .
    with Some assms show ?thesis by (auto simp: assign_key_def)
  qed
  then show "idx < length (qConsumers q)"
    and 1: "gm_get (qKeyAssignments q1) key = Some (cCh (qConsumers q ! idx))"
    and 2: "q1 = q\<lparr>qKeyAssignments := qKeyAssignments q1\<rparr>" and 3: "queue_wf q1"
    and "gm_get (qKeyAssignments q) k = Some ch \<Longrightarrow> gm_get (qKeyAssignments q1) k = Some ch"
    by blast+
  have cs: "qConsumers q1 = qConsumers q" by (subst 2) simp
  from assigned_index [OF 3 1] obtain i where i:
    "find_index (\<lambda>c. cCh c = cCh (qConsumers q ! idx)) (qConsumers q1) = Some i"
    "i < length (qConsumers q1)" "cCh (qConsumers q1 ! i) = cCh (qConsumers q ! idx)" .
  have "i = idx"
    using i all assms(1) cs nth_eq_iff_index_eq [of "map cCh (qConsumers q)" i idx]
    by (simp add: queue_wf_def)
  with i(1) 1 show "assign_key key q1 = (idx, q1)" by (simp add: assign_key_def)
qed

lemma deliverOrdered_eq:
  assumes "queue_wf q" and "qConsumers q \<noteq> []"
  shows "deliverOrdered msg now q =
    (let (idx, q1) = assign_key (mOrderingKey msg) q; c = qConsumers q ! idx
     in if cBuf c = [] then Some (msg\<lparr>mVisibleAt := now + cVisibilityTimeout c\<rparr>, True, send_to idx msg q1)
        else Some (msg, False, q1))"
proof (cases "gm_get (qKeyAssignments q) (mOrderingKey msg)")
  case None
  with assms(2) show ?thesis by (simp add: deliverOrdered_def assign_key_def Let_def)
next
  case (Some ch)
  from assigned_index [OF assms(1) Some] obtain i where
    "find_index (\<lambda>c. cCh c = ch) (qConsumers q) = Some i" by blast
  with Some show ?thesis by (simp add: deliverOrdered_def assign_key_def Let_def)
qed

section \<open>One turn of the delivery loop\<close>

definition live_queue :: "Queue \<Rightarrow> bool" where
  "live_queue q \<longleftrightarrow> queue_wf q \<and> qConsumers q \<noteq> []"

definition to_inflight :: "message \<Rightarrow> Queue \<Rightarrow> Queue" where
  "to_inflight msg' q = q\<lparr>qMessages := tl (qMessages q),
     qInFlight := gm_set (qInFlight q) (mID msg') (msg'\<lparr>mAttempt := mAttempt msg' + 1\<rparr>)\<rparr>"

definition qturn :: "time \<Rightarrow> Queue \<Rightarrow> Queue option" where
  "qturn now q =
     (case qMessages q of
        [] \<Rightarrow> None
      | msg # _ \<Rightarrow>
          if mVisibleAt msg > now then None
          else (case deliver_head msg now q of
                  Some (msg', True, q1) \<Rightarrow> Some (to_inflight msg' q1)
                | _ \<Rightarrow> None))"

definition qsettle :: "time \<Rightarrow> Queue \<Rightarrow> Queue" where
  "qsettle now q =
     (case qMessages q of
        [] \<Rightarrow> q
      | msg # _ \<Rightarrow>
          if mVisibleAt msg > now then q
          else (case deliver_head msg now q of Some (_, _, q1) \<Rightarrow> q1 | None \<Rightarrow> q))"

text \<open>What \<open>deliver_head\<close> does to a live queue: it picks a consumer, and either the send
  succeeds, or the queue is unchanged up to the binding of the key.\<close>

definition keeps_keys :: "(string, nat) gomap \<Rightarrow> (string, nat) gomap \<Rightarrow> bool" where
  "keeps_keys ka ka' \<longleftrightarrow> (\<forall>k ch. gm_get ka k = Some ch \<longrightarrow> gm_get ka' k = Some ch)"

lemma keeps_keys_refl [simp]: "keeps_keys ka ka"
  by (simp add: keeps_keys_def)

lemma keeps_keys_trans: "keeps_keys a b \<Longrightarrow> keeps_keys b c \<Longrightarrow> keeps_keys a c"
  by (simp add: keeps_keys_def)

lemma deliver_head_live:
  assumes "live_queue q"
  obtains
    (sent) idx ka ni where "idx < length (qConsumers q)" "cBuf (qConsumers q ! idx) = []"
      "deliver_head msg now q
        = Some (msg\<lparr>mVisibleAt := now + cVisibilityTimeout (qConsumers q ! idx)\<rparr>, True,
            (send_to idx msg q)\<lparr>qKeyAssignments := ka, qNextIdx := ni\<rparr>)"
      "queue_wf ((send_to idx msg q)\<lparr>qKeyAssignments := ka, qNextIdx := ni\<rparr>)"
      "keeps_keys (qKeyAssignments q) ka"
      "mOrderingKey msg \<noteq> [] \<Longrightarrow> gm_get ka (mOrderingKey msg) = Some (cCh (qConsumers q ! idx))"
  | (stuck) ka where "deliver_head msg now q = Some (msg, False, q\<lparr>qKeyAssignments := ka\<rparr>)"
      "queue_wf (q\<lparr>qKeyAssignments := ka\<rparr>)" "keeps_keys (qKeyAssignments q) ka"
      "deliver_head msg now (q\<lparr>qKeyAssignments := ka\<rparr>) = Some (msg, False, q\<lparr>qKeyAssignments := ka\<rparr>)"
      "mOrderingKey msg = [] \<Longrightarrow> \<forall>c \<in> set (qConsumers q). cBuf c \<noteq> []"
      "mOrderingKey msg \<noteq> [] \<Longrightarrow> \<exists>c \<in> set (qConsumers q). cBuf c \<noteq> []
         \<and> gm_get ka (mOrderingKey msg) = Some (cCh c)"
proof (cases "mOrderingKey msg = []")
  case True
  then have dh: "deliver_head msg now q' = Some (deliverRoundRobin msg now q')" for q'
    by (simp add: deliver_head_def)
  have wf: "queue_wf q" and ne: "0 < length (qConsumers q)"
    using assms by (simp_all add: live_queue_def)
  show thesis
  proof (cases rule: deliverRoundRobin_cases [of q msg now, case_names sent' full'])
    case (sent' i)
    let ?i = "(qNextIdx q + i) mod length (qConsumers q)"
    have "?i < length (qConsumers q)" using ne by simp
    moreover have "queue_wf (send_to ?i msg q)"
      using wf sent'(2) calculation by (intro queue_wf_send_to)
    ultimately show thesis
      using sent' dh [of q] True
      by (intro sent [where idx = ?i and ka = "qKeyAssignments q" and ni = "(?i + 1) mod length (qConsumers q)"]) simp_all
  next
    case full'
    then show thesis
      using dh [of q] wf True by (intro stuck [of "qKeyAssignments q"]) simp_all
  qed
next
  case False
  have wf: "queue_wf q" and ne: "qConsumers q \<noteq> []" using assms by (simp_all add: live_queue_def)
  obtain idx q1 where k: "assign_key (mOrderingKey msg) q = (idx, q1)"
    by (cases "assign_key (mOrderingKey msg) q")
  note ak = assign_key [OF wf ne k]
  define ka where "ka = qKeyAssignments q1"
  have q1: "q1 = q\<lparr>qKeyAssignments := ka\<rparr>" using ak(3) by (simp add: ka_def)
  have kk: "keeps_keys (qKeyAssignments q) ka"
    using ak(6) by (simp add: keeps_keys_def ka_def)
  have dh: "deliver_head msg now q = deliverOrdered msg now q"
    "deliver_head msg now q1 = deliverOrdered msg now q1"
    using False by (simp_all add: deliver_head_def)
  show thesis
  proof (cases "cBuf (qConsumers q ! idx) = []")
    case True
    have s: "send_to idx msg q1 = (send_to idx msg q)\<lparr>qKeyAssignments := ka, qNextIdx := qNextIdx q\<rparr>"
      by (simp add: q1 send_to_def Let_def)
    moreover have "queue_wf (send_to idx msg q1)"
      using ak(1,4) True by (intro queue_wf_send_to) (simp_all add: q1)
    ultimately show thesis
      using True ak(1,2) kk dh(1) k deliverOrdered_eq [OF wf ne, of msg now]
      by (intro sent [where idx = idx and ka = ka and ni = "qNextIdx q"]) (simp_all add: ka_def)
  next
    case busy: False
    have "deliver_head msg now q = Some (msg, False, q1)"
      using busy dh(1) k deliverOrdered_eq [OF wf ne, of msg now] by simp
    moreover have "deliver_head msg now q1 = Some (msg, False, q1)"
      using busy dh(2) ak(5) deliverOrdered_eq [OF ak(4), of msg now] ne by (simp add: q1)
    moreover have "\<exists>c \<in> set (qConsumers q). cBuf c \<noteq> [] \<and> gm_get ka (mOrderingKey msg) = Some (cCh c)"
      using busy ak(1,2) by (intro bexI [of _ "qConsumers q ! idx"]) (simp_all add: ka_def)
    ultimately show thesis
      using ak(4) kk False by (intro stuck [of ka]) (simp_all add: q1)
  qed
qed

lemma qturn_Some:
  assumes "live_queue q" and "qturn now q = Some q'"
  obtains msg idx ka ni where "qMessages q = msg # qMessages q'" "mVisibleAt msg \<le> now"
    "idx < length (qConsumers q)" "cBuf (qConsumers q ! idx) = []"
    "q' = to_inflight (msg\<lparr>mVisibleAt := now + cVisibilityTimeout (qConsumers q ! idx)\<rparr>)
       ((send_to idx msg q)\<lparr>qKeyAssignments := ka, qNextIdx := ni\<rparr>)"
    "queue_wf ((send_to idx msg q)\<lparr>qKeyAssignments := ka, qNextIdx := ni\<rparr>)"
    "keeps_keys (qKeyAssignments q) ka"
    "mOrderingKey msg \<noteq> [] \<Longrightarrow> gm_get ka (mOrderingKey msg) = Some (cCh (qConsumers q ! idx))"
    "tryDeliver_loop now q = tryDeliver_loop now q'"
proof -
  from assms(2) obtain msg rest where m: "qMessages q = msg # rest" "mVisibleAt msg \<le> now"
    by (auto simp: qturn_def split: list.splits if_splits)
  show thesis
  proof (cases rule: deliver_head_live [OF assms(1), of msg now, case_names sent' stuck'])
    case (sent' idx ka ni)
    with assms(2) m show thesis
      by (intro that [where msg = msg and idx = idx and ka = ka and ni = ni]) (auto simp: qturn_def to_inflight_def tryDeliver_loop.simps [of now q])
  next
    case (stuck' ka)
    with assms(2) m show thesis by (simp add: qturn_def)
  qed
qed

lemma qturn_None:
  assumes "live_queue q" and "qturn now q = None"
  obtains ka where "qsettle now q = q\<lparr>qKeyAssignments := ka\<rparr>" "live_queue (q\<lparr>qKeyAssignments := ka\<rparr>)"
    "qturn now (q\<lparr>qKeyAssignments := ka\<rparr>) = None" "keeps_keys (qKeyAssignments q) ka"
    "qsettle now (q\<lparr>qKeyAssignments := ka\<rparr>) = q\<lparr>qKeyAssignments := ka\<rparr>"
    "tryDeliver_loop now q = Some (q\<lparr>qKeyAssignments := ka\<rparr>)"
proof (cases "qMessages q = [] \<or> mVisibleAt (hd (qMessages q)) > now")
  case True
  with assms show thesis
    by (intro that [of "qKeyAssignments q"])
      (auto simp: qturn_def qsettle_def tryDeliver_loop.simps [of now q] split: list.splits)
next
  case False
  then obtain msg rest where m: "qMessages q = msg # rest" "\<not> mVisibleAt msg > now"
    by (cases "qMessages q") auto
  show thesis
  proof (cases rule: deliver_head_live [OF assms(1), of msg now, case_names sent' stuck'])
    case (sent' idx ka ni)
    with assms(2) m show thesis by (simp add: qturn_def)
  next
    case (stuck' ka)
    with m assms(1) show thesis
      by (intro that [of ka])
        (simp_all add: qturn_def qsettle_def live_queue_def tryDeliver_loop.simps [of now q])
  qed
qed

lemma live_to_inflight:
  assumes "queue_wf q" "qConsumers q \<noteq> []"
  shows "live_queue (to_inflight m q)"
proof -
  have "to_inflight m q
      = (q\<lparr>qInFlight := gm_set (qInFlight q) (mID m) (m\<lparr>mAttempt := mAttempt m + 1\<rparr>)\<rparr>)
          \<lparr>qMessages := tl (qMessages q)\<rparr>"
    by (simp add: to_inflight_def)
  moreover have "queue_wf (q\<lparr>qInFlight := gm_set (qInFlight q) (mID m) (m\<lparr>mAttempt := mAttempt m + 1\<rparr>)\<rparr>)"
    using assms(1) by (intro queue_wf_inflight_set) simp_all
  ultimately show ?thesis using assms(2) by (simp only: live_queue_def queue_wf_messages) simp
qed

interpretation qd: delivery live_queue qMessages qinfl qturn qsettle tryDeliver_loop
proof (unfold_locales, goal_cases)
  case (1 q now q')
  from 1 show ?case
  proof (rule qturn_Some, goal_cases)
    case (1 msg idx ka ni)
    then show ?case
      by (intro exI [of _ msg])
        (simp add: qinfl_def to_inflight_def set_keys_gm_set mset_keys_gm_set)
  qed
next
  case (2 q now q')
  from 2 show ?case
  proof (rule qturn_Some, goal_cases)
    case (1 msg idx ka ni)
    have "qConsumers (send_to idx msg q) \<noteq> []" using 1(3) by (auto simp: send_to_def Let_def)
    with 1 show ?case by (auto intro!: live_to_inflight)
  qed
next
  case (3 q now)
  show ?case
  proof (cases "qturn now q")
    case None
    from 3 None show ?thesis by (rule qturn_None) (simp add: None)
  next
    case (Some q')
    from 3 Some have "tryDeliver_loop now q = tryDeliver_loop now q'" by (rule qturn_Some)
    with Some show ?thesis by simp
  qed
next
  case (4 q now)
  then show ?case by (rule qturn_None) simp
next
  case (5 q now)
  then show ?case by (rule qturn_None) simp
next
  case (6 q now)
  then show ?case by (rule qturn_None) simp
next
  case (7 q now)
  then show ?case by (rule qturn_None) simp
next
  case (8 q now)
  then show ?case by (rule qturn_None) (simp add: qinfl_def)
qed


section \<open>What delivery keeps\<close>

text \<open>Delivery touches the pending messages, the in-flight map, the channel buffers, the
  round-robin index and the key bindings; bindings are only added.\<close>

definition same_frame :: "Queue \<Rightarrow> Queue \<Rightarrow> bool" where
  "same_frame q q' \<longleftrightarrow> qName q' = qName q \<and> qMaxSize q' = qMaxSize q
     \<and> qFailurePolicy q' = qFailurePolicy q \<and> qMaxRetries q' = qMaxRetries q \<and> qGroups q' = qGroups q
     \<and> map cCh (qConsumers q') = map cCh (qConsumers q)
     \<and> map cVisibilityTimeout (qConsumers q') = map cVisibilityTimeout (qConsumers q)
     \<and> keeps_keys (qKeyAssignments q) (qKeyAssignments q')"

lemma same_frame_refl [simp]: "same_frame q q"
  by (simp add: same_frame_def)

lemma same_frame_trans: "same_frame a b \<Longrightarrow> same_frame b c \<Longrightarrow> same_frame a c"
  by (auto simp: same_frame_def intro: keeps_keys_trans)

lemma map_timeout_send_to [simp]:
  "map cVisibilityTimeout (qConsumers (send_to idx msg q)) = map cVisibilityTimeout (qConsumers q)"
  by (cases "idx < length (qConsumers q)")
    (simp_all add: send_to_def Let_def map_update list_update_same_conv nth_map list_update_beyond)

lemma same_frame_turn:
  assumes "live_queue q" and "qturn now q = Some q'"
  shows "same_frame q q'"
  using assms by (rule qturn_Some) (simp add: same_frame_def to_inflight_def)

lemma same_frame_settle:
  assumes "live_queue q" and "qturn now q = None"
  shows "same_frame q (qsettle now q)"
  using assms by (rule qturn_None) (simp add: same_frame_def)

text \<open>An unread message with an ordering key sits in the channel its key is bound to.\<close>

definition keys_routed :: "Queue \<Rightarrow> bool" where
  "keys_routed q \<longleftrightarrow> (\<forall>c \<in> set (qConsumers q). \<forall>m \<in> set (cBuf c).
     mOrderingKey m \<noteq> [] \<longrightarrow> gm_get (qKeyAssignments q) (mOrderingKey m) = Some (cCh c))"

lemma keys_routed_send:
  assumes "keys_routed q" and "idx < length (qConsumers q)" and "keeps_keys (qKeyAssignments q) ka"
    and "mOrderingKey msg \<noteq> [] \<Longrightarrow> gm_get ka (mOrderingKey msg) = Some (cCh (qConsumers q ! idx))"
  shows "keys_routed (to_inflight m ((send_to idx msg q)\<lparr>qKeyAssignments := ka, qNextIdx := ni\<rparr>))"
  unfolding keys_routed_def
proof (intro ballI impI)
  fix c x
  assume c: "c \<in> set (qConsumers (to_inflight m ((send_to idx msg q)\<lparr>qKeyAssignments := ka, qNextIdx := ni\<rparr>)))"
    and x: "x \<in> set (cBuf c)" "mOrderingKey x \<noteq> []"
  let ?c = "qConsumers q ! idx"
  from c have "c \<in> set ((qConsumers q)[idx := ?c\<lparr>cBuf := cBuf ?c @ [cloneMessage msg]\<rparr>])"
    by (simp add: to_inflight_def send_to_def Let_def)
  then consider "c \<in> set (qConsumers q)" | "c = ?c\<lparr>cBuf := cBuf ?c @ [cloneMessage msg]\<rparr>"
    by (auto dest!: set_update_subset_insert [THEN subsetD])
  then have "gm_get ka (mOrderingKey x) = Some (cCh c)"
  proof cases
    case 1
    with assms(1,3) x show ?thesis by (simp add: keys_routed_def keeps_keys_def)
  next
    case 2
    have "?c \<in> set (qConsumers q)" using assms(2) by simp
    with 2 assms(1,3,4) x show ?thesis
      by (auto simp: keys_routed_def keeps_keys_def cloneMessage_def)
  qed
  then show "gm_get (qKeyAssignments (to_inflight m ((send_to idx msg q)\<lparr>qKeyAssignments := ka, qNextIdx := ni\<rparr>)))
      (mOrderingKey x) = Some (cCh c)"
    by (simp add: to_inflight_def)
qed

lemma keys_routed_turn:
  assumes "live_queue q" and "qturn now q = Some q'" and "keys_routed q"
  shows "keys_routed q'"
  using assms(1,2) by (rule qturn_Some) (use assms(3) keys_routed_send in blast)

lemma keys_routed_settle:
  assumes "live_queue q" and "qturn now q = None" and "keys_routed q"
  shows "keys_routed (qsettle now q)"
  using assms(1,2) by (rule qturn_None) (use assms(3) in \<open>auto simp: keys_routed_def keeps_keys_def\<close>)

section \<open>Summary for \<open>tryDeliver\<close>\<close>

definition blocked :: "time \<Rightarrow> Queue \<Rightarrow> bool" where
  \<comment> \<open>why delivery stops: nothing pending, a head that is not visible yet, no (idle) consumer for a
    head without a key, or a busy consumer that the key of the head is bound to\<close>
  "blocked now q \<longleftrightarrow>
     (case qMessages q of
        [] \<Rightarrow> True
      | msg # _ \<Rightarrow> mVisibleAt msg > now \<or> qConsumers q = []
          \<or> (if mOrderingKey msg = [] then list_all (\<lambda>c. cBuf c \<noteq> []) (qConsumers q)
             else list_ex (\<lambda>c. cBuf c \<noteq> []
               \<and> gm_get (qKeyAssignments q) (mOrderingKey msg) = Some (cCh c)) (qConsumers q)))"

lemma qturn_None_blocked:
  assumes "live_queue q" and "qturn now q = None" and "qsettle now q = q"
  shows "blocked now q"
proof (cases "qMessages q")
  case (Cons msg rest)
  show ?thesis
  proof (cases rule: deliver_head_live [OF assms(1), of msg now, case_names sent' stuck'])
    case (sent' idx ka ni)
    with assms(2) Cons show ?thesis by (auto simp: qturn_def blocked_def split: if_splits)
  next
    case (stuck' ka)
    show ?thesis
    proof (cases "mVisibleAt msg > now")
      case False
      with assms(3) Cons stuck'(1) have "q\<lparr>qKeyAssignments := ka\<rparr> = q" by (simp add: qsettle_def)
      then have "qKeyAssignments (q\<lparr>qKeyAssignments := ka\<rparr>) = qKeyAssignments q" by (rule arg_cong)
      with stuck'(5,6) Cons False show ?thesis
        by (simp add: blocked_def list_all_iff list_ex_iff)
    qed (simp add: blocked_def Cons)
  qed
qed (simp add: blocked_def)

lemma tryDeliver_wf:
  assumes "queue_wf q"
  obtains q' ds where "tryDeliver now q = Some q'" "queue_wf q'" "same_frame q q'"
    "qMessages q = ds @ qMessages q'" "\<forall>m \<in> set ds. mVisibleAt m \<le> now"
    "set (qinfl q') = mID ` set ds \<union> set (qinfl q)"
    "distinct (qtracked q) \<Longrightarrow> mset (qtracked q') = mset (qtracked q)"
    "keys_routed q \<Longrightarrow> keys_routed q'" "blocked now q'"
proof (cases "qConsumers q = [] \<or> qMessages q = []")
  case True
  have "blocked now q"
    using True assms by (auto simp: blocked_def split: list.splits)
  then show ?thesis using that [of q "[]"] assms True by (auto simp: tryDeliver_def)
next
  case False
  then have live: "live_queue q" using assms by (simp add: live_queue_def)
  obtain q' where q': "tryDeliver_loop now q = Some q'" using qd.run_total [OF live] by blast
  obtain ds where ds: "qMessages q = ds @ qMessages q'" "\<forall>m \<in> set ds. mVisibleAt m \<le> now"
    "set (qinfl q') = mID ` set ds \<union> set (qinfl q)"
    using qd.run_fifo [OF live q'] by blast
  have "same_frame q q'"
    using live q' by (rule qd.run_rel)
      (blast intro: same_frame_trans same_frame_turn same_frame_settle)+
  moreover have "keys_routed q \<longrightarrow> keys_routed q'"
    by (rule qd.run_rel [OF live q', of "\<lambda>a b. keys_routed a \<longrightarrow> keys_routed b"])
      (blast intro: keys_routed_turn keys_routed_settle)+
  moreover have "blocked now q'"
    using qd.run_exists [OF live, of now] q' by (auto intro: qturn_None_blocked)
  moreover have "tryDeliver now q = Some q'" using False q' by (simp add: tryDeliver_def)
  ultimately show ?thesis
    using ds qd.run_inv [OF live q'] qd.run_tracked_mset [OF live q']
    by (intro that [of q' ds]) (simp_all add: live_queue_def)
qed

end
