(* ===== verification/Work_Queue.thy ===== *)
theory Work_Queue
  imports Prelude
begin

text \<open>
  The contract that a queue and a consumer group have in common, as the caller sees it. Every
  operation reports the message ids it accepted and the ids it settled (acknowledged, dropped,
  handed to a dead-letter queue, removed or purged). The law: an operation that is used as
  intended does not panic, keeps the invariant, and no id appears or disappears other than
  through those reports. Its consequence for arbitrary sequences of operations is at-least-once
  delivery: what was accepted and not settled is still held.
\<close>

fun run_ops :: "('op \<Rightarrow> 'q \<Rightarrow> (string list \<times> string list \<times> 'q) go) \<Rightarrow> 'op list \<Rightarrow> 'q
    \<Rightarrow> (string list \<times> string list \<times> 'q) go" where
  "run_ops step [] q = Some ([], [], q)"
| "run_ops step (op # ops) q =
     (case step op q of
        None \<Rightarrow> None
      | Some (a, d, q1) \<Rightarrow> map_option (\<lambda>(a', d', q'). (a @ a', d @ d', q')) (run_ops step ops q1))"

fun all_enabled :: "('op \<Rightarrow> 'q \<Rightarrow> bool) \<Rightarrow> ('op \<Rightarrow> 'q \<Rightarrow> (string list \<times> string list \<times> 'q) go)
    \<Rightarrow> 'op list \<Rightarrow> 'q \<Rightarrow> bool" where
  "all_enabled enabled step [] q \<longleftrightarrow> True"
| "all_enabled enabled step (op # ops) q \<longleftrightarrow> enabled op q \<and>
     (case step op q of None \<Rightarrow> True | Some (_, _, q1) \<Rightarrow> all_enabled enabled step ops q1)"

lemma all_enabled_conj:
  assumes "\<forall>op \<in> set ops. P op" and "all_enabled E step ops q"
  shows "all_enabled (\<lambda>op q. P op \<and> E op q) step ops q"
  using assms by (induction ops arbitrary: q) (auto split: option.splits)

locale work_queue =
  fixes inv :: "'q \<Rightarrow> bool"
    and ids :: "'q \<Rightarrow> string list"
    and enabled :: "'op \<Rightarrow> 'q \<Rightarrow> bool"
    and step :: "'op \<Rightarrow> 'q \<Rightarrow> (string list \<times> string list \<times> 'q) go"
  assumes step_ok: "inv q \<Longrightarrow> enabled op q \<Longrightarrow>
      \<exists>a d q'. step op q = Some (a, d, q') \<and> inv q' \<and> mset (ids q') + mset d = mset (ids q) + mset a"
begin

lemma run_ok:
  assumes "inv q" and "all_enabled enabled step ops q"
  shows "\<exists>a d q'. run_ops step ops q = Some (a, d, q') \<and> inv q'
     \<and> mset (ids q') + mset d = mset (ids q) + mset a"
  using assms
proof (induction ops arbitrary: q)
  case Nil
  then show ?case by simp
next
  case (Cons op ops)
  from Cons.prems have "enabled op q" by simp
  from step_ok [OF Cons.prems(1) this] obtain a d q1 where
    s: "step op q = Some (a, d, q1)" "inv q1" "mset (ids q1) + mset d = mset (ids q) + mset a"
    by blast
  from Cons.IH [OF s(2)] Cons.prems(2) s(1) obtain a' d' q' where
    r: "run_ops step ops q1 = Some (a', d', q')" "inv q'"
      "mset (ids q') + mset d' = mset (ids q1) + mset a'"
    by auto
  have "mset (ids q') + mset (d @ d') = mset (ids q') + mset d' + mset d" by simp
  also have "\<dots> = mset (ids q1) + mset d + mset a'" unfolding r(3) by simp
  also have "\<dots> = mset (ids q) + mset (a @ a')" unfolding s(3) by simp
  finally show ?case using s(1) r by auto
qed

lemma run_no_panic: "inv q \<Longrightarrow> all_enabled enabled step ops q \<Longrightarrow> run_ops step ops q \<noteq> None"
  using run_ok [of q ops] by auto

lemma run_conserves:
  assumes "inv q" and "all_enabled enabled step ops q" and "run_ops step ops q = Some (a, d, q')"
  shows "inv q' \<and> mset (ids q') + mset d = mset (ids q) + mset a"
  using run_ok [OF assms(1,2)] assms(3) by auto

lemma run_at_least_once:
  assumes "inv q" and "all_enabled enabled step ops q" and "run_ops step ops q = Some (a, d, q')"
    and "x \<in> set a \<union> set (ids q)" and "x \<notin> set d"
  shows "x \<in> set (ids q')"
proof -
  have "mset (ids q') + mset d = mset (ids q) + mset a" using run_conserves [OF assms(1-3)] by blast
  then have "set_mset (mset (ids q') + mset d) = set_mset (mset (ids q) + mset a)" by (rule arg_cong)
  with assms(4,5) show ?thesis by auto
qed

lemma run_no_phantom:
  assumes "inv q" and "all_enabled enabled step ops q" and "run_ops step ops q = Some (a, d, q')"
    and "x \<in> set (ids q') \<union> set d"
  shows "x \<in> set a \<union> set (ids q)"
proof -
  have "mset (ids q') + mset d = mset (ids q) + mset a" using run_conserves [OF assms(1-3)] by blast
  then have "set_mset (mset (ids q') + mset d) = set_mset (mset (ids q) + mset a)" by (rule arg_cong)
  with assms(4) show ?thesis by auto
qed

end

end
