(* ===== verification/Group_Laws.thy ===== *)
theory Group_Laws
  imports Group Work_Queue
begin

text \<open>
  The laws of consumer groups. For groups of at most two members, every operation of
  \<open>group.go\<close> is total and accounts for every message (\<open>gq\<close>, the interpretation of the work
  queue contract). With three or more idle members the delivery loop panics.
\<close>

section \<open>Each operation on a small group\<close>

definition group_inv :: "ConsumerGroup \<Rightarrow> bool" where
  "group_inv g \<longleftrightarrow> small_group g \<and> distinct (gtracked g)"

lemma gtracked_eq: "gtracked g = map mID (gMessages g) @ gm_keys (gInFlight g)"
  by (simp add: tracked_def ginfl_def)

lemma gtryDeliver_inv:
  assumes "small_group g" and "distinct (gtracked g)"
  obtains g' where "gtryDeliver now g = Some g'" "group_inv g'" "mset (gtracked g') = mset (gtracked g)"
proof (rule gtryDeliver_small [OF assms(1), of now])
  fix g'
  assume g': "gtryDeliver now g = Some g'" "small_group g'"
    "distinct (gtracked g) \<Longrightarrow> mset (gtracked g') = mset (gtracked g)"
  then have "distinct (gtracked g')" using assms(2) mset_eq_imp_distinct_iff by blast
  with g' assms(2) show thesis by (intro that [of g']) (simp_all add: group_inv_def)
qed

lemma small_group_messages [simp]: "small_group (g\<lparr>gMessages := ms\<rparr>) = small_group g"
  and small_group_nextIdx [simp]: "small_group (g\<lparr>gNextIdx := i\<rparr>) = small_group g"
  by (simp_all add: small_group_def group_wf_def)

lemma small_group_del: "small_group g \<Longrightarrow> small_group (g\<lparr>gInFlight := gm_del (gInFlight g) k\<rparr>)"
  by (simp add: small_group_def group_wf_def gm_all_del)

lemma small_group_filter: "small_group g \<Longrightarrow> small_group (g\<lparr>gInFlight := filter P (gInFlight g)\<rparr>)"
  by (auto simp: small_group_def group_wf_def gm_all_def distinct_map_filter)

lemma small_group_members:
  assumes "small_group g" and "length ms \<le> 2" and "\<forall>m \<in> set ms. length (gmBuf m) \<le> chanCap"
  shows "small_group (g\<lparr>gMembers := ms\<rparr>)"
  using assms by (simp add: small_group_def group_wf_def)

lemma requeue_where_small:
  assumes "range_order r" and "small_group g"
  shows "small_group (requeue_where r P now g)"
    and "mset (gtracked (requeue_where r P now g)) = mset (gtracked g)"
    and "gMembers (requeue_where r P now g) = gMembers g"
    and "gHeartbeatTimeout (requeue_where r P now g) = gHeartbeatTimeout g"
proof -
  have wf: "group_wf g" using assms(2) by (simp add: small_group_def)
  note eq = requeue_where_eq [OF assms(1) wf, of P now]
  show "small_group (requeue_where r P now g)"
    using small_group_filter [OF assms(2)] unfolding eq
    by (simp add: small_group_def group_wf_def)
  show "gMembers (requeue_where r P now g) = gMembers g"
    "gHeartbeatTimeout (requeue_where r P now g) = gHeartbeatTimeout g" by (simp_all add: eq)
  have "gm_all (\<lambda>k e. mID ((ieMsg e)\<lparr>mVisibleAt := now\<rparr>) = k) (gInFlight g)"
    using wf by (simp add: group_wf_def)
  from requeue_ids [OF assms(1) this, of "gMessages g" P]
  show "mset (gtracked (requeue_where r P now g)) = mset (gtracked g)"
    unfolding gtracked_eq eq by simp
qed

lemma gtracked_del:
  assumes "group_wf g" and "gm_get (gInFlight g) k = Some e"
  shows "mset (gtracked g) = add_mset k (mset (gtracked (g\<lparr>gInFlight := gm_del (gInFlight g) k\<rparr>)))"
    and "mID (ieMsg e) = k"
  using mset_gm_del [OF _ assms(2)] gm_all_get [OF _ assms(2)] assms(1)
  by (auto simp: gtracked_eq group_wf_def)


lemma group_inv_mset:
  "small_group g' \<Longrightarrow> group_inv g \<Longrightarrow> mset (gtracked g') = mset (gtracked g) \<Longrightarrow> group_inv g'"
  using mset_eq_imp_distinct_iff by (auto simp: group_inv_def)

lemma gEnqueue_small:
  assumes "small_group g"
  obtains g' where "gEnqueue msg now g = Some g'" "small_group g'"
    "set (gtracked g') = insert (mID msg) (set (gtracked g))"
    "distinct (mID msg # gtracked g) \<Longrightarrow> mset (gtracked g') = add_mset (mID msg) (mset (gtracked g))"
proof -
  define cl where "cl = \<lparr>mID = mID msg, mQueue = mQueue msg, mPayload = mPayload msg,
    mHeaders = mHeaders msg, mAttempt = 0, mPublishedAt = mPublishedAt msg, mVisibleAt = zero_time,
    mOrderingKey = [], mSequence = 0\<rparr>"
  let ?g = "g\<lparr>gMessages := gMessages g @ [cl]\<rparr>"
  have id: "mID cl = mID msg" by (simp add: cl_def)
  have "small_group ?g" using assms by simp
  then show thesis
  proof (rule gtryDeliver_small [of ?g now])
    fix g'
    assume g': "gtryDeliver now ?g = Some g'" "small_group g'" "set (gtracked g') = set (gtracked ?g)"
      "distinct (gtracked ?g) \<Longrightarrow> mset (gtracked g') = mset (gtracked ?g)"
    show thesis
      using g' by (intro that [of g']) (auto simp: gEnqueue_def cl_def [symmetric] gtracked_eq id)
  qed
qed

lemma gEnqueue_inv:
  assumes "group_inv g" and "mID msg \<notin> set (gtracked g)"
  shows "\<exists>g'. gEnqueue msg now g = Some g' \<and> group_inv g'
     \<and> mset (gtracked g') = add_mset (mID msg) (mset (gtracked g))"
proof -
  have "small_group g" using assms(1) by (simp add: group_inv_def)
  then obtain g' where g': "gEnqueue msg now g = Some g'" "small_group g'"
    "mset (gtracked g') = add_mset (mID msg) (mset (gtracked g))"
    using assms by (elim gEnqueue_small [of g msg now]) (auto simp: group_inv_def)
  then have "mset (gtracked g') = mset (mID msg # gtracked g)" by simp
  then have "distinct (gtracked g')"
    using assms mset_eq_imp_distinct_iff [of "gtracked g'" "mID msg # gtracked g"]
    by (simp add: group_inv_def)
  with g' show ?thesis by (auto simp: group_inv_def)
qed

lemma gtryDeliver_ex:
  "small_group g \<Longrightarrow> distinct (gtracked g) \<Longrightarrow>
    \<exists>g'. gtryDeliver now g = Some g' \<and> group_inv g' \<and> mset (gtracked g') = mset (gtracked g)"
  by (rule gtryDeliver_inv [of g now]) auto

lemma gAck_inv:
  assumes "group_inv g"
  shows "\<exists>ok g'. gAck k now g = Some (ok, g') \<and> group_inv g'
     \<and> mset (gtracked g') + mset (if ok then [k] else []) = mset (gtracked g)"
proof (cases "gm_get (gInFlight g) k")
  case None
  then show ?thesis using assms by (simp add: gAck_def gAckWithHook_def exI [of _ False])
next
  case (Some e)
  let ?g = "g\<lparr>gInFlight := gm_del (gInFlight g) k\<rparr>"
  have sm: "small_group g" and d: "distinct (gtracked g)" using assms by (simp_all add: group_inv_def)
  have t: "mset (gtracked g) = add_mset k (mset (gtracked ?g))"
    using sm Some gtracked_del(1) by (auto simp: small_group_def)
  then have "distinct (gtracked ?g)"
    using d mset_eq_imp_distinct_iff [of "gtracked g" "k # gtracked ?g"] by simp
  from gtryDeliver_ex [OF small_group_del [OF sm] this] obtain g' where
    "gtryDeliver now ?g = Some g'" "group_inv g'" "mset (gtracked g') = mset (gtracked ?g)" by blast
  then show ?thesis using Some t by (simp add: gAck_def gAckWithHook_def exI [of _ True])
qed

lemma gNack_inv:
  assumes "group_inv g"
  shows "\<exists>res g'. gNack k requeue maxRetries policy now g = Some (res, g') \<and> group_inv g'
     \<and> mset (gtracked g') + mset (if nrToDLQ res \<or> nrDropped res then [k] else []) = mset (gtracked g)"
proof (cases "gm_get (gInFlight g) k")
  case None
  then show ?thesis using assms by (simp add: gNack_def gNackWithHooks_def NackNotFound_def)
next
  case (Some e)
  let ?g = "g\<lparr>gInFlight := gm_del (gInFlight g) k\<rparr>"
  let ?r = "?g\<lparr>gMessages := gMessages g @ [(ieMsg e)\<lparr>mVisibleAt := now\<rparr>]\<rparr>"
  have sm: "small_group g" and d: "distinct (gtracked g)" using assms by (simp_all add: group_inv_def)
  have t: "mset (gtracked g) = add_mset k (mset (gtracked ?g))" and id: "mID (ieMsg e) = k"
    using sm Some gtracked_del by (auto simp: small_group_def)
  then have dg: "distinct (gtracked ?g)"
    using d mset_eq_imp_distinct_iff [of "gtracked g" "k # gtracked ?g"] by simp
  have settled: "group_inv ?g" using small_group_del [OF sm] dg by (simp add: group_inv_def)
  have tr: "mset (gtracked ?r) = mset (gtracked g)" using t id by (simp add: gtracked_eq)
  then have dr: "distinct (gtracked ?r)" using d mset_eq_imp_distinct_iff by blast
  have "small_group ?r" using small_group_del [OF sm, of k] by (simp add: small_group_def group_wf_def)
  from gtryDeliver_ex [OF this dr] obtain g' where g': "gtryDeliver now ?r = Some g'" "group_inv g'"
    "mset (gtracked g') = mset (gtracked g)" using tr by auto
  show ?thesis
    using Some settled t g'
    by (simp add: gNack_def gNackWithHooks_def Let_def NackToDLQ_def NackDropped_def NackRequeued_def)
qed

lemma AddMember_inv:
  assumes "group_inv g" and "length (gMembers g) < 2"
  shows "\<exists>g'. AddMember memberID vt now g = Some g' \<and> group_inv g' \<and> mset (gtracked g') = mset (gtracked g)"
proof -
  let ?g = "g\<lparr>gMembers := gMembers g @
    [\<lparr>gmID = memberID, gmBuf = [], gmVisTimeout = vt, gmLastHeartbeat = now\<rparr>]\<rparr>"
  have "small_group ?g"
    using assms by (intro small_group_members) (auto simp: group_inv_def small_group_def group_wf_def)
  moreover have "gtracked ?g = gtracked g" by (simp add: gtracked_eq)
  ultimately show ?thesis
    using gtryDeliver_ex [of ?g now] assms(1) by (simp add: AddMember_def group_inv_def)
qed

lemma requeueForMember_inv:
  assumes "range_order r" and "group_inv g"
  shows "\<exists>g'. gtryDeliver now (requeue_where r P now g) = Some g' \<and> group_inv g'
     \<and> mset (gtracked g') = mset (gtracked g)"
proof -
  have "small_group g" using assms(2) by (simp add: group_inv_def)
  note rq = requeue_where_small [OF assms(1) this, of P now]
  have "distinct (gtracked (requeue_where r P now g))"
    using rq(2) assms(2) mset_eq_imp_distinct_iff by (auto simp: group_inv_def)
  from gtryDeliver_ex [OF rq(1) this, of now] rq(2) show ?thesis by auto
qed

lemma group_inv_members:
  "group_inv g \<Longrightarrow> length ms \<le> 2 \<Longrightarrow> set ms \<subseteq> set (gMembers g) \<Longrightarrow>
    group_inv (g\<lparr>gMembers := ms\<rparr>) \<and> gtracked (g\<lparr>gMembers := ms\<rparr>) = gtracked g"
  by (auto simp: group_inv_def gtracked_eq intro!: small_group_members)
    (auto simp: small_group_def group_wf_def)

lemma group_inv_nextIdx:
  "group_inv (g\<lparr>gNextIdx := i\<rparr>) = group_inv g" "gtracked (g\<lparr>gNextIdx := i\<rparr>) = gtracked g"
  by (simp_all add: group_inv_def gtracked_eq)

lemma group_inv_clamp:
  "group_inv (clamp_nextIdx g) = group_inv g" "gtracked (clamp_nextIdx g) = gtracked g"
  by (simp_all add: clamp_nextIdx_def group_inv_nextIdx)

lemma RemoveMember_inv:
  assumes "range_order r" and "group_inv g"
  shows "\<exists>e g'. RemoveMember r memberID now g = Some (e, g') \<and> group_inv g'
     \<and> mset (gtracked g') = mset (gtracked g)"
proof (cases "find_index (\<lambda>m. gmID m = memberID) (gMembers g)")
  case None
  then show ?thesis using assms by (simp add: RemoveMember_def)
next
  case (Some i)
  let ?g1 = "g\<lparr>gMembers := remove_at i (gMembers g)\<rparr>"
  have "i < length (gMembers g)" using Some by (simp add: find_index_Some)
  then have "group_inv ?g1 \<and> gtracked ?g1 = gtracked g"
    using assms(2) set_remove_at_subset [of i "gMembers g"]
    by (intro group_inv_members)
      (auto simp: group_inv_def small_group_def length_remove_at)
  then have "group_inv (clamp_nextIdx ?g1)" "gtracked (clamp_nextIdx ?g1) = gtracked g"
    by (simp_all add: group_inv_clamp)
  from requeueForMember_inv [OF assms(1) this(1), of now "\<lambda>e. ieMemberID e = memberID"] this(2)
  obtain g' where "requeueForMember r memberID now (clamp_nextIdx ?g1) = Some g'" "group_inv g'"
    "mset (gtracked g') = mset (gtracked g)" by (auto simp: requeueForMember_def)
  then show ?thesis using Some by (simp add: RemoveMember_def)
qed

lemma reap_loop_small:
  assumes "range_order r" and "small_group g" and "reap_loop r now ms alive dead g = (alive', dead', g')"
  shows "small_group g' \<and> mset (gtracked g') = mset (gtracked g) \<and> gMembers g' = gMembers g
     \<and> alive' = alive @ filter (\<lambda>m. \<not> now - gmLastHeartbeat m > gHeartbeatTimeout g) ms
     \<and> dead' = dead @ map gmID (filter (\<lambda>m. now - gmLastHeartbeat m > gHeartbeatTimeout g) ms)"
  using assms(2,3)
proof (induction ms arbitrary: alive dead g)
  case Nil
  then show ?case by simp
next
  case (Cons m ms)
  let ?g = "requeueForMemberLocked r (gmID m) now g"
  note rq = requeue_where_small [OF assms(1) Cons.prems(1), of "\<lambda>e. ieMemberID e = gmID m" now]
  have "small_group ?g" "mset (gtracked ?g) = mset (gtracked g)" "gMembers ?g = gMembers g"
    "gHeartbeatTimeout ?g = gHeartbeatTimeout g"
    using rq by (simp_all add: requeueForMemberLocked_def)
  then show ?case
    using Cons.prems Cons.IH [of ?g alive "dead @ [gmID m]"] Cons.IH [of g "alive @ [m]" dead]
    by (cases "now - gmLastHeartbeat m > gHeartbeatTimeout g") simp_all
qed

lemma ReapDeadMembers_small:
  assumes "range_order r" and "small_group g"
  shows "\<exists>dead g'. ReapDeadMembers r now g = Some (dead, g') \<and> small_group g'
     \<and> (distinct (gtracked g) \<longrightarrow> mset (gtracked g') = mset (gtracked g))"
proof -
  obtain alive dead g1 where l: "reap_loop r now (gMembers g) [] [] g = (alive, dead, g1)"
    by (cases "reap_loop r now (gMembers g) [] [] g")
  note rl = reap_loop_small [OF assms l]
  let ?g = "clamp_nextIdx (g1\<lparr>gMembers := alive\<rparr>)"
  have "length alive \<le> 2" "set alive \<subseteq> set (gMembers g1)"
    using rl assms(2) by (auto simp: small_group_def intro: le_trans [OF length_filter_le])
  then have "small_group (g1\<lparr>gMembers := alive\<rparr>)"
    using rl by (intro small_group_members) (auto simp: small_group_def group_wf_def)
  then have "small_group ?g" by (simp add: clamp_nextIdx_def)
  moreover have t: "gtracked ?g = gtracked g1" by (simp add: clamp_nextIdx_def gtracked_eq)
  ultimately show ?thesis
  proof (elim gtryDeliver_small [of ?g now])
    fix g'
    assume "gtryDeliver now ?g = Some g'" "small_group g'"
      "distinct (gtracked ?g) \<Longrightarrow> mset (gtracked g') = mset (gtracked ?g)"
    then show ?thesis
      using l rl t mset_eq_imp_distinct_iff [of "gtracked g1" "gtracked g"]
      by (simp add: ReapDeadMembers_def)
  qed
qed

lemma ReapDeadMembers_inv:
  assumes "range_order r" and "group_inv g"
  shows "\<exists>dead g'. ReapDeadMembers r now g = Some (dead, g') \<and> group_inv g'
     \<and> mset (gtracked g') = mset (gtracked g)"
  using ReapDeadMembers_small [OF assms(1), of g now] assms(2) group_inv_mset [of _ g]
  by (auto simp: group_inv_def)

section \<open>The group as a machine\<close>

text \<open>The calls that reach a group, and the receive by the goroutine that serves a member.\<close>

datatype group_op =
    GEnqueue message
  | GAddMember string duration
  | GRemoveMember string
  | GReceive string
  | GAck string
  | GNack string bool u32 FailurePolicy
  | GHeartbeat string
  | GReapDeadMembers
  | GRequeueExpired

definition greceive :: "string \<Rightarrow> ConsumerGroup \<Rightarrow> ConsumerGroup" where
  "greceive memberID g =
     (case find_index (\<lambda>m. gmID m = memberID) (gMembers g) of
        None \<Rightarrow> g
      | Some i \<Rightarrow>
          g\<lparr>gMembers := (gMembers g)[i := (gMembers g ! i)\<lparr>gmBuf := tl (gmBuf (gMembers g ! i))\<rparr>]\<rparr>)"

text \<open>A call comes with the clock and with the order in which it ranges over the in-flight map.\<close>

definition gstep :: "entry_order \<times> time \<times> group_op \<Rightarrow> ConsumerGroup
    \<Rightarrow> (string list \<times> string list \<times> ConsumerGroup) go" where
  "gstep call g = (case call of (r, now, op) \<Rightarrow>
     (case op of
        GEnqueue msg \<Rightarrow> map_option (\<lambda>g'. ([mID msg], [], g')) (gEnqueue msg now g)
      | GAddMember memberID vt \<Rightarrow> map_option (\<lambda>g'. ([], [], g')) (AddMember memberID vt now g)
      | GRemoveMember memberID \<Rightarrow> map_option (\<lambda>(_, g'). ([], [], g')) (RemoveMember r memberID now g)
      | GReceive memberID \<Rightarrow> Some ([], [], greceive memberID g)
      | GAck k \<Rightarrow> map_option (\<lambda>(ok, g'). ([], if ok then [k] else [], g')) (gAck k now g)
      | GNack k requeue maxRetries policy \<Rightarrow>
          map_option (\<lambda>(res, g'). ([], if nrToDLQ res \<or> nrDropped res then [k] else [], g'))
            (gNack k requeue maxRetries policy now g)
      | GHeartbeat memberID \<Rightarrow> Some ([], [], snd (Heartbeat memberID now g))
      | GReapDeadMembers \<Rightarrow> map_option (\<lambda>(_, g'). ([], [], g')) (ReapDeadMembers r now g)
      | GRequeueExpired \<Rightarrow> map_option (\<lambda>g'. ([], [], g')) (gRequeueExpired r now g)))"

definition genabled :: "entry_order \<times> time \<times> group_op \<Rightarrow> ConsumerGroup \<Rightarrow> bool" where
  \<comment> \<open>message ids are fresh, and at most two members are there at a time\<close>
  "genabled call g \<longleftrightarrow>
     (case snd (snd call) of
        GEnqueue msg \<Rightarrow> mID msg \<notin> set (gtracked g)
      | GAddMember _ _ \<Rightarrow> length (gMembers g) < 2
      | _ \<Rightarrow> True)"

lemma group_inv_update_member:
  assumes "group_inv g" and "i < length (gMembers g)" and "length (gmBuf m) \<le> length (gmBuf (gMembers g ! i))"
  shows "group_inv (g\<lparr>gMembers := (gMembers g)[i := m]\<rparr>)
    \<and> gtracked (g\<lparr>gMembers := (gMembers g)[i := m]\<rparr>) = gtracked g"
proof -
  have "length (gmBuf (gMembers g ! i)) \<le> chanCap"
    using assms(1,2) by (simp add: group_inv_def small_group_def group_wf_def)
  with assms(3) have "length (gmBuf m) \<le> chanCap" by linarith
  then have "small_group (g\<lparr>gMembers := (gMembers g)[i := m]\<rparr>)"
    using assms(1,2)
    by (intro small_group_members)
      (auto simp: group_inv_def small_group_def group_wf_def dest!: set_update_subset_insert [THEN subsetD])
  with assms(1) show ?thesis by (simp add: group_inv_def gtracked_eq)
qed

lemma greceive_inv:
  assumes "group_inv g"
  shows "group_inv (greceive k g) \<and> gtracked (greceive k g) = gtracked g"
proof (cases "find_index (\<lambda>m. gmID m = k) (gMembers g)")
  case (Some i)
  then show ?thesis
    using group_inv_update_member [OF assms, of i] find_index_Some [OF Some] by (simp add: greceive_def)
qed (use assms in \<open>simp add: greceive_def\<close>)

lemma Heartbeat_inv:
  assumes "group_inv g"
  shows "group_inv (snd (Heartbeat k now g)) \<and> gtracked (snd (Heartbeat k now g)) = gtracked g"
proof (cases "find_index (\<lambda>m. gmID m = k) (gMembers g)")
  case (Some i)
  then show ?thesis
    using group_inv_update_member [OF assms, of i] find_index_Some [OF Some] by (simp add: Heartbeat_def)
qed (use assms in \<open>simp add: Heartbeat_def\<close>)

lemma gstep_ok:
  assumes r: "range_order r" and g: "group_inv g" and en: "genabled (r, now, op) g"
  shows "\<exists>a d g'. gstep (r, now, op) g = Some (a, d, g') \<and> group_inv g'
    \<and> mset (gtracked g') + mset d = mset (gtracked g) + mset a"
proof (cases op)
  case (GEnqueue msg)
  with en gEnqueue_inv [OF g, of msg now] show ?thesis by (auto simp: genabled_def gstep_def)
next
  case (GAddMember k vt)
  with en AddMember_inv [OF g, of k vt now] show ?thesis by (auto simp: genabled_def gstep_def)
next
  case (GRemoveMember k)
  with RemoveMember_inv [OF r g, of k now] show ?thesis by (auto simp: gstep_def)
next
  case (GReceive k)
  with greceive_inv [OF g, of k] show ?thesis by (simp add: gstep_def)
next
  case (GAck k)
  from gAck_inv [OF g, of k now] obtain ok g' where "gAck k now g = Some (ok, g')" "group_inv g'"
    "mset (gtracked g') + mset (if ok then [k] else []) = mset (gtracked g)" by blast
  with GAck show ?thesis by (simp add: gstep_def)
next
  case (GNack k rq mr pol)
  from gNack_inv [OF g, of k rq mr pol now] obtain res g' where
    "gNack k rq mr pol now g = Some (res, g')" "group_inv g'"
    "mset (gtracked g') + mset (if nrToDLQ res \<or> nrDropped res then [k] else []) = mset (gtracked g)"
    by blast
  with GNack show ?thesis by (simp add: gstep_def)
next
  case (GHeartbeat k)
  with Heartbeat_inv [OF g, of k now] show ?thesis by (simp add: gstep_def)
next
  case GReapDeadMembers
  with ReapDeadMembers_inv [OF r g, of now] show ?thesis by (auto simp: gstep_def)
next
  case GRequeueExpired
  with requeueForMember_inv [OF r g, of now "\<lambda>e. mVisibleAt (ieMsg e) < now"]
  show ?thesis by (auto simp: gstep_def gRequeueExpired_def)
qed

interpretation gq: work_queue group_inv gtracked "\<lambda>call g. range_order (fst call) \<and> genabled call g" gstep
  by unfold_locales (auto intro: gstep_ok)

section \<open>Three or more members\<close>

lemma gdeliver_first:
  assumes "gMembers g \<noteq> []" and "gMessages g = msg # rest"
    and "gmBuf (gMembers g ! (gNextIdx g mod length (gMembers g))) = []"
  shows "gdeliver_members (length (gMembers g)) 0 now msg False g
     = gdeliver_members (length (gMembers g) - 1) 1 now
         (gdelivered now msg (gMembers g ! (gNextIdx g mod length (gMembers g)))) True
         (gdeliver_to now msg (gNextIdx g mod length (gMembers g)) g)"
proof -
  obtain k where k: "length (gMembers g) = Suc k" using assms(1) by (cases "gMembers g") auto
  show ?thesis
    unfolding k using assms(2,3) k
    by (simp add: Let_def gdelivered_def gdeliver_to_def)
qed

lemma mod_next_next:
  assumes "3 \<le> (n :: nat)" and "i < n"
  shows "(Suc i mod n + 1) mod n \<noteq> i"
proof -
  have "(Suc i mod n + 1) mod n = (i + 2) mod n" by (simp add: mod_Suc_eq)
  moreover have "(i + 2) mod n \<noteq> i"
    using assms by (cases "i + 2 < n") (auto simp: le_mod_geq)
  ultimately show ?thesis by simp
qed

text \<open>A group with three or more members, all idle, cannot deliver a single message: the \<open>break\<close> in
  the delivery loop leaves the \<open>select\<close> and not the loop over the members, so the same message is sent to
  a second member and the pending slice, empty by now, is cut once more, which panics.\<close>

theorem group_three_idle_members_panic:
  assumes "3 \<le> length (gMembers g)" and "\<forall>m \<in> set (gMembers g). gmBuf m = []"
    and "gMessages g = [msg]" and "mVisibleAt msg \<le> now"
  shows "gtryDeliver now g = None"
proof -
  let ?n = "length (gMembers g)"
  let ?i = "gNextIdx g mod ?n"
  let ?j = "(Suc ?i mod ?n + 1) mod ?n"
  have i: "?i < ?n" using assms(1) by (intro mod_less_divisor) linarith
  have j: "?j < ?n" using assms(1) by (intro mod_less_divisor) linarith
  have "?j \<noteq> ?i" using assms(1) i by (rule mod_next_next)
  then have idle: "gmBuf (gMembers (gdeliver_to now msg ?i g) ! ?j) = []"
    using assms(2) j by (simp add: gdeliver_to_def Let_def)
  obtain k where k: "?n - 1 = Suc k" using assms(1) by (cases "?n - 1") auto
  have "gMembers g \<noteq> []" using assms(1) by auto
  moreover have "gmBuf (gMembers g ! ?i) = []" using assms(2) i by simp
  ultimately have "gdeliver_members ?n 0 now msg False g
      = gdeliver_members (Suc k) 1 now (gdelivered now msg (gMembers g ! ?i)) True (gdeliver_to now msg ?i g)"
    using gdeliver_first [of g msg "[]" now] assms(3) by (simp only: k simp_thms)
  also have "\<dots> = None"
    using idle assms(3) by (simp add: Let_def gdeliver_to_def)
  finally show ?thesis
    using assms \<open>gMembers g \<noteq> []\<close> by (simp add: gtryDeliver_def gdeliver_loop.simps [of now g])
qed

definition three_idle :: "message list \<Rightarrow> ConsumerGroup" where
  "three_idle ms = (NewConsumerGroup ''g'' ''q'')\<lparr>gMembers :=
     map (\<lambda>n. \<lparr>gmID = n, gmBuf = [], gmVisTimeout = 30 * second, gmLastHeartbeat = 0\<rparr>) [''a'', ''b'', ''c''],
     gMessages := ms\<rparr>"

definition sample_message :: "string \<Rightarrow> message" where
  "sample_message k = \<lparr>mID = k, mQueue = ''q'', mPayload = [1, 2, 3], mHeaders = [(''h'', ''v'')], mAttempt = 0,
     mPublishedAt = 0, mVisibleAt = 0, mOrderingKey = [], mSequence = 0\<rparr>"

theorem group_three_idle_members_panic_witness:
  "gtryDeliver 5 (three_idle [sample_message ''m1'']) = None"
  using group_three_idle_members_panic [of "three_idle [sample_message ''m1'']" "sample_message ''m1''" 5]
  by (simp add: three_idle_def sample_message_def)


section \<open>At-least-once delivery of small groups\<close>


definition sample_calls :: "(entry_order \<times> time \<times> group_op) list" where
  "sample_calls = map (\<lambda>(t, op). (rev, t, op))
     [(1, GAddMember ''a'' 10), (2, GEnqueue (sample_message ''m1'')), (3, GEnqueue (sample_message ''m2'')),
      (4, GReceive ''a''), (5, GAck ''m1''), (6, GReceive ''a''), (7, GRemoveMember ''a'')]"


end
