(* ===== verification/Queue_Laws.thy ===== *)
theory Queue_Laws
  imports Queue_Delivery Group_Laws
begin

text \<open>
  The laws of queue mode: every operation of \<open>queue.go\<close> keeps the invariant and accounts for
  every message (\<open>wq\<close>, the interpretation of the work queue contract), and what each of them
  does to the pending list and the in-flight map.
\<close>

section \<open>The invariant of a queue with its groups\<close>

definition groups_small :: "Queue \<Rightarrow> bool" where
  "groups_small q \<longleftrightarrow> gm_wf (qGroups q) \<and> gm_all (\<lambda>_ g. small_group g) (qGroups q)"

definition queue_inv :: "Queue \<Rightarrow> bool" where
  "queue_inv q \<longleftrightarrow> queue_wf q \<and> keys_routed q \<and> distinct (qtracked q) \<and> groups_small q"

lemma qtracked_eq: "qtracked q = map mID (qMessages q) @ gm_keys (qInFlight q)"
  by (simp add: tracked_def qinfl_def)

lemma qtracked_simps [simp]:
  "qtracked (q\<lparr>qConsumers := cs\<rparr>) = qtracked q" "qtracked (q\<lparr>qGroups := gs\<rparr>) = qtracked q"
  "qtracked (q\<lparr>qKeyAssignments := ka\<rparr>) = qtracked q"
  by (simp_all add: qtracked_eq)

lemma groups_small_simps [simp]:
  "groups_small (q\<lparr>qMessages := ms\<rparr>) = groups_small q"
  "groups_small (q\<lparr>qInFlight := fl\<rparr>) = groups_small q"
  "groups_small (q\<lparr>qConsumers := cs\<rparr>) = groups_small q"
  "groups_small (q\<lparr>qKeyAssignments := ka\<rparr>) = groups_small q"
  by (simp_all add: groups_small_def)

lemma keys_routed_simps [simp]:
  "keys_routed (q\<lparr>qMessages := ms\<rparr>) = keys_routed q"
  "keys_routed (q\<lparr>qInFlight := fl\<rparr>) = keys_routed q"
  "keys_routed (q\<lparr>qGroups := gs\<rparr>) = keys_routed q"
  by (simp_all add: keys_routed_def)

lemma same_frame_groups: "same_frame q q' \<Longrightarrow> groups_small q' = groups_small q"
  by (simp add: same_frame_def groups_small_def)

lemma distinct_mset_cong: "distinct xs \<Longrightarrow> mset ys = mset xs \<Longrightarrow> distinct ys"
  using mset_eq_imp_distinct_iff by blast

lemma tryDeliver_inv:
  assumes "queue_inv q"
  shows "\<exists>q'. tryDeliver now q = Some q' \<and> queue_inv q' \<and> same_frame q q'
     \<and> mset (qtracked q') = mset (qtracked q)"
proof -
  have "queue_wf q" and d: "distinct (qtracked q)" and k: "keys_routed q" and g: "groups_small q"
    using assms by (simp_all add: queue_inv_def)
  from this(1) show ?thesis
  proof (rule tryDeliver_wf [of q now])
    fix q' ds
    assume q': "tryDeliver now q = Some q'" "queue_wf q'" "same_frame q q'"
      "distinct (qtracked q) \<Longrightarrow> mset (qtracked q') = mset (qtracked q)"
      "keys_routed q \<Longrightarrow> keys_routed q'"
    then have "queue_inv q'"
      using d k g distinct_mset_cong [OF d] by (simp add: queue_inv_def same_frame_groups)
    with q' d show ?thesis by blast
  qed
qed

section \<open>Calls on every group\<close>

lemma fan_out_eq: "fan_out msg now kgs gs = groups_each (gEnqueue msg now) kgs gs"
  by (induction kgs arbitrary: gs) auto

lemma groups_each_small:
  assumes "\<And>g. small_group g \<Longrightarrow> \<exists>g'. f g = Some g' \<and> small_group g'"
    and "gm_wf gs" and "gm_all (\<lambda>_ g. small_group g) gs" and "\<forall>kg \<in> set kgs. small_group (snd kg)"
  shows "\<exists>gs'. groups_each f kgs gs = Some gs' \<and> gm_wf gs' \<and> gm_all (\<lambda>_ g. small_group g) gs'"
  using assms(2-4)
proof (induction kgs arbitrary: gs)
  case Nil
  then show ?case by simp
next
  case (Cons kg kgs)
  obtain k g where kg: "kg = (k, g)" by (cases kg)
  with Cons.prems(3) assms(1) [of g] obtain g' where g': "f g = Some g'" "small_group g'" by auto
  have "gm_wf (gm_set gs k g')" using Cons.prems(1) by simp
  moreover have "gm_all (\<lambda>_ g. small_group g) (gm_set gs k g')"
    using Cons.prems(2) g'(2) by (simp add: gm_all_set)
  ultimately show ?case using Cons.IH [of "gm_set gs k g'"] Cons.prems(3) g'(1) kg by simp
qed

lemma groups_each_range:
  assumes "\<And>g. small_group g \<Longrightarrow> \<exists>g'. f g = Some g' \<and> small_group g'"
    and "range_order r" and "groups_small q"
  shows "\<exists>gs'. groups_each f (r (qGroups q)) (qGroups q) = Some gs'
    \<and> gm_wf gs' \<and> gm_all (\<lambda>_ g. small_group g) gs'"
proof (rule groups_each_small [OF assms(1)])
  show "gm_wf (qGroups q)" "gm_all (\<lambda>_ g. small_group g) (qGroups q)"
    using assms(3) by (simp_all add: groups_small_def)
  then show "\<forall>kg \<in> set (r (qGroups q)). small_group (snd kg)"
    using range_order_set [OF assms(2)] by (auto simp: gm_all_def)
qed

lemma gEnqueue_ex: "small_group g \<Longrightarrow> \<exists>g'. gEnqueue msg now g = Some g' \<and> small_group g'"
  by (rule gEnqueue_small [of g msg now]) auto

lemma gRequeueExpired_ex:
  assumes "range_order r" and "small_group g"
  shows "\<exists>g'. gRequeueExpired r now g = Some g' \<and> small_group g'"
  using requeue_where_small(1) [OF assms, of "\<lambda>e. mVisibleAt (ieMsg e) < now" now]
  by (rule gtryDeliver_small [of _ now]) (auto simp: gRequeueExpired_def)

lemma queue_inv_groups:
  "queue_inv q \<Longrightarrow> gm_wf gs \<Longrightarrow> gm_all (\<lambda>_ g. small_group g) gs \<Longrightarrow> queue_inv (q\<lparr>qGroups := gs\<rparr>)"
  by (simp add: queue_inv_def groups_small_def)

section \<open>Each operation\<close>

lemma EnqueueDirect_inv:
  assumes "orders_ok ro" and "queue_inv q" and "mID msg \<notin> set (qtracked q)"
  shows "\<exists>q'. EnqueueDirect ro msg now q = Some q' \<and> queue_inv q'
     \<and> mset (qtracked q') = add_mset (mID msg) (mset (qtracked q))"
proof -
  let ?q = "q\<lparr>qMessages := qMessages q @ [msg]\<rparr>"
  have t: "mset (qtracked ?q) = add_mset (mID msg) (mset (qtracked q))" by (simp add: qtracked_eq)
  have "queue_inv ?q" using assms(2,3) by (auto simp: queue_inv_def qtracked_eq)
  from tryDeliver_inv [OF this] obtain q1 where q1: "tryDeliver now ?q = Some q1" "queue_inv q1"
    "mset (qtracked q1) = mset (qtracked ?q)" by blast
  have "\<exists>gs. groups_each (gEnqueue msg now) (roGroups ro (qGroups q1)) (qGroups q1) = Some gs
      \<and> gm_wf gs \<and> gm_all (\<lambda>_ g. small_group g) gs"
    using assms(1) q1(2) by (intro groups_each_range gEnqueue_ex) (simp_all add: orders_ok_def queue_inv_def)
  then obtain gs where gs: "fan_out msg now (roGroups ro (qGroups q1)) (qGroups q1) = Some gs"
    "gm_wf gs" "gm_all (\<lambda>_ g. small_group g) gs" by (auto simp: fan_out_eq)
  show ?thesis
    using q1 t gs queue_inv_groups [OF q1(2) gs(2,3)] by (simp add: EnqueueDirect_def)
qed

lemma Enqueue_eq:
  "Enqueue ro msg now q =
     (if qMaxSize q > 0 \<and> int (length (qMessages q)) \<ge> qMaxSize q then Some (Some ErrQueueFull, q)
      else map_option (Pair None) (EnqueueDirect ro msg now q))"
  by (simp add: Enqueue_def EnqueueDirect_def bind_eq_None_conv split: Option.bind_splits)

lemma qtracked_del:
  assumes "queue_wf q" and "gm_get (qInFlight q) k = Some msg"
  shows "mset (qtracked q) = add_mset k (mset (qtracked (q\<lparr>qInFlight := gm_del (qInFlight q) k\<rparr>)))"
    and "mID msg = k"
  using mset_gm_del [OF _ assms(2)] gm_all_get [OF _ assms(2)] assms(1)
  by (auto simp: qtracked_eq queue_wf_def)

lemma queue_inv_del:
  assumes "queue_inv q" and "gm_get (qInFlight q) k = Some msg"
  shows "queue_inv (q\<lparr>qInFlight := gm_del (qInFlight q) k\<rparr>)"
proof -
  let ?q = "q\<lparr>qInFlight := gm_del (qInFlight q) k\<rparr>"
  have wf: "queue_wf q" using assms(1) by (simp add: queue_inv_def)
  have "mset (qtracked q) = mset (k # qtracked ?q)" using qtracked_del(1) [OF wf assms(2)] by simp
  then have "distinct (k # qtracked ?q)"
    using assms(1) distinct_mset_cong [of "qtracked q" "k # qtracked ?q"] by (simp add: queue_inv_def)
  with assms(1) queue_wf_inflight_del [OF wf] show ?thesis by (simp add: queue_inv_def)
qed

lemma queue_inv_requeue:
  assumes "queue_inv q" and "gm_get (qInFlight q) k = Some msg" and "mID msg' = mID msg"
  shows "queue_inv (q\<lparr>qInFlight := gm_del (qInFlight q) k, qMessages := qMessages q @ [msg']\<rparr>)"
    and "mset (qtracked (q\<lparr>qInFlight := gm_del (qInFlight q) k, qMessages := qMessages q @ [msg']\<rparr>))
       = mset (qtracked q)"
proof -
  let ?q = "q\<lparr>qInFlight := gm_del (qInFlight q) k\<rparr>"
  let ?r = "?q\<lparr>qMessages := qMessages q @ [msg']\<rparr>"
  have wf: "queue_wf q" using assms(1) by (simp add: queue_inv_def)
  have t: "mset (qtracked ?r) = mset (qtracked q)"
    using qtracked_del [OF wf assms(2)] assms(3) by (simp add: qtracked_eq)
  then have d: "distinct (qtracked ?r)"
    using assms(1) distinct_mset_cong [of "qtracked q" "qtracked ?r"] by (simp add: queue_inv_def)
  have "queue_inv ?q" by (rule queue_inv_del [OF assms(1,2)])
  then have "queue_wf ?r" "keys_routed ?r" "groups_small ?r"
    by (simp_all only: queue_inv_def queue_wf_messages keys_routed_simps groups_small_simps)
  with d have inv: "queue_inv ?r" by (simp add: queue_inv_def)
  have "?r = q\<lparr>qInFlight := gm_del (qInFlight q) k, qMessages := qMessages q @ [msg']\<rparr>" by simp
  with inv t show "queue_inv (q\<lparr>qInFlight := gm_del (qInFlight q) k, qMessages := qMessages q @ [msg']\<rparr>)"
    and "mset (qtracked (q\<lparr>qInFlight := gm_del (qInFlight q) k, qMessages := qMessages q @ [msg']\<rparr>))
       = mset (qtracked q)" by (simp_all only:)
qed

lemma ackWithHook_inv:
  assumes "queue_inv q"
  shows "\<exists>ok e q' s'. ackWithHook h k now q s = Some ((ok, e), q', s') \<and> queue_inv q'
     \<and> mset (qtracked q') + mset (if ok then [k] else []) = mset (qtracked q)
     \<and> (\<not> ok \<longrightarrow> q' = q) \<and> (ok \<longrightarrow> e = None)"
proof (cases "gm_get (qInFlight q) k")
  case None
  then show ?thesis using assms by (simp add: ackWithHook_def exI [of _ False])
next
  case (Some msg)
  obtain s' e where h: "run_hook h msg s = (s', e)" by (cases "run_hook h msg s")
  show ?thesis
  proof (cases e)
    case None
    have "queue_inv (q\<lparr>qInFlight := gm_del (qInFlight q) k\<rparr>)" by (rule queue_inv_del [OF assms Some])
    from tryDeliver_inv [OF this, of now] obtain q' where
      "tryDeliver now (q\<lparr>qInFlight := gm_del (qInFlight q) k\<rparr>) = Some q'" "queue_inv q'"
      "mset (qtracked q') = mset (qtracked (q\<lparr>qInFlight := gm_del (qInFlight q) k\<rparr>))" by blast
    moreover have "queue_wf q" using assms by (simp add: queue_inv_def)
    ultimately show ?thesis
      using Some h None qtracked_del(1) [OF _ Some] by (simp add: ackWithHook_def exI [of _ True])
  next
    case (Some e')
    then show ?thesis
      using \<open>gm_get (qInFlight q) k = Some msg\<close> h assms by (simp add: ackWithHook_def exI [of _ False])
  qed
qed

definition gone :: "NackResult \<times> error option \<Rightarrow> bool" where
  \<comment> \<open>the message left the queue: to the dead-letter queue or dropped\<close>
  "gone res \<longleftrightarrow> snd res = None \<and> (nrToDLQ (fst res) \<or> nrDropped (fst res))"

lemma nackWithHooks_eq:
  "nackWithHooks bd br k requeue now q s =
     (case gm_get (qInFlight q) k of
        None \<Rightarrow> Some ((NackNotFound, None), q, s)
      | Some msg \<Rightarrow>
          (let q' = q\<lparr>qInFlight := gm_del (qInFlight q) k\<rparr>; msg' = msg\<lparr>mVisibleAt := now\<rparr> in
           case nack_verdict (qFailurePolicy q) requeue (mAttempt msg) (qMaxRetries q) of
             DeadLetter \<Rightarrow> Some ((NackToDLQ msg, None), q', s)
           | Drop \<Rightarrow>
               (case run_hook bd msg s of
                  (s', Some e) \<Rightarrow> Some ((NackDropped msg, Some e), q, s')
                | (s', None) \<Rightarrow> Some ((NackDropped msg, None), q', s'))
           | Requeue \<Rightarrow>
               (case run_hook br msg' s of
                  (s', Some e) \<Rightarrow> Some ((NackRequeued msg, Some e), q, s')
                | (s', None) \<Rightarrow>
                    map_option (\<lambda>q''. ((NackRequeued msg', None), q'', s'))
                      (tryDeliver now (q'\<lparr>qMessages := qMessages q @ [msg']\<rparr>)))))"
proof (cases "gm_get (qInFlight q) k")
  case (Some msg)
  show ?thesis
    unfolding nackWithHooks_def nack_verdict_def Let_def Some option.case bind_Some_map
    by (cases requeue; cases "qFailurePolicy q = FailurePolicyDLQ";
        cases "qFailurePolicy q = FailurePolicyDrop"; cases "mAttempt msg < qMaxRetries q")
      (simp_all add: not_less [symmetric])
qed (simp add: nackWithHooks_def)

lemma nackWithHooks_inv:
  assumes "queue_inv q"
  shows "\<exists>res q' s'. nackWithHooks bd br k requeue now q s = Some (res, q', s') \<and> queue_inv q'
     \<and> mset (qtracked q') + mset (if gone res then [k] else []) = mset (qtracked q)
     \<and> (snd res \<noteq> None \<longrightarrow> q' = q)"
proof (cases "gm_get (qInFlight q) k")
  case None
  then show ?thesis using assms by (simp add: nackWithHooks_def NackNotFound_def gone_def)
next
  case (Some msg)
  let ?q = "q\<lparr>qInFlight := gm_del (qInFlight q) k\<rparr>"
  let ?m = "msg\<lparr>mVisibleAt := now\<rparr>"
  let ?r = "q\<lparr>qInFlight := gm_del (qInFlight q) k, qMessages := qMessages q @ [?m]\<rparr>"
  have del: "queue_inv ?q" "mset (qtracked q) = add_mset k (mset (qtracked ?q))"
    using queue_inv_del [OF assms Some] qtracked_del(1) [OF _ Some] assms by (simp_all add: queue_inv_def)
  show ?thesis
  proof (cases "nack_verdict (qFailurePolicy q) requeue (mAttempt msg) (qMaxRetries q)")
    case DeadLetter
    with Some del show ?thesis by (simp add: nackWithHooks_eq gone_def NackToDLQ_def)
  next
    case Drop
    obtain s' e where "run_hook bd msg s = (s', e)" by (cases "run_hook bd msg s")
    with Drop Some del assms show ?thesis
      by (cases e) (simp_all add: nackWithHooks_eq gone_def NackDropped_def)
  next
    case Requeue
    have "queue_inv ?r" "mset (qtracked ?r) = mset (qtracked q)"
      by (rule queue_inv_requeue [OF assms Some]; simp)+
    from tryDeliver_inv [OF this(1), of now] this(2) obtain q' where
      "tryDeliver now ?r = Some q'" "queue_inv q'" "mset (qtracked q') = mset (qtracked q)" by auto
    moreover obtain s' e where "run_hook br ?m s = (s', e)" by (cases "run_hook br ?m s")
    ultimately show ?thesis
      using Requeue Some assms
      by (cases e) (simp_all add: nackWithHooks_eq gone_def NackRequeued_def)
  qed
qed

lemma requeue_expired_eq:
  assumes "orders_ok ro" and "queue_wf q"
  shows "requeue_expired ro now q = q\<lparr>
      qInFlight := filter (\<lambda>kv. \<not> mVisibleAt (snd kv) < now) (qInFlight q),
      qMessages := qMessages q @ map (\<lambda>kv. (snd kv)\<lparr>mVisibleAt := now\<rparr>)
        (filter (\<lambda>kv. mVisibleAt (snd kv) < now) (roInFlight ro (qInFlight q)))\<rparr>"
  using requeue_range [of "roInFlight ro" "qInFlight q" "\<lambda>m. mVisibleAt m < now" _ "qMessages q"] assms
  by (simp add: requeue_expired_def queue_wf_def orders_ok_def)

lemma requeue_expired_inv:
  assumes "orders_ok ro" and "queue_inv q"
  shows "queue_inv (requeue_expired ro now q)"
    and "mset (qtracked (requeue_expired ro now q)) = mset (qtracked q)"
proof -
  have wf: "queue_wf q" using assms(2) by (simp add: queue_inv_def)
  note eq = requeue_expired_eq [OF assms(1) wf, of now]
  have "gm_all (\<lambda>k m. mID (m\<lparr>mVisibleAt := now\<rparr>) = k) (qInFlight q)"
    using wf by (simp add: queue_wf_def)
  from requeue_ids [OF _ this, of "roInFlight ro" "qMessages q" "\<lambda>m. mVisibleAt m < now"] assms(1)
  show t: "mset (qtracked (requeue_expired ro now q)) = mset (qtracked q)"
    unfolding qtracked_eq eq by (simp add: orders_ok_def)
  then have d: "distinct (qtracked (requeue_expired ro now q))"
    using assms(2) distinct_mset_cong by (auto simp: queue_inv_def)
  have "queue_wf (requeue_expired ro now q)" "keys_routed (requeue_expired ro now q)"
    "groups_small (requeue_expired ro now q)"
    using queue_wf_inflight_filter [OF wf] assms(2) unfolding eq queue_inv_def
    by (simp_all only: queue_wf_messages keys_routed_simps groups_small_simps)
  with d show "queue_inv (requeue_expired ro now q)" by (simp add: queue_inv_def)
qed

lemma RequeueExpired_inv:
  assumes "orders_ok ro" and "queue_inv q"
  shows "\<exists>q'. RequeueExpired ro now q = Some q' \<and> queue_inv q' \<and> mset (qtracked q') = mset (qtracked q)"
proof -
  from tryDeliver_inv [OF requeue_expired_inv(1) [OF assms], of now now]
  obtain q1 where q1: "tryDeliver now (requeue_expired ro now q) = Some q1" "queue_inv q1"
    "mset (qtracked q1) = mset (qtracked q)" using requeue_expired_inv(2) [OF assms] by auto
  have "\<exists>gs. groups_each (gRequeueExpired (roEntries ro) now) (roGroups ro (qGroups q1)) (qGroups q1) = Some gs
      \<and> gm_wf gs \<and> gm_all (\<lambda>_ g. small_group g) gs"
    using assms(1) q1(2)
    by (intro groups_each_range gRequeueExpired_ex) (simp_all add: orders_ok_def queue_inv_def)
  then obtain gs where gs: "groups_each (gRequeueExpired (roEntries ro) now) (roGroups ro (qGroups q1)) (qGroups q1)
      = Some gs" "gm_wf gs" "gm_all (\<lambda>_ g. small_group g) gs" by blast
  show ?thesis
    using q1 gs queue_inv_groups [OF q1(2) gs(2,3)] by (simp add: RequeueExpired_def)
qed

lemma reap_groups_small:
  assumes "range_order r" and "gm_wf gs" and "gm_all (\<lambda>_ g. small_group g) gs"
    and "\<forall>kg \<in> set kgs. small_group (snd kg)"
  shows "\<exists>dead' gs'. reap_groups r now kgs dead gs = Some (dead', gs') \<and> gm_wf gs'
    \<and> gm_all (\<lambda>_ g. small_group g) gs'"
  using assms(2-4)
proof (induction kgs arbitrary: dead gs)
  case Nil
  then show ?case by simp
next
  case (Cons kg kgs)
  obtain k g where kg: "kg = (k, g)" by (cases kg)
  with Cons.prems(3) ReapDeadMembers_small [OF assms(1), of g now] obtain d g' where
    g': "ReapDeadMembers r now g = Some (d, g')" "small_group g'" by auto
  have "gm_wf (gm_set gs k g')" using Cons.prems(1) by simp
  moreover have "gm_all (\<lambda>_ g. small_group g) (gm_set gs k g')"
    using Cons.prems(2) g'(2) by (simp add: gm_all_set)
  ultimately show ?case using Cons.IH [of "gm_set gs k g'" "dead @ d"] Cons.prems(3) g'(1) kg by simp
qed

lemma ReapDeadGroupMembers_inv:
  assumes "orders_ok ro" and "queue_inv q"
  shows "\<exists>dead q'. ReapDeadGroupMembers ro now q = Some (dead, q') \<and> queue_inv q' \<and> qtracked q' = qtracked q"
proof -
  have "gm_wf (qGroups q)" "gm_all (\<lambda>_ g. small_group g) (qGroups q)"
    using assms(2) by (simp_all add: queue_inv_def groups_small_def)
  moreover have "\<forall>kg \<in> set (roGroups ro (qGroups q)). small_group (snd kg)"
    using assms(1) calculation(2) by (auto simp: orders_ok_def range_order_set gm_all_def)
  ultimately obtain dead gs where gs: "reap_groups (roEntries ro) now (roGroups ro (qGroups q)) [] (qGroups q)
      = Some (dead, gs)" "gm_wf gs" "gm_all (\<lambda>_ g. small_group g) gs"
    using reap_groups_small [of "roEntries ro" "qGroups q" "roGroups ro (qGroups q)" now "[]"] assms(1)
    by (auto simp: orders_ok_def)
  then show ?thesis
    using queue_inv_groups [OF assms(2) gs(2,3)] by (simp add: ReapDeadGroupMembers_def)
qed

lemma tryDeliver_keeps_inflight:
  assumes "queue_wf q" and "tryDeliver now q = Some q'" and "k \<notin> mID ` set (qMessages q)"
  shows "gm_get (qInFlight q') k = gm_get (qInFlight q) k"
proof (cases "qConsumers q = [] \<or> qMessages q = []")
  case True
  then show ?thesis using assms(2) by (auto simp: tryDeliver_def)
next
  case False
  then have live: "live_queue q" and run: "tryDeliver_loop now q = Some q'"
    using assms(1,2) by (auto simp: live_queue_def tryDeliver_def)
  let ?R = "\<lambda>a b. k \<notin> mID ` set (qMessages a) \<longrightarrow>
     k \<notin> mID ` set (qMessages b) \<and> gm_get (qInFlight b) k = gm_get (qInFlight a) k"
  have "?R q q'"
  proof (rule qd.run_rel [OF live run, where R = ?R], goal_cases)
    case (1 a b c)
    then show ?case by metis
  next
    case (2 a b)
    then show ?case
    proof (rule qturn_Some, goal_cases)
      case (1 msg idx ka ni)
      have "mID ` set (qMessages a) = insert (mID msg) (mID ` set (qMessages b))" by (simp add: 1(1))
      moreover have "gm_get (qInFlight b) k = gm_get (qInFlight a) k" if "k \<noteq> mID msg"
        using that by (simp add: 1(5) to_inflight_def)
      ultimately show ?case by simp
    qed
  next
    case (3 a)
    then show ?case by (rule qturn_None) simp
  qed
  with assms(3) show ?thesis by blast
qed

lemma tryDeliver_idle: "qConsumers q = [] \<Longrightarrow> tryDeliver now q = Some q"
  by (simp add: tryDeliver_def)

lemma groups_each_get:
  assumes "distinct (map fst kgs)" and "groups_each f kgs gs = Some gs'"
  shows "gm_get gs' k = (case map_of kgs k of Some g \<Rightarrow> f g | None \<Rightarrow> gm_get gs k)"
  using assms
proof (induction kgs arbitrary: gs)
  case Nil
  then show ?case by simp
next
  case (Cons kg kgs)
  obtain k' g where kg: "kg = (k', g)" by (cases kg)
  with Cons.prems obtain g' where g': "f g = Some g'" "groups_each f kgs (gm_set gs k' g') = Some gs'"
    by (auto split: Option.bind_splits)
  have "map_of kgs k' = None" using Cons.prems(1) kg by (auto simp: map_of_eq_None_iff)
  with Cons.IH [OF _ g'(2)] Cons.prems(1) g'(1) kg show ?case
    by (auto split: option.splits)
qed

section \<open>Consumers come and go\<close>

lemma Dequeue_inv:
  assumes "queue_inv q" and "ch \<notin> cCh ` set (qConsumers q)"
  shows "\<exists>q'. Dequeue ch vt now q = Some q' \<and> queue_inv q' \<and> mset (qtracked q') = mset (qtracked q)"
proof -
  let ?q = "q\<lparr>qConsumers := qConsumers q @ [\<lparr>cCh = ch, cBuf = [], cVisibilityTimeout = vt\<rparr>]\<rparr>"
  have "queue_wf ?q" using assms by (auto simp: queue_inv_def queue_wf_def gm_all_def)
  moreover have "keys_routed ?q" using assms(1) by (auto simp: queue_inv_def keys_routed_def)
  ultimately have "queue_inv ?q" using assms(1) by (simp add: queue_inv_def)
  from tryDeliver_inv [OF this, of now] show ?thesis by (auto simp: Dequeue_def)
qed

lemma consumer_at:
  assumes "distinct (map cCh cs)" and "find_index (\<lambda>c. cCh c = ch) cs = Some i"
  shows "i < length cs" and "cCh (cs ! i) = ch" and "set (remove_at i cs) = {c \<in> set cs. cCh c \<noteq> ch}"
proof -
  show i: "i < length cs" and ch: "cCh (cs ! i) = ch" using find_index_Some [OF assms(2)] by auto
  have split: "cs = take i cs @ cs ! i # drop (Suc i) cs" using i by (rule id_take_nth_drop)
  then have "distinct (map cCh (take i cs @ cs ! i # drop (Suc i) cs))" using assms(1) by simp
  then have "cCh (cs ! i) \<notin> cCh ` (set (take i cs) \<union> set (drop (Suc i) cs))" by auto
  then have "\<forall>c \<in> set (take i cs) \<union> set (drop (Suc i) cs). cCh c \<noteq> ch" using ch imageI by metis
  moreover have "set cs = insert (cs ! i) (set (take i cs) \<union> set (drop (Suc i) cs))"
    by (subst split) simp
  ultimately show "set (remove_at i cs) = {c \<in> set cs. cCh c \<noteq> ch}"
    using ch by (auto simp: remove_at_def)
qed

lemma RemoveConsumer_inv:
  assumes "queue_inv q"
  shows "queue_inv (RemoveConsumer ch q)" and "qtracked (RemoveConsumer ch q) = qtracked q"
proof -
  show "qtracked (RemoveConsumer ch q) = qtracked q"
    by (simp add: RemoveConsumer_def qtracked_eq split: option.splits)
  show "queue_inv (RemoveConsumer ch q)"
  proof (cases "find_index (\<lambda>c. cCh c = ch) (qConsumers q)")
    case None
    then show ?thesis using assms by (simp add: RemoveConsumer_def)
  next
    case (Some i)
    let ?cs = "remove_at i (qConsumers q)"
    let ?ka = "filter (\<lambda>ka. snd ka \<noteq> ch) (qKeyAssignments q)"
    have wf: "queue_wf q" and kr: "keys_routed q" using assms by (simp_all add: queue_inv_def)
    have d: "distinct (map cCh (qConsumers q))" and w: "gm_wf (qKeyAssignments q)"
      using wf by (simp_all add: queue_wf_def)
    note c = consumer_at [OF d Some]
    have wka: "gm_wf ?ka" using w by (simp add: distinct_map_filter)
    have "queue_wf (q\<lparr>qKeyAssignments := ?ka, qConsumers := ?cs\<rparr>)"
      using wf wka c(3) distinct_remove_at [OF d, of i]
      by (fastforce simp: queue_wf_def gm_all_def)
    moreover have "keys_routed (q\<lparr>qKeyAssignments := ?ka, qConsumers := ?cs\<rparr>)"
      using kr w wka c(3) by (auto simp: keys_routed_def gm_get_in_set)
    ultimately show ?thesis
      using assms Some by (simp add: RemoveConsumer_def queue_inv_def)
  qed
qed

lemma receive_inv:
  assumes "queue_inv q"
  shows "queue_inv (snd (receive ch q))" and "qtracked (snd (receive ch q)) = qtracked q"
proof -
  show "qtracked (snd (receive ch q)) = qtracked q"
    by (simp add: receive_def split: option.splits list.splits)
  show "queue_inv (snd (receive ch q))"
  proof (cases "find_index (\<lambda>c. cCh c = ch) (qConsumers q)")
    case None
    then show ?thesis using assms by (simp add: receive_def)
  next
    case (Some i)
    show ?thesis
    proof (cases "cBuf (qConsumers q ! i)")
      case Nil
      then show ?thesis using assms Some by (simp add: receive_def)
    next
      case (Cons m ms)
      let ?c = "(qConsumers q ! i)\<lparr>cBuf := ms\<rparr>"
      let ?q = "q\<lparr>qConsumers := (qConsumers q)[i := ?c]\<rparr>"
      have i: "i < length (qConsumers q)" using find_index_Some [OF Some] by simp
      then have in_cs: "qConsumers q ! i \<in> set (qConsumers q)" by simp
      have wf: "queue_wf q" and kr: "keys_routed q" using assms by (simp_all add: queue_inv_def)
      have "length (cBuf (qConsumers q ! i)) \<le> chanCap" using wf in_cs by (simp add: queue_wf_def)
      then have b: "length ms \<le> chanCap" using Cons by simp
      have chs: "map cCh ((qConsumers q)[i := ?c]) = map cCh (qConsumers q)"
        using i by (simp add: map_update list_update_same_conv)
      then have "cCh ` set ((qConsumers q)[i := ?c]) = cCh ` set (qConsumers q)"
        by (metis list.set_map)
      then have "queue_wf ?q"
        using wf b chs by (auto simp: queue_wf_def dest!: set_update_subset_insert [THEN subsetD])
      moreover have "keys_routed ?q"
        using kr in_cs Cons
        by (fastforce simp: keys_routed_def dest!: set_update_subset_insert [THEN subsetD])
      ultimately show ?thesis
        using assms Some Cons by (simp add: receive_def queue_inv_def)
    qed
  qed
qed

section \<open>Administrative operations\<close>

lemma ExtendVisibility_inv:
  assumes "queue_inv q"
  shows "queue_inv (snd (ExtendVisibility k ext now q))"
    and "mset (qtracked (snd (ExtendVisibility k ext now q))) = mset (qtracked q)"
proof -
  show t: "mset (qtracked (snd (ExtendVisibility k ext now q))) = mset (qtracked q)"
  proof (cases "gm_get (qInFlight q) k")
    case (Some m)
    then have "k \<in> fst ` set (qInFlight q)" by (metis image_eqI fst_conv map_of_SomeD)
    with Some show ?thesis
      by (simp add: ExtendVisibility_def qtracked_eq AList.update_keys)
  qed (simp add: ExtendVisibility_def)
  have "mID m = k" if "gm_get (qInFlight q) k = Some m" for m
    using assms that gm_all_get [of _ "qInFlight q" k m] unfolding queue_inv_def queue_wf_def by blast
  then have "queue_wf (snd (ExtendVisibility k ext now q))"
    using assms by (auto simp: ExtendVisibility_def queue_inv_def intro!: queue_wf_inflight_set split: option.splits)
  then show "queue_inv (snd (ExtendVisibility k ext now q))"
    using assms t distinct_mset_cong
    by (auto simp: queue_inv_def ExtendVisibility_def split: option.splits)
qed

lemma Remove_inv:
  assumes "queue_inv q"
  shows "\<exists>ok q'. Remove k q = (ok, q') \<and> queue_inv q'
     \<and> mset (qtracked q') + mset (if ok then [k] else []) = mset (qtracked q)"
proof (cases "find_index (\<lambda>m. mID m = k) (qMessages q)")
  case None
  then show ?thesis
    using assms queue_inv_del [OF assms, of k] qtracked_del(1) [of q k]
    by (cases "gm_get (qInFlight q) k")
      (simp_all add: Remove_def queue_inv_def exI [of _ False] exI [of _ True])
next
  case (Some i)
  let ?q = "q\<lparr>qMessages := remove_at i (qMessages q)\<rparr>"
  have i: "i < length (qMessages q)" "mID (qMessages q ! i) = k" using find_index_Some [OF Some] by auto
  have t: "mset (qtracked q) = add_mset k (mset (qtracked ?q))"
    using mset_remove_at [OF i(1)] i(2) by (simp add: qtracked_eq)
  then have "distinct (k # qtracked ?q)"
    using assms distinct_mset_cong [of "qtracked q" "k # qtracked ?q"] by (simp add: queue_inv_def)
  then have "queue_inv ?q" using assms by (simp add: queue_inv_def)
  with Some t show ?thesis by (simp add: Remove_def exI [of _ True])
qed

lemma Purge_inv:
  assumes "queue_inv q"
  shows "queue_inv (snd (Purge q))" and "qtracked (snd (Purge q)) = []"
    and "fst (Purge q) = length (qtracked q)"
  using assms by (simp_all add: Purge_def queue_inv_def qtracked_eq queue_wf_def)

section \<open>The queue as a machine\<close>

datatype queue_op =
    QEnqueue message
  | QDequeue nat duration
  | QRemoveConsumer nat
  | QReceive nat
  | QAck string
  | QNack string bool
  | QRequeueExpired
  | QReapDeadGroupMembers
  | QExtendVisibility string duration
  | QRemove string
  | QPurge

definition qstep :: "range_orders \<times> time \<times> queue_op \<Rightarrow> Queue \<Rightarrow> (string list \<times> string list \<times> Queue) go" where
  "qstep call q = (case call of (ro, now, op) \<Rightarrow>
     (case op of
        QEnqueue msg \<Rightarrow>
          map_option (\<lambda>(err, q'). (if err = None then [mID msg] else [], [], q')) (Enqueue ro msg now q)
      | QDequeue ch vt \<Rightarrow> map_option (\<lambda>q'. ([], [], q')) (Dequeue ch vt now q)
      | QRemoveConsumer ch \<Rightarrow> Some ([], [], RemoveConsumer ch q)
      | QReceive ch \<Rightarrow> Some ([], [], snd (receive ch q))
      | QAck k \<Rightarrow> map_option (\<lambda>(ok, q'). ([], if ok then [k] else [], q')) (Ack k now q)
      | QNack k requeue \<Rightarrow>
          map_option (\<lambda>(res, q'). ([], if nrToDLQ res \<or> nrDropped res then [k] else [], q'))
            (Nack k requeue now q)
      | QRequeueExpired \<Rightarrow> map_option (\<lambda>q'. ([], [], q')) (RequeueExpired ro now q)
      | QReapDeadGroupMembers \<Rightarrow> map_option (\<lambda>(_, q'). ([], [], q')) (ReapDeadGroupMembers ro now q)
      | QExtendVisibility k ext \<Rightarrow> Some ([], [], snd (ExtendVisibility k ext now q))
      | QRemove k \<Rightarrow> (case Remove k q of (ok, q') \<Rightarrow> Some ([], if ok then [k] else [], q'))
      | QPurge \<Rightarrow> Some ([], qtracked q, snd (Purge q))))"

definition qenabled :: "range_orders \<times> time \<times> queue_op \<Rightarrow> Queue \<Rightarrow> bool" where
  \<comment> \<open>message ids and channels are fresh\<close>
  "qenabled call q \<longleftrightarrow>
     (case snd (snd call) of
        QEnqueue msg \<Rightarrow> mID msg \<notin> set (qtracked q)
      | QDequeue ch _ \<Rightarrow> ch \<notin> cCh ` set (qConsumers q)
      | _ \<Rightarrow> True)"

lemma qstep_ok:
  assumes ro: "orders_ok ro" and q: "queue_inv q" and en: "qenabled (ro, now, op) q"
  shows "\<exists>a d q'. qstep (ro, now, op) q = Some (a, d, q') \<and> queue_inv q'
    \<and> mset (qtracked q') + mset d = mset (qtracked q) + mset a"
proof (cases op)
  case (QEnqueue msg)
  then have "mID msg \<notin> set (qtracked q)" using en by (simp add: qenabled_def)
  from EnqueueDirect_inv [OF ro q this, of now] QEnqueue q show ?thesis
    by (auto simp: qstep_def Enqueue_eq)
next
  case (QDequeue ch vt)
  with en Dequeue_inv [OF q, of ch vt now] show ?thesis by (auto simp: qstep_def qenabled_def)
next
  case (QRemoveConsumer ch)
  with RemoveConsumer_inv [OF q, of ch] show ?thesis by (simp add: qstep_def)
next
  case (QReceive ch)
  with receive_inv [OF q, of ch] show ?thesis by (simp add: qstep_def)
next
  case (QAck k)
  from ackWithHook_inv [OF q, of None k now "()"] obtain ok e q' s' where
    "ackWithHook None k now q () = Some ((ok, e), q', s')" "queue_inv q'"
    "mset (qtracked q') + mset (if ok then [k] else []) = mset (qtracked q)" by blast
  with QAck show ?thesis by (simp add: qstep_def Ack_def)
next
  case (QNack k rq)
  from nackWithHooks_inv [OF q, of None None k rq now "()"] obtain res e q' s' where
    n: "nackWithHooks None None k rq now q () = Some ((res, e), q', s')" "queue_inv q'"
    "mset (qtracked q') + mset (if gone (res, e) then [k] else []) = mset (qtracked q)" by auto
  have "e = None" using n(1) by (auto simp: nackWithHooks_eq Let_def split: option.splits verdict.splits)
  with n QNack show ?thesis by (simp add: qstep_def Nack_def gone_def)
next
  case QRequeueExpired
  with RequeueExpired_inv [OF ro q, of now] show ?thesis by (auto simp: qstep_def)
next
  case QReapDeadGroupMembers
  with ReapDeadGroupMembers_inv [OF ro q, of now] show ?thesis by (auto simp: qstep_def)
next
  case (QExtendVisibility k ext)
  with ExtendVisibility_inv [OF q, of k ext now] show ?thesis by (simp add: qstep_def)
next
  case (QRemove k)
  from Remove_inv [OF q, of k] obtain ok q' where "Remove k q = (ok, q')" "queue_inv q'"
    "mset (qtracked q') + mset (if ok then [k] else []) = mset (qtracked q)" by blast
  with QRemove show ?thesis by (simp add: qstep_def)
next
  case QPurge
  with Purge_inv [OF q] show ?thesis by (simp add: qstep_def)
qed

interpretation wq: work_queue queue_inv qtracked "\<lambda>call q. orders_ok (fst call) \<and> qenabled call q" qstep
  by unfold_locales (auto intro: qstep_ok)

lemma queue_inv_NewQueue: "queue_inv (NewQueue name)"
  by (simp add: queue_inv_def queue_wf_def keys_routed_def groups_small_def qtracked_eq NewQueue_def)

lemma qtracked_NewQueue [simp]: "qtracked (NewQueue name) = []"
  by (simp add: qtracked_eq NewQueue_def)

lemma gNackWithHooks_eq:
  "gNackWithHooks bd k requeue maxRetries policy now g s =
     (case gm_get (gInFlight g) k of
        None \<Rightarrow> Some ((NackNotFound, None), g, s)
      | Some entry \<Rightarrow>
          (let g' = g\<lparr>gInFlight := gm_del (gInFlight g) k\<rparr>; msg = ieMsg entry; msg' = msg\<lparr>mVisibleAt := now\<rparr> in
           case nack_verdict policy requeue (mAttempt msg) maxRetries of
             DeadLetter \<Rightarrow> Some ((NackToDLQ msg, None), g', s)
           | Drop \<Rightarrow>
               (case run_hook bd msg s of
                  (s', Some e) \<Rightarrow> Some ((NackDropped msg, Some e), g, s')
                | (s', None) \<Rightarrow> Some ((NackDropped msg, None), g', s'))
           | Requeue \<Rightarrow>
               map_option (\<lambda>g''. ((NackRequeued msg', None), g'', s))
                 (gtryDeliver now (g'\<lparr>gMessages := gMessages g @ [msg']\<rparr>))))"
proof (cases "gm_get (gInFlight g) k")
  case None
  show ?thesis unfolding gNackWithHooks_def None option.case ..
next
  case (Some entry)
  show ?thesis
    unfolding gNackWithHooks_def nack_verdict_def Let_def Some option.case bind_Some_map
    by (cases requeue; cases "policy = FailurePolicyDLQ"; cases "policy = FailurePolicyDrop";
        cases "mAttempt (ieMsg entry) < maxRetries")
      (simp_all add: not_less [symmetric])
qed

end
