(* ===== verification/Queue_Props.thy ===== *)
theory Queue_Props
  imports Queue_Laws
begin

text \<open>The properties of queue mode and of its interplay with consumer groups.\<close>


definition some_orders :: range_orders where
  "some_orders = \<lparr>roInFlight = rev, roGroups = rev, roEntries = rev\<rparr>"

lemma orders_ok_some [simp]: "orders_ok some_orders"
  by (simp add: orders_ok_def some_orders_def)

definition some_queue_calls :: "(range_orders \<times> time \<times> queue_op) list" where
  "some_queue_calls = map (\<lambda>(t, op). (some_orders, t, op))
     [(1, QEnqueue (sample_message ''m1'')), (2, QDequeue 0 10), (3, QReceive 0),
      (4, QEnqueue ((sample_message ''m2'')\<lparr>mOrderingKey := ''k''\<rparr>)), (5, QNack ''m1'' True),
      (6, QReceive 0), (20, QRequeueExpired), (21, QAck ''m2''), (22, QRemoveConsumer 0)]"



definition busy_queue :: Queue where
  "busy_queue = (NewQueue ''q'')\<lparr>qMessages := map sample_message [''m1'', ''m2''],
     qConsumers := [\<lparr>cCh = 0, cBuf = [], cVisibilityTimeout = 10\<rparr>]\<rparr>"


text \<open>C13. An ordering key has one consumer at a time: after any sequence of calls, unread messages with
  the same key are in the channel of one and the same consumer, and delivery never rebinds a key.\<close>

theorem ordering_key_one_consumer:
  assumes "\<forall>call \<in> set calls. orders_ok (fst call)"
    and "all_enabled qenabled qstep calls (NewQueue name)"
    and "run_ops qstep calls (NewQueue name) = Some (accepted, settled, q)"
    and "c \<in> set (qConsumers q)" and "c' \<in> set (qConsumers q)"
    and "m \<in> set (cBuf c)" and "m' \<in> set (cBuf c')"
    and "mOrderingKey m = mOrderingKey m'" and "mOrderingKey m \<noteq> []"
  shows "c = c' \<and> (\<forall>now. \<exists>q'. tryDeliver now q = Some q' \<and> keeps_keys (qKeyAssignments q) (qKeyAssignments q'))"
proof -
  have inv: "queue_inv q"
    using wq.run_conserves [OF queue_inv_NewQueue all_enabled_conj [OF assms(1,2)] assms(3)] by blast
  have "gm_get (qKeyAssignments q) (mOrderingKey m) = Some (cCh c)"
    "gm_get (qKeyAssignments q) (mOrderingKey m) = Some (cCh c')"
    using inv assms(4-9) unfolding queue_inv_def keys_routed_def by metis+
  then have "cCh c = cCh c'" by simp
  moreover have "distinct (map cCh (qConsumers q))" using inv by (simp add: queue_inv_def queue_wf_def)
  ultimately have "c = c'" using assms(4,5) by (simp add: distinct_map inj_on_def)
  moreover have "\<exists>q'. tryDeliver now q = Some q' \<and> keeps_keys (qKeyAssignments q) (qKeyAssignments q')" for now
    using tryDeliver_inv [OF inv, of now] by (auto simp: same_frame_def)
  ultimately show ?thesis by blast
qed

definition keyed_calls :: "(range_orders \<times> time \<times> queue_op) list" where
  "keyed_calls = map (\<lambda>(t, op). (some_orders, t, op))
     [(1, QDequeue 0 10), (2, QDequeue 1 10), (3, QEnqueue ((sample_message ''m1'')\<lparr>mOrderingKey := ''k''\<rparr>))]"

theorem ordering_key_one_consumer_witness:
  "\<exists>q c. run_ops qstep keyed_calls (NewQueue ''q'') = Some ([''m1''], [], q)
     \<and> c \<in> set (qConsumers q) \<and> cBuf c \<noteq> []
     \<and> (\<forall>now. \<exists>q'. tryDeliver now q = Some q' \<and> keeps_keys (qKeyAssignments q) (qKeyAssignments q'))"
proof -
  have "map_option (\<lambda>(a, d, q). (a, d, map (\<lambda>c. map mOrderingKey (cBuf c)) (qConsumers q)))
      (run_ops qstep keyed_calls (NewQueue ''q'')) = Some ([''m1''], [], [[''k''], []])"
    by code_simp
  then obtain q where q: "run_ops qstep keyed_calls (NewQueue ''q'') = Some ([''m1''], [], q)"
    "map (\<lambda>c. map mOrderingKey (cBuf c)) (qConsumers q) = [[''k''], []]" by auto
  then obtain c rest m where c: "qConsumers q = c # rest" "cBuf c = [m]" "mOrderingKey m = ''k''" by auto
  have en: "all_enabled qenabled qstep keyed_calls (NewQueue ''q'')" by code_simp
  have ro: "\<forall>call \<in> set keyed_calls. orders_ok (fst call)" by (auto simp: keyed_calls_def)
  from ordering_key_one_consumer [OF ro en q(1), of c c m m] c q(1) show ?thesis by auto
qed

text \<open>C18. The queue respects its capacity: a publish is refused with \<open>ErrQueueFull\<close>, and changes nothing,
  exactly when a limit is set and the pending messages have reached it; otherwise the message is held
  afterwards and the pending messages are within the limit.\<close>

theorem enqueue_respects_capacity:
  assumes "orders_ok ro" and "queue_inv q" and "mID msg \<notin> set (qtracked q)"
  shows "\<exists>err q'. Enqueue ro msg now q = Some (err, q')
     \<and> (err = None \<longleftrightarrow> \<not> (0 < qMaxSize q \<and> qMaxSize q \<le> int (Len q)))
     \<and> (err \<noteq> None \<longrightarrow> err = Some ErrQueueFull \<and> q' = q)
     \<and> (err = None \<longrightarrow> mID msg \<in> set (qtracked q') \<and> (0 < qMaxSize q \<longrightarrow> int (Len q') \<le> qMaxSize q))"
proof (cases "0 < qMaxSize q \<and> qMaxSize q \<le> int (length (qMessages q))")
  case True
  then show ?thesis by (simp add: Enqueue_eq Len_def)
next
  case False
  from EnqueueDirect_inv [OF assms, of now] obtain q' where q': "EnqueueDirect ro msg now q = Some q'"
    "mset (qtracked q') = add_mset (mID msg) (mset (qtracked q))" by blast
  then have "set_mset (mset (qtracked q')) = insert (mID msg) (set (qtracked q))" by simp
  then have held: "mID msg \<in> set (qtracked q')" by simp
  let ?q = "q\<lparr>qMessages := qMessages q @ [msg]\<rparr>"
  have "queue_wf ?q" using assms(2) by (simp add: queue_inv_def)
  then obtain q1 ds where q1: "tryDeliver now ?q = Some q1" "qMessages ?q = ds @ qMessages q1"
    by (rule tryDeliver_wf [of ?q now])
  have "qMessages q' = qMessages q1" using q'(1) q1(1) by (auto simp: EnqueueDirect_def split: Option.bind_splits)
  moreover have "length (qMessages ?q) = length ds + length (qMessages q1)" using q1(2) by (metis length_append)
  ultimately have "length (qMessages q') \<le> length (qMessages q) + 1" by simp
  with False q'(1) held show ?thesis by (auto simp: Enqueue_eq Len_def)
qed

lemma queue_inv_busy: "queue_inv busy_queue"
  by (simp add: queue_inv_def queue_wf_def keys_routed_def groups_small_def qtracked_eq
    busy_queue_def NewQueue_def chanCap_def sample_message_def)

theorem enqueue_respects_capacity_witness:
  "\<exists>err q'. Enqueue some_orders (sample_message ''m3'') 5 busy_queue = Some (err, q')
     \<and> (err = None \<longrightarrow> ''m3'' \<in> set (qtracked q') \<and> int (Len q') \<le> 10000)"
  using enqueue_respects_capacity [OF orders_ok_some queue_inv_busy, of "sample_message ''m3''" 5]
  by (auto simp: busy_queue_def NewQueue_def DefaultMaxQueueSize_def qtracked_eq sample_message_def)

lemma RequeueExpired_unexpired:
  assumes "orders_ok ro" and "queue_inv q" and "RequeueExpired ro now q = Some q'"
    and k: "gm_get (qInFlight q) k = Some m" "now \<le> mVisibleAt m"
  shows "gm_get (qInFlight q') k = Some m"
proof -
  have wf: "queue_wf q" and w: "gm_wf (qInFlight q)" using assms(2) by (simp_all add: queue_inv_def queue_wf_def)
  note eq = requeue_expired_eq [OF assms(1) wf, of now]
  let ?e = "requeue_expired ro now q"
  have inv: "queue_inv ?e" by (rule requeue_expired_inv(1) [OF assms(1,2)])
  have we: "gm_wf (qInFlight ?e)" using w by (simp add: eq distinct_map_filter)
  obtain q1 where q1: "tryDeliver now ?e = Some q1" "qInFlight q' = qInFlight q1"
    using assms(3) by (auto simp: RequeueExpired_def split: Option.bind_splits)
  have get: "gm_get (qInFlight ?e) k = Some m"
    using k w we by (simp add: eq gm_get_in_set)
  then have "k \<in> set (gm_keys (qInFlight ?e))" using we by (force simp: gm_get_in_set)
  moreover have "distinct (qtracked ?e)" using inv by (simp add: queue_inv_def)
  ultimately have "k \<notin> mID ` set (qMessages ?e)" by (auto simp: qtracked_eq)
  with q1 get show ?thesis
    using tryDeliver_keeps_inflight [OF _ q1(1)] inv by (simp add: queue_inv_def)
qed


definition expired_queue :: Queue where
  "expired_queue = (NewQueue ''q'')\<lparr>qInFlight :=
     [(''m1'', (sample_message ''m1'')\<lparr>mVisibleAt := 10\<rparr>), (''m2'', (sample_message ''m2'')\<lparr>mVisibleAt := 99\<rparr>)]\<rparr>"

lemma queue_inv_expired: "queue_inv expired_queue"
  by (simp add: queue_inv_def queue_wf_def keys_routed_def groups_small_def qtracked_eq
    expired_queue_def NewQueue_def sample_message_def)


text \<open>C21. Extending a visibility timeout protects the message: after \<open>ExtendVisibility\<close> on a message in
  flight, it is still in flight, with unchanged attempt count, after any later expiry run up to the new
  deadline, which is the one the caller was told; an unknown id changes nothing.\<close>

theorem extension_protects_message:
  assumes "orders_ok ro" and "queue_inv q" and "gm_get (qInFlight q) k = Some m"
    and "now' \<le> now + ext"
  shows "fst (ExtendVisibility k ext now q) = now + ext
     \<and> (\<exists>q'. RequeueExpired ro now' (snd (ExtendVisibility k ext now q)) = Some q'
          \<and> gm_get (qInFlight q') k = Some (m\<lparr>mVisibleAt := now + ext\<rparr>))
     \<and> (\<forall>k'. gm_get (qInFlight q) k' = None \<longrightarrow> ExtendVisibility k' ext now q = (zero_time, q))"
proof -
  let ?q = "snd (ExtendVisibility k ext now q)"
  have inv: "queue_inv ?q" by (rule ExtendVisibility_inv(1) [OF assms(2)])
  have w: "gm_wf (qInFlight q)" using assms(2) by (simp add: queue_inv_def queue_wf_def)
  have "gm_get (qInFlight ?q) k = Some (m\<lparr>mVisibleAt := now + ext\<rparr>)"
    unfolding ExtendVisibility_def assms(3) option.case by simp
  moreover obtain q' where q': "RequeueExpired ro now' ?q = Some q'" using RequeueExpired_inv [OF assms(1) inv] by blast
  ultimately have "gm_get (qInFlight q') k = Some (m\<lparr>mVisibleAt := now + ext\<rparr>)"
    using RequeueExpired_unexpired [OF assms(1) inv q'] assms(4) by simp
  with q' show ?thesis
    unfolding ExtendVisibility_def assms(3) option.case by simp
qed

theorem extension_protects_message_witness:
  "fst (ExtendVisibility ''m1'' 100 5 expired_queue) = 105
     \<and> (\<exists>q'. RequeueExpired some_orders 50 (snd (ExtendVisibility ''m1'' 100 5 expired_queue)) = Some q'
          \<and> gm_get (qInFlight q') ''m1'' = Some ((sample_message ''m1'')\<lparr>mVisibleAt := 105\<rparr>))"
  using extension_protects_message [OF orders_ok_some queue_inv_expired,
      of "''m1''" "(sample_message ''m1'')\<lparr>mVisibleAt := 10\<rparr>" 50 5 100]
  by (simp add: expired_queue_def NewQueue_def)

lemma nack_queue_verdict:
  assumes "queue_inv q" and "gm_get (qInFlight q) k = Some msg"
    and v: "v = nack_verdict (qFailurePolicy q) requeue (mAttempt msg) (qMaxRetries q)"
  shows "\<exists>res e q' s'. nackWithHooks bd br k requeue now q s = Some ((res, e), q', s')
       \<and> (nrToDLQ res \<longleftrightarrow> v = DeadLetter) \<and> (nrDropped res \<longleftrightarrow> v = Drop) \<and> (e \<noteq> None \<longrightarrow> q' = q)
       \<and> (e = None \<longrightarrow> (k \<in> set (qtracked q') \<longleftrightarrow> v = Requeue))"
proof -
  from nackWithHooks_inv [OF assms(1), of bd br k requeue now s] obtain res e q' s' where
    n: "nackWithHooks bd br k requeue now q s = Some ((res, e), q', s')"
      "mset (qtracked q') + mset (if gone (res, e) then [k] else []) = mset (qtracked q)"
      "e \<noteq> None \<longrightarrow> q' = q" by auto
  have r: "(nrToDLQ res \<longleftrightarrow> v = DeadLetter) \<and> (nrDropped res \<longleftrightarrow> v = Drop)"
  proof -
    let ?m = "msg\<lparr>mVisibleAt := now\<rparr>"
    note eq = nackWithHooks_eq [of bd br k requeue now q s, unfolded assms(2) option.case Let_def v [symmetric] n(1), symmetric]
    obtain sd ed where bd: "run_hook bd msg s = (sd, ed)" by (cases "run_hook bd msg s")
    obtain sr er where br: "run_hook br ?m s = (sr, er)" by (cases "run_hook br ?m s")
    show ?thesis
    proof (cases v)
      case DeadLetter
      with eq have "res = NackToDLQ msg" by simp
      with DeadLetter show ?thesis by (simp add: NackToDLQ_def)
    next
      case Drop
      with eq bd have "res = NackDropped msg" by (cases ed) simp_all
      with Drop show ?thesis by (simp add: NackDropped_def)
    next
      case Requeue
      have "res = NackRequeued msg \<or> res = NackRequeued ?m"
      proof (cases er)
        case None
        with eq [unfolded Requeue verdict.case br] have
          "map_option (\<lambda>q''. ((NackRequeued ?m, None), q'', sr))
             (tryDeliver now (q\<lparr>qInFlight := gm_del (qInFlight q) k, qMessages := qMessages q @ [?m]\<rparr>))
           = Some ((res, e), q', s')" by simp
        then show ?thesis by (simp add: map_option_eq_Some)
      next
        case (Some e')
        with eq [unfolded Requeue verdict.case br] show ?thesis by simp
      qed
      then show ?thesis using Requeue by (elim disjE) (simp_all add: NackRequeued_def)
    qed
  qed
  have "k \<in> fst ` set (qInFlight q)" using map_of_SomeD [OF assms(2)] by (metis fst_conv imageI)
  then have k: "k \<in> set (qtracked q)" "distinct (qtracked q)"
    using assms(1) by (simp_all add: qtracked_eq queue_inv_def)
  have "k \<in> set (qtracked q') \<longleftrightarrow> \<not> gone (res, e)"
  proof (cases "gone (res, e)")
    case True
    with n(2) have "mset (k # qtracked q') = mset (qtracked q)" by simp
    then have "distinct (k # qtracked q')" by (rule distinct_mset_cong [OF k(2)])
    with True show ?thesis by simp
  next
    case False
    with n(2) have "mset (qtracked q') = mset (qtracked q)" by simp
    then have "set (qtracked q') = set (qtracked q)" by (rule mset_eq_setD)
    with False k(1) show ?thesis by simp
  qed
  moreover have "e = None \<Longrightarrow> gone (res, e) \<longleftrightarrow> v \<noteq> Requeue"
    using r by (cases v) (simp_all add: gone_def)
  ultimately have "e = None \<longrightarrow> (k \<in> set (qtracked q') \<longleftrightarrow> v = Requeue)" by blast
  with n(1,3) r show ?thesis by blast
qed

lemma nack_group_verdict:
  assumes "small_group g" and "gm_get (gInFlight g) k = Some entry"
    and v: "v = nack_verdict policy requeue (mAttempt (ieMsg entry)) maxRetries"
  shows "\<exists>res e g' s'. gNackWithHooks bd k requeue maxRetries policy now g s = Some ((res, e), g', s')
       \<and> (nrToDLQ res \<longleftrightarrow> v = DeadLetter) \<and> (nrDropped res \<longleftrightarrow> v = Drop)"
proof -
  let ?r = "g\<lparr>gInFlight := gm_del (gInFlight g) k, gMessages := gMessages g @ [(ieMsg entry)\<lparr>mVisibleAt := now\<rparr>]\<rparr>"
  have "small_group ?r" using small_group_del [OF assms(1), of k] by (simp add: small_group_def group_wf_def)
  then obtain g' where g': "gtryDeliver now ?r = Some g'" by (rule gtryDeliver_small)
  obtain s' e where h: "run_hook bd (ieMsg entry) s = (s', e)" by (cases "run_hook bd (ieMsg entry) s")
  show ?thesis
    unfolding gNackWithHooks_eq assms(2) Let_def option.case v [symmetric]
    using g' h by (cases v; cases e) (simp_all add: nack_result_defs)
qed


definition small_sample_group :: ConsumerGroup where
  "small_sample_group = (NewConsumerGroup ''g'' ''q'')\<lparr>gInFlight :=
     [(''m9'', \<lparr>ieMsg = (sample_message ''m9'')\<lparr>mAttempt := 5\<rparr>, ieMemberID = ''a''\<rparr>)]\<rparr>"


lemma EnqueueDirect_groups:
  assumes "orders_ok ro" and "queue_inv q" and "EnqueueDirect ro msg now q = Some q'"
    and "gm_get (qGroups q) name = Some g"
  shows "\<exists>g'. gm_get (qGroups q') name = Some g' \<and> set (gtracked g') = insert (mID msg) (set (gtracked g))"
proof -
  let ?q = "q\<lparr>qMessages := qMessages q @ [msg]\<rparr>"
  from assms(3) obtain q1 gs where q1: "tryDeliver now ?q = Some q1"
    "fan_out msg now (roGroups ro (qGroups q1)) (qGroups q1) = Some gs" "qGroups q' = gs"
    by (auto simp: EnqueueDirect_def split: Option.bind_splits)
  have "queue_wf ?q" using assms(2) by (simp add: queue_inv_def)
  then have "same_frame ?q q1" using q1(1) by (metis option.inject tryDeliver_wf)
  then have gr: "qGroups q1 = qGroups q" by (simp add: same_frame_def)
  have ro: "range_order (roGroups ro)" and w: "gm_wf (qGroups q)"
    using assms(1,2) by (simp_all add: orders_ok_def queue_inv_def groups_small_def)
  have "map_of (roGroups ro (qGroups q)) name = Some g"
    using ro w assms(4) by (simp only: range_order_map_of)
  then have "gm_get gs name = gEnqueue msg now g"
    using groups_each_get [OF _ q1(2) [unfolded fan_out_eq gr], of name] ro w
    by (simp add: range_order_distinct)
  moreover have "small_group g"
    using assms(2,4) gm_all_get [of "\<lambda>_ g. small_group g" "qGroups q" name g]
    unfolding queue_inv_def groups_small_def by blast
  ultimately show ?thesis unfolding q1(3) by (elim gEnqueue_small [of g msg now]) simp
qed


definition grouped_queue :: Queue where
  "grouped_queue = (NewQueue ''q'')\<lparr>qGroups := [(''g'', NewConsumerGroup ''g'' ''q''), (''h'', small_sample_group)]\<rparr>"

lemma queue_inv_grouped: "queue_inv grouped_queue"
  by (simp add: queue_inv_def queue_wf_def keys_routed_def groups_small_def qtracked_eq grouped_queue_def
    NewQueue_def small_sample_group_def NewConsumerGroup_def small_group_def group_wf_def sample_message_def)


text \<open>A queue that only groups consume fills up: without a direct consumer, every accepted publish stays
  in the queue's own pending list, whatever the groups have acknowledged, and once the limit is reached every
  further publish is refused.\<close>

theorem group_only_queue_fills_up:
  assumes "orders_ok ro" and "queue_inv q" and "qConsumers q = []" and "0 < qMaxSize q"
  shows "(int (Len q) < qMaxSize q \<longrightarrow>
        (\<exists>q'. Enqueue ro msg now q = Some (None, q') \<and> qMessages q' = qMessages q @ [msg] \<and> qConsumers q' = []))
     \<and> (qMaxSize q \<le> int (Len q) \<longrightarrow>
        (\<forall>gs. Enqueue ro msg now (q\<lparr>qGroups := gs\<rparr>) = Some (Some ErrQueueFull, q\<lparr>qGroups := gs\<rparr>)))"
proof -
  let ?q = "q\<lparr>qMessages := qMessages q @ [msg]\<rparr>"
  have t: "tryDeliver now ?q = Some ?q" using assms(3) by (intro tryDeliver_idle) simp
  have "\<exists>gs. groups_each (gEnqueue msg now) (roGroups ro (qGroups q)) (qGroups q) = Some gs
      \<and> gm_wf gs \<and> gm_all (\<lambda>_ g. small_group g) gs"
    using assms(1,2) by (intro groups_each_range gEnqueue_ex) (simp_all add: orders_ok_def queue_inv_def)
  then obtain gs where "fan_out msg now (roGroups ro (qGroups q)) (qGroups q) = Some gs"
    by (auto simp: fan_out_eq)
  then have "EnqueueDirect ro msg now q = Some (?q\<lparr>qGroups := gs\<rparr>)" using t by (simp add: EnqueueDirect_def)
  then show ?thesis using assms(3,4) by (simp add: Enqueue_eq Len_def)
qed

theorem group_only_queue_fills_up_witness:
  "\<forall>gs. Enqueue some_orders (sample_message ''m1'') 5 (expired_queue\<lparr>qMessages := [sample_message ''m0''], qMaxSize := 1, qGroups := gs\<rparr>)
     = Some (Some ErrQueueFull, expired_queue\<lparr>qMessages := [sample_message ''m0''], qMaxSize := 1, qGroups := gs\<rparr>)"
proof -
  let ?q = "expired_queue\<lparr>qMessages := [sample_message ''m0''], qMaxSize := 1\<rparr>"
  have "queue_inv ?q"
    by (simp add: queue_inv_def queue_wf_def keys_routed_def groups_small_def qtracked_eq
      expired_queue_def NewQueue_def sample_message_def)
  from group_only_queue_fills_up [OF orders_ok_some this, of "sample_message ''m1''" 5]
  show ?thesis by (simp add: expired_queue_def NewQueue_def Len_def)
qed

end
