(* ===== verification/Key_Value.thy ===== *)
theory Key_Value
  imports Broker_Types "HOL-Library.List_Lexorder" "HOL-Library.Char_ord" "HOL-Library.Sublist"
begin

text \<open>
  The key-value store under \<open>internal/storage\<close>. BadgerDB is not part of the repository; it is a
  parameter, a record of the operations the code calls on it, and its documented behaviour is the
  locale \<open>kv_store\<close>: an iterator visits the keys in byte order, a committed transaction has all
  its effects and a failed one none. A list sorted by key is an instance of it.

  Keys are Go strings, so the order of the keys is the lexicographic order of their characters.
\<close>

record 'db kv =
  kvOpen :: "'db \<Rightarrow> error option"  \<comment> \<open>why a transaction cannot start\<close>
  kvItems :: "'db \<Rightarrow> (string \<times> bytes) list"  \<comment> \<open>what a forward iterator visits\<close>
  kvGet :: "'db \<Rightarrow> string \<Rightarrow> bytes option"  \<comment> \<open>\<open>None\<close> is \<open>ErrKeyNotFound\<close>\<close>
  kvCommit :: "'db \<Rightarrow> (string \<times> bytes option) list \<Rightarrow> 'db \<times> error option"
    \<comment> \<open>an \<open>Update\<close> or a \<open>WriteBatch\<close>: the writes in order, \<open>None\<close> being a delete\<close>

definition kv_view :: "'db kv \<Rightarrow> 'db \<Rightarrow> ((string \<times> bytes) list \<Rightarrow> 'a) \<Rightarrow> (error \<Rightarrow> 'a) \<Rightarrow> 'a" where
  \<comment> \<open>\<open>db.View\<close> of a function that only iterates\<close>
  "kv_view kv db f err = (case kvOpen kv db of Some e \<Rightarrow> err e | None \<Rightarrow> f (kvItems kv db))"

definition kv_update :: "'db kv \<Rightarrow> 'db \<Rightarrow> ((string \<times> bytes) list \<Rightarrow> (string \<times> bytes option) list) \<Rightarrow> 'db \<times> error option" where
  \<comment> \<open>\<open>db.Update\<close> of a function whose writes depend on what it reads\<close>
  "kv_update kv db f = (case kvOpen kv db of Some e \<Rightarrow> (db, Some e) | None \<Rightarrow> kvCommit kv db (f (kvItems kv db)))"

definition seek :: "string \<Rightarrow> (string \<times> 'v) list \<Rightarrow> (string \<times> 'v) list" where
  \<comment> \<open>\<open>it.Seek\<close> of a forward iterator\<close>
  "seek key items = dropWhile (\<lambda>kv. fst kv < key) items"

definition scan_from :: "string \<Rightarrow> string \<Rightarrow> (string \<times> 'v) list \<Rightarrow> (string \<times> 'v) list" where
  \<comment> \<open>\<open>for it.Seek(start); it.ValidForPrefix(p); it.Next()\<close>\<close>
  "scan_from start p items = takeWhile (\<lambda>kv. prefix p (fst kv)) (seek start items)"

fun apply_writes :: "(string \<times> bytes option) list \<Rightarrow> (string \<Rightarrow> bytes option) \<Rightarrow> string \<Rightarrow> bytes option" where
  "apply_writes [] m = m"
| "apply_writes ((k, v) # ws) m = apply_writes ws (m(k := v))"

section \<open>Documented behaviour\<close>

definition key_sorted :: "(string \<times> 'v) list \<Rightarrow> bool" where
  "key_sorted items \<longleftrightarrow> sorted_wrt (\<lambda>x y. fst x < fst y) items"

locale kv_store =
  fixes kv :: "'db kv"
    and ok :: "'db \<Rightarrow> bool"
  assumes items_sorted: "ok db \<Longrightarrow> key_sorted (kvItems kv db)"
    and get_items: "ok db \<Longrightarrow> kvGet kv db = map_of (kvItems kv db)"
    and commit_ok: "ok db \<Longrightarrow> kvCommit kv db ws = (db', None) \<Longrightarrow>
      ok db' \<and> map_of (kvItems kv db') = apply_writes ws (map_of (kvItems kv db))"
    and commit_err: "ok db \<Longrightarrow> kvCommit kv db ws = (db', Some e) \<Longrightarrow> db' = db"
begin

lemma update_ok:
  assumes "ok db" and "kv_update kv db f = (db', None)"
  shows "ok db' \<and> map_of (kvItems kv db') = apply_writes (f (kvItems kv db)) (map_of (kvItems kv db))"
  using assms commit_ok by (auto simp: kv_update_def split: option.splits)

lemma update_err: "ok db \<Longrightarrow> kv_update kv db f = (db', Some e) \<Longrightarrow> db' = db"
  using commit_err by (auto simp: kv_update_def split: option.splits)

lemma update_keeps_ok: "ok db \<Longrightarrow> ok (fst (kv_update kv db f))"
  using update_ok [of db f] update_err [of db f] by (cases "kv_update kv db f"; cases "snd (kv_update kv db f)") auto

end

section \<open>Byte order and prefixes\<close>

lemma Cons_prefix: "prefix (a # p) k \<longleftrightarrow> (\<exists>t. k = a # t \<and> prefix p t)"
  by (cases k) auto

lemma prefix_le: "prefix p k \<Longrightarrow> p \<le> (k :: string)"
  by (induction p arbitrary: k) (auto simp: Cons_prefix)

lemma prefix_interval:
  assumes "p \<le> k" and "k \<le> k'" and "prefix p (k' :: string)"
  shows "prefix p k"
  using assms
proof (induction p arbitrary: k k')
  case Nil
  then show ?case by simp
next
  case (Cons c p)
  from Cons.prems(3) obtain t' where k': "k' = c # t'" "prefix p t'" by (auto simp: Cons_prefix)
  from Cons.prems(1) obtain d t where k: "k = d # t" by (cases k) auto
  from Cons.prems k k' have "d = c" by auto
  with Cons.prems k k' Cons.IH [of t t'] show ?case by auto
qed

lemma key_sorted_distinct: "key_sorted items \<Longrightarrow> distinct (map fst items)"
  unfolding key_sorted_def by (induction items) auto

lemma key_sorted_filter: "key_sorted items \<Longrightarrow> key_sorted (filter P items)"
  by (simp add: key_sorted_def sorted_wrt_filter)

lemma seek_filter: "key_sorted items \<Longrightarrow> seek key items = filter (\<lambda>kv. key \<le> fst kv) items"
proof (induction items)
  case Nil
  then show ?case by (simp add: seek_def)
next
  case (Cons x items)
  show ?case
  proof (cases "fst x < key")
    case True
    with Cons show ?thesis by (simp add: seek_def key_sorted_def)
  next
    case False
    have "filter (\<lambda>kv. key \<le> fst kv) items = items"
      using Cons.prems False by (intro filter_True) (auto simp: key_sorted_def not_less)
    with False show ?thesis by (simp add: seek_def not_less)
  qed
qed

lemma takeWhile_prefix:
  assumes "key_sorted items" and "\<forall>kv \<in> set items. p \<le> fst kv"
  shows "takeWhile (\<lambda>kv. prefix p (fst kv)) items = filter (\<lambda>kv. prefix p (fst kv)) items"
  using assms
proof (induction items)
  case Nil
  then show ?case by simp
next
  case (Cons x items)
  show ?case
  proof (cases "prefix p (fst x)")
    case True
    with Cons show ?thesis by (simp add: key_sorted_def)
  next
    case False
    have "\<not> prefix p (fst kv)" if "kv \<in> set items" for kv
      using that Cons.prems False prefix_interval [of p "fst x" "fst kv"]
      by (auto simp: key_sorted_def dest: less_imp_le)
    with False show ?thesis by (simp add: filter_empty_conv)
  qed
qed

text \<open>A prefix scan visits exactly the keys with the prefix from the start key on, in order.\<close>

lemma scan_from_filter:
  assumes "key_sorted items" and "p \<le> start"
  shows "scan_from start p items = filter (\<lambda>kv. start \<le> fst kv \<and> prefix p (fst kv)) items"
proof -
  have "\<forall>kv \<in> set (filter (\<lambda>kv. start \<le> fst kv) items). p \<le> fst kv"
    using assms(2) by auto
  then show ?thesis
    using takeWhile_prefix [OF key_sorted_filter [OF assms(1)]] assms(1)
    by (simp add: scan_from_def seek_filter conj_commute)
qed

lemma scan_prefix_filter:
  assumes "key_sorted items"
  shows "scan_from p p items = filter (\<lambda>kv. prefix p (fst kv)) items"
  using assms prefix_le by (auto simp: scan_from_filter intro!: filter_cong)

lemma map_of_filter_key:
  "map_of (filter (\<lambda>kv. P (fst kv)) items) k = (if P k then map_of items k else None)"
  by (induction items) auto

lemma apply_writes_single [simp]: "apply_writes [(k, v)] m = m(k := v)"
  by simp

lemma apply_deletes: "apply_writes (map (\<lambda>k. (k, None)) ks) m = (\<lambda>k. if k \<in> set ks then None else m k)"
  by (induction ks arbitrary: m) auto

section \<open>An in-memory instance\<close>

text \<open>A database as a list sorted by key, and whether it has been closed.\<close>

record mem_db =
  mdItems :: "(string \<times> bytes) list"
  mdClosed :: bool

fun kv_put :: "string \<Rightarrow> bytes \<Rightarrow> (string \<times> bytes) list \<Rightarrow> (string \<times> bytes) list" where
  "kv_put k v [] = [(k, v)]"
| "kv_put k v ((k', v') # xs) =
     (if k < k' then (k, v) # (k', v') # xs
      else if k = k' then (k, v) # xs
      else (k', v') # kv_put k v xs)"

fun mem_write :: "(string \<times> bytes) list \<Rightarrow> string \<times> bytes option \<Rightarrow> (string \<times> bytes) list" where
  "mem_write items (k, Some v) = kv_put k v items"
| "mem_write items (k, None) = filter (\<lambda>kv. fst kv \<noteq> k) items"

definition mem_kv :: "mem_db kv" where
  "mem_kv = \<lparr>kvOpen = (\<lambda>db. if mdClosed db then Some (ErrStorage ''closed'') else None),
     kvItems = mdItems, kvGet = (\<lambda>db. map_of (mdItems db)),
     kvCommit = (\<lambda>db ws. if mdClosed db then (db, Some (ErrStorage ''closed''))
       else (db\<lparr>mdItems := foldl mem_write (mdItems db) ws\<rparr>, None))\<rparr>"

definition mem_ok :: "mem_db \<Rightarrow> bool" where
  "mem_ok db \<longleftrightarrow> key_sorted (mdItems db)"

definition empty_db :: mem_db where
  "empty_db = \<lparr>mdItems = [], mdClosed = False\<rparr>"

lemma mem_ok_empty [simp]: "mem_ok empty_db"
  by (simp add: mem_ok_def empty_db_def key_sorted_def)

lemma set_kv_put: "fst ` set (kv_put k v xs) = insert k (fst ` set xs)"
  by (induction k v xs rule: kv_put.induct) auto

lemma key_sorted_kv_put: "key_sorted xs \<Longrightarrow> key_sorted (kv_put k v xs)"
  unfolding key_sorted_def
proof (induction k v xs rule: kv_put.induct)
  case (2 k v k' v' xs)
  have "\<forall>y \<in> set (kv_put k v xs). k' < fst y" if "\<not> k < k'" "k \<noteq> k'"
    using that 2(2) set_kv_put [of k v xs] by (fastforce simp: neq_iff image_iff set_eq_iff)
  with 2 show ?case by (auto dest: less_trans)
qed simp

lemma map_of_kv_put: "key_sorted xs \<Longrightarrow> map_of (kv_put k v xs) = (map_of xs)(k \<mapsto> v)"
proof (induction k v xs rule: kv_put.induct)
  case (2 k v k' v' xs)
  then show ?case by (auto simp: key_sorted_def fun_eq_iff)
qed (simp add: fun_eq_iff)

lemma key_sorted_mem_write: "key_sorted xs \<Longrightarrow> key_sorted (mem_write xs w)"
  by (cases "(xs, w)" rule: mem_write.cases) (auto simp: key_sorted_kv_put key_sorted_filter)

lemma map_of_mem_write:
  "key_sorted xs \<Longrightarrow> map_of (mem_write xs (k, v)) = (map_of xs)(k := v)"
  by (cases v) (auto simp: map_of_kv_put map_of_filter_key [of "\<lambda>k'. k' \<noteq> k"] fun_eq_iff)

lemma foldl_mem_write:
  assumes "key_sorted xs"
  shows "key_sorted (foldl mem_write xs ws) \<and> map_of (foldl mem_write xs ws) = apply_writes ws (map_of xs)"
  using assms
proof (induction ws arbitrary: xs)
  case (Cons w ws)
  obtain k v where w: "w = (k, v)" by (cases w)
  have "key_sorted (mem_write xs w)" using Cons.prems by (rule key_sorted_mem_write)
  from Cons.IH [OF this] Cons.prems show ?case by (simp add: w map_of_mem_write fun_upd_def)
qed simp

interpretation mem: kv_store mem_kv mem_ok
  by unfold_locales
    (auto simp: mem_kv_def mem_ok_def foldl_mem_write split: if_splits)

end
