(* ===== verification/Decimal.thy ===== *)
theory Decimal
  imports Prelude "HOL-Library.List_Lexorder" "HOL-Library.Char_ord"
begin

text \<open>
  What the sources use of package \<open>fmt\<close> for unsigned numbers: \<open>%d\<close>, zero-padded \<open>%020d\<close>, and
  \<open>Sscanf\<close> with \<open>%d\<close>, which skips white space and reads the longest run of digits.
\<close>

definition digit :: "nat \<Rightarrow> char" where
  "digit d = char_of (48 + d)"

fun dec :: "nat \<Rightarrow> string" where
  "dec n = (if n < 10 then [digit n] else dec (n div 10) @ [digit (n mod 10)])"

declare dec.simps [simp del]

text \<open>The same on integers, for evaluation.\<close>

function idec :: "int \<Rightarrow> string" where
  "idec i = (if i < 10 then [digit (nat i)] else idec (i div 10) @ [digit (nat (i mod 10))])"
  by pat_completeness auto
termination
  by (relation "measure nat") auto

declare idec.simps [simp del]

lemma dec_idec: "0 \<le> i \<Longrightarrow> dec (nat i) = idec i"
proof (induction i rule: idec.induct)
  case (1 i)
  show ?case
  proof (cases "i < 10")
    case True
    then show ?thesis using 1(2) by (subst dec.simps, subst idec.simps) (simp add: nat_less_iff)
  next
    case False
    then have "dec (nat (i div 10)) = idec (i div 10)" using 1 by simp
    then show ?thesis using False by (subst dec.simps, subst idec.simps) (simp add: nat_div_distrib nat_mod_distrib nat_less_iff)
  qed
qed

definition pad_dec :: "nat \<Rightarrow> nat \<Rightarrow> string" where
  "pad_dec w n = replicate (w - length (dec n)) (digit 0) @ dec n"

definition is_digit :: "char \<Rightarrow> bool" where
  "is_digit c \<longleftrightarrow> (of_char c :: nat) \<in> {48..<58}"

definition is_space :: "char \<Rightarrow> bool" where
  "is_space c \<longleftrightarrow> (of_char c :: nat) \<in> {9, 11, 12, 13, 32}"

definition digit_value :: "char \<Rightarrow> int" where
  "digit_value c = int (of_char c) - 48"

definition dec_value :: "string \<Rightarrow> int" where
  "dec_value s = foldl (\<lambda>a c. a * 10 + digit_value c) 0 s"

definition scan_uint :: "string \<Rightarrow> u64 option" where
  "scan_uint s =
     (let ds = takeWhile is_digit (dropWhile is_space s)
      in if ds = [] \<or> dec_value ds \<ge> 2 ^ 64 then None else Some (of_int (dec_value ds)))"

section \<open>Digits\<close>

lemma digit_props:
  assumes "d < 10"
  shows "is_digit (digit d)" and "digit_value (digit d) = int d" and "\<not> is_space (digit d)"
  using assms by (simp_all add: digit_def is_digit_def digit_value_def is_space_def)

lemma foldl_value:
  "foldl (\<lambda>a c. a * 10 + digit_value c) a s = a * 10 ^ length s + dec_value s"
proof (induction s arbitrary: a)
  case Nil
  then show ?case by (simp add: dec_value_def)
next
  case (Cons c s)
  from Cons [of "a * 10 + digit_value c"] Cons [of "digit_value c"] show ?case
    by (simp add: dec_value_def algebra_simps)
qed

lemma dec_value_Nil [simp]: "dec_value [] = 0"
  by (simp add: dec_value_def)

lemma dec_value_Cons: "dec_value (c # s) = digit_value c * 10 ^ length s + dec_value s"
  using foldl_value [of "digit_value c" s] by (simp add: dec_value_def)

lemma dec_value_snoc: "dec_value (s @ [c]) = dec_value s * 10 + digit_value c"
  by (simp add: dec_value_def)

lemma digit_value_bounds: "is_digit c \<Longrightarrow> 0 \<le> digit_value c \<and> digit_value c < 10"
  by (auto simp: is_digit_def digit_value_def)

lemma digit_value_less: "is_digit c \<Longrightarrow> is_digit d \<Longrightarrow> c < d \<longleftrightarrow> digit_value c < digit_value d"
  by (auto simp: digit_value_def less_char_def)

lemma digit_value_inj: "digit_value c = digit_value d \<longleftrightarrow> c = d"
proof
  assume "digit_value c = digit_value d"
  then have "(of_char c :: nat) = of_char d" by (simp add: digit_value_def)
  then show "c = d" by simp
qed simp

lemma dec_value_bounds: "list_all is_digit s \<Longrightarrow> 0 \<le> dec_value s \<and> dec_value s < 10 ^ length s"
proof (induction s)
  case (Cons c s)
  then have c: "0 \<le> digit_value c" "digit_value c \<le> 9" and s: "0 \<le> dec_value s" "dec_value s < 10 ^ length s"
    using digit_value_bounds [of c] by auto
  have "digit_value c * 10 ^ length s \<le> 9 * 10 ^ length s" using c by (intro mult_right_mono) simp_all
  moreover have "0 \<le> digit_value c * 10 ^ length s" using c by simp
  ultimately show ?case using s unfolding dec_value_Cons length_Cons power_Suc by linarith
qed simp

lemma dec_value_less:
  assumes "list_all is_digit s" and "list_all is_digit t" and "length s = length t"
  shows "s < t \<longleftrightarrow> dec_value s < dec_value t"
  using assms
proof (induction s arbitrary: t)
  case (Cons c s)
  then obtain d u where t: "t = d # u" "length u = length s" "list_all is_digit u" "is_digit d" by (cases t) auto
  note bs = dec_value_bounds [of s] dec_value_bounds [of u]
  have c: "is_digit c" "list_all is_digit s" using Cons.prems by simp_all
  have gap: "digit_value x * 10 ^ length s + dec_value s' < digit_value y * 10 ^ length s + dec_value u'"
    if "digit_value x < digit_value y" "dec_value s' < 10 ^ length s" "0 \<le> dec_value u'" for x y s' u'
  proof -
    have "(digit_value x + 1) * 10 ^ length s \<le> digit_value y * 10 ^ length s"
      using that(1) by (intro mult_right_mono) simp_all
    then show ?thesis using that(2,3) by (simp add: algebra_simps)
  qed
  consider "digit_value c < digit_value d" | "digit_value c = digit_value d" | "digit_value d < digit_value c" by linarith
  then show ?case
  proof cases
    case 1
    then show ?thesis
      using gap [OF 1, of s u] bs c t digit_value_less [of c d] by (simp add: dec_value_Cons)
  next
    case 2
    then have "c = d" by (simp add: digit_value_inj)
    then show ?thesis using Cons.IH [OF c(2) t(3)] t by (simp add: dec_value_Cons)
  next
    case 3
    then show ?thesis
      using gap [OF 3, of u s] bs c t digit_value_less [of c d] digit_value_less [of d c]
      by (auto simp: dec_value_Cons digit_value_inj)
  qed
qed simp

section \<open>Printing and scanning\<close>

lemma dec_digits: "list_all is_digit (dec n)"
proof (induction n rule: dec.induct)
  case (1 n)
  then show ?case by (subst dec.simps) (simp add: digit_props)
qed

lemma dec_value_dec: "dec_value (dec n) = int n"
proof (induction n rule: dec.induct)
  case (1 n)
  show ?case
  proof (cases "n < 10")
    case True
    then show ?thesis by (simp add: dec.simps [of n] dec_value_Cons digit_props)
  next
    case False
    then have "dec_value (dec n) = int (n div 10) * 10 + int (n mod 10)"
      using 1 by (simp add: dec.simps [of n] dec_value_snoc digit_props)
    then show ?thesis by (simp add: zdiv_int zmod_int)
  qed
qed

lemma dec_nonempty: "dec n \<noteq> []"
  by (subst dec.simps) simp

lemma length_dec: "n < 10 ^ Suc w \<Longrightarrow> length (dec n) \<le> Suc w"
proof (induction w arbitrary: n)
  case 0
  then show ?case by (simp add: dec.simps [of n])
next
  case (Suc w)
  show ?case
  proof (cases "n < 10")
    case False
    have "n div 10 < 10 ^ Suc w" using Suc.prems by (simp add: less_mult_imp_div_less mult.commute)
    with Suc.IH False show ?thesis by (simp add: dec.simps [of n])
  qed (simp add: dec.simps [of n])
qed

lemma dec_value_append: "dec_value (s @ t) = dec_value s * 10 ^ length t + dec_value t"
  using foldl_value [of "dec_value s" t] by (simp add: dec_value_def)

lemma dec_value_zeros: "dec_value (replicate k (digit 0)) = 0"
  by (induction k) (simp_all add: dec_value_Cons digit_props)

lemma pad_dec_props:
  shows "list_all is_digit (pad_dec w n)" and "dec_value (pad_dec w n) = int n" and "pad_dec w n \<noteq> []"
  using dec_digits [of n] dec_nonempty [of n]
  by (auto simp: pad_dec_def list_all_iff digit_props dec_value_append dec_value_zeros dec_value_dec)

lemma length_pad_dec: "n < 10 ^ 20 \<Longrightarrow> length (pad_dec 20 n) = 20"
  using length_dec [of n 19] by (simp add: pad_dec_def)

lemma u64_digits: "unat (w :: u64) < 10 ^ 20"
  using unsigned_less [of w, where ?'a = nat] by simp

lemma pad_dec_less:
  "pad_dec 20 (unat a) < pad_dec 20 (unat b) \<longleftrightarrow> (a :: u64) < b"
proof -
  have "length (pad_dec 20 (unat a)) = length (pad_dec 20 (unat b))"
    by (simp only: length_pad_dec [OF u64_digits])
  from dec_value_less [OF pad_dec_props(1) pad_dec_props(1) this] show ?thesis
    by (simp only: pad_dec_props(2) word_less_nat_alt of_nat_less_iff)
qed

lemma pad_dec_inject: "pad_dec 20 (unat a) = pad_dec 20 (unat b) \<longleftrightarrow> (a :: u64) = b"
  using pad_dec_less [of a b] pad_dec_less [of b a] by (metis linorder_neq_iff)

lemma scan_uint_digits:
  assumes "list_all is_digit s" and "s \<noteq> []" and "dec_value s < 2 ^ 64"
  shows "scan_uint s = Some (of_int (dec_value s))"
proof -
  have "\<not> is_space c" if "is_digit c" for c using that by (auto simp: is_digit_def is_space_def)
  with assms(1,2) have "dropWhile is_space s = s" by (cases s) auto
  moreover have "takeWhile is_digit s = s" using assms(1) by (simp add: takeWhile_eq_all_conv list_all_iff)
  ultimately show ?thesis using assms(2,3) by (simp add: scan_uint_def Let_def del: takeWhile_eq_all_conv)
qed

lemma u64_value: "int (unat (w :: u64)) < 2 ^ 64"
  using unsigned_less [of w, where ?'a = int] by simp

lemma scan_pad_dec [simp]: "scan_uint (pad_dec 20 (unat w)) = Some w"
  using scan_uint_digits [OF pad_dec_props(1,3), of 20 "unat w"] u64_value [of w]
  by (simp only: pad_dec_props(2)) simp

lemma scan_dec [simp]: "scan_uint (dec (unat w)) = Some w"
  using scan_uint_digits [OF dec_digits dec_nonempty, of "unat w"] u64_value [of w]
  by (simp only: dec_value_dec) simp

end
