(* ===== verification/Storage_Codec.thy ===== *)
theory Storage_Codec
  imports Message Varint
begin

text \<open>
  The binary record format of \<open>internal/storage/codec.go\<close>: \<open>encodeMessage\<close> writes version 2
  (the identifier and the queue live in the storage key), \<open>decodeMessage\<close> reads versions 1
  and 2 and hands anything else to the JSON decoder of the standard library, which is the
  parameter \<open>json\<close>. Headers are written in the order a \<open>range\<close> visits them, the
  parameter \<open>r\<close>.
\<close>

definition messageEncodingV1 :: u8 where "messageEncodingV1 = 1"
definition messageEncodingV2 :: u8 where "messageEncodingV2 = 2"

datatype codec_error = EmptyPayload | InvalidUvarint | InvalidVarint | TruncatedPayload
  | JSONError string

definition unix_nano :: "time \<Rightarrow> i64" where
  \<comment> \<open>\<open>Time.UnixNano\<close>, a 64-bit result\<close>
  "unix_nano t = of_int t"

definition time_of_nano :: "i64 \<Rightarrow> time" where
  "time_of_nano n = sint n"

section \<open>Writing\<close>

definition appendString :: "bytes \<Rightarrow> string \<Rightarrow> bytes" where
  "appendString dst s = AppendUvarint dst (of_nat (length s)) @ bytes_of s"

definition appendBytes :: "bytes \<Rightarrow> bytes \<Rightarrow> bytes" where
  "appendBytes dst data = AppendUvarint dst (of_nat (length data)) @ data"

definition encodeMessage ::
    "((string \<times> string) list \<Rightarrow> (string \<times> string) list) \<Rightarrow> message \<Rightarrow> bytes" where
  "encodeMessage r msg =
     (let buf = [messageEncodingV2];
          buf = appendBytes buf (mPayload msg);
          buf = AppendUvarint buf (of_nat (length (mHeaders msg)));
          buf = foldl (\<lambda>buf (k, v). appendString (appendString buf k) v) buf (r (mHeaders msg));
          buf = AppendUvarint buf (ucast (mAttempt msg));
          buf = AppendVarint buf (unix_nano (mPublishedAt msg));
          buf = AppendVarint buf (unix_nano (mVisibleAt msg));
          buf = appendString buf (mOrderingKey msg)
      in AppendUvarint buf (mSequence msg))"

definition uvarintSize :: "u64 \<Rightarrow> nat" where
  "uvarintSize v = PutUvarint_len v"

definition varintSize :: "i64 \<Rightarrow> nat" where
  "varintSize v = PutVarint_len v"

definition encodedMessageSizeV2 ::
    "((string \<times> string) list \<Rightarrow> (string \<times> string) list) \<Rightarrow> message \<Rightarrow> nat" where
  "encodedMessageSizeV2 r msg =
     (let n = 1 + uvarintSize (of_nat (length (mPayload msg))) + length (mPayload msg);
          n = n + uvarintSize (of_nat (length (mHeaders msg)));
          n = foldl (\<lambda>n (k, v). n + (uvarintSize (of_nat (length k)) + length k)
                + (uvarintSize (of_nat (length v)) + length v)) n (r (mHeaders msg));
          n = n + uvarintSize (ucast (mAttempt msg));
          n = n + varintSize (unix_nano (mPublishedAt msg));
          n = n + varintSize (unix_nano (mVisibleAt msg));
          n = n + uvarintSize (of_nat (length (mOrderingKey msg))) + length (mOrderingKey msg)
      in n + uvarintSize (mSequence msg))"

section \<open>Reading\<close>

definition readUvarint :: "bytes \<Rightarrow> codec_error + (u64 \<times> bytes)" where
  "readUvarint data =
     (let (v, n) = Uvarint data in
      if n \<le> 0 then Inl InvalidUvarint else Inr (v, drop (nat n) data))"

definition readVarint :: "bytes \<Rightarrow> codec_error + (i64 \<times> bytes)" where
  "readVarint data =
     (let (v, n) = Varint data in
      if n \<le> 0 then Inl InvalidVarint else Inr (v, drop (nat n) data))"

definition readBytes :: "bytes \<Rightarrow> codec_error + (bytes \<times> bytes)" where
  "readBytes data =
     (case readUvarint data of
        Inl e \<Rightarrow> Inl e
      | Inr (len, rest) \<Rightarrow>
          if of_nat (length rest) < len then Inl TruncatedPayload
          else Inr (take (unat len) rest, drop (unat len) rest))"

definition readString :: "bytes \<Rightarrow> codec_error + (string \<times> bytes)" where
  "readString data =
     (case readBytes data of
        Inl e \<Rightarrow> Inl e
      | Inr (raw, rest) \<Rightarrow> Inr (string_of raw, rest))"

fun readHeaders :: "nat \<Rightarrow> bytes \<Rightarrow> (string, string) gomap
    \<Rightarrow> codec_error + ((string, string) gomap \<times> bytes)" where
  \<comment> \<open>the loop of \<open>decodeMessageFields\<close> over \<open>headerCount\<close>\<close>
  "readHeaders 0 buf h = Inr (h, buf)"
| "readHeaders (Suc n) buf h =
     (case readString buf of
        Inl e \<Rightarrow> Inl e
      | Inr (k, buf) \<Rightarrow>
          (case readString buf of
             Inl e \<Rightarrow> Inl e
           | Inr (v, buf) \<Rightarrow> readHeaders n buf (gm_set h k v)))"

definition decodeMessageFields :: "bytes \<Rightarrow> message \<Rightarrow> codec_error + message" where
  "decodeMessageFields buf msg =
     (case readBytes buf of Inl e \<Rightarrow> Inl e | Inr (payload, buf) \<Rightarrow>
     (case readUvarint buf of Inl e \<Rightarrow> Inl e | Inr (headerCount, buf) \<Rightarrow>
     (case readHeaders (unat headerCount) buf [] of Inl e \<Rightarrow> Inl e | Inr (headers, buf) \<Rightarrow>
     (case readUvarint buf of Inl e \<Rightarrow> Inl e | Inr (attempt, buf) \<Rightarrow>
     (case readVarint buf of Inl e \<Rightarrow> Inl e | Inr (publishedAt, buf) \<Rightarrow>
     (case readVarint buf of Inl e \<Rightarrow> Inl e | Inr (visibleAt, buf) \<Rightarrow>
     (case readString buf of Inl e \<Rightarrow> Inl e | Inr (orderingKey, buf) \<Rightarrow>
     (case readUvarint buf of Inl e \<Rightarrow> Inl e | Inr (sequence', _) \<Rightarrow>
        Inr (msg\<lparr>mPayload := payload, mHeaders := headers, mAttempt := ucast attempt,
          mPublishedAt := time_of_nano publishedAt, mVisibleAt := time_of_nano visibleAt,
          mOrderingKey := orderingKey, mSequence := sequence'\<rparr>)))))))))"

definition decodeMessageV1 :: "bytes \<Rightarrow> message \<Rightarrow> codec_error + message" where
  "decodeMessageV1 buf msg =
     (case readString buf of Inl e \<Rightarrow> Inl e | Inr (id', buf) \<Rightarrow>
     (case readString buf of Inl e \<Rightarrow> Inl e | Inr (queue, buf) \<Rightarrow>
        decodeMessageFields buf (msg\<lparr>mID := id', mQueue := queue\<rparr>)))"

definition decodeMessageV2 :: "bytes \<Rightarrow> message \<Rightarrow> codec_error + message" where
  "decodeMessageV2 buf msg = decodeMessageFields buf msg"

definition decodeMessage ::
    "(bytes \<Rightarrow> message \<Rightarrow> codec_error + message) \<Rightarrow> bytes \<Rightarrow> message \<Rightarrow> codec_error + message" where
  "decodeMessage json data msg =
     (if length data = 0 then Inl EmptyPayload
      else if data ! 0 = messageEncodingV1 then decodeMessageV1 (drop 1 data) msg
      else if data ! 0 = messageEncodingV2 then decodeMessageV2 (drop 1 data) msg
      else json data msg)"


section \<open>The readers invert the writers\<close>

named_theorems codec_simps "reading back what was written"

lemma readUvarint_append [codec_simps]: "readUvarint (AppendUvarint' v @ rest) = Inr (v, rest)"
  using AppendUvarint'_nonempty [of v] by (simp add: readUvarint_def)

lemma readUvarint_end [codec_simps]: "readUvarint (AppendUvarint' v) = Inr (v, [])"
  using readUvarint_append [of v "[]"] by simp

lemma readVarint_append [codec_simps]:
  "readVarint (AppendUvarint' (zigzag v) @ rest) = Inr (v, rest)"
  using AppendUvarint'_nonempty [of "zigzag v"] by (simp add: readVarint_def)

lemma readBytes_append:
  assumes "length data + length rest < 2 ^ 63"
  shows "readBytes (AppendUvarint' (of_nat (length data)) @ data @ rest) = Inr (data, rest)"
proof -
  have u: "unat (of_nat (length data) :: u64) = length data"
    and v: "unat (of_nat (length (data @ rest)) :: u64) = length data + length rest"
    using assms by (simp_all add: unat_of_nat del: of_nat_add)
  then have "\<not> (of_nat (length (data @ rest)) :: u64) < of_nat (length data)"
    by (simp add: word_less_nat_alt del: of_nat_add)
  with u show ?thesis by (simp add: readBytes_def readUvarint_append)
qed

lemma readString_append:
  assumes "length s + length rest < 2 ^ 63"
  shows "readString (AppendUvarint' (of_nat (length s)) @ bytes_of s @ rest) = Inr (s, rest)"
  using readBytes_append [of "bytes_of s" rest] assms by (simp add: readString_def)

definition enc_string :: "string \<Rightarrow> bytes" where
  "enc_string s = AppendUvarint' (of_nat (length s)) @ bytes_of s"

definition enc_headers :: "(string \<times> string) list \<Rightarrow> bytes" where
  "enc_headers hs = concat (map (\<lambda>(k, v). enc_string k @ enc_string v) hs)"

definition enc_fields :: "(string \<times> string) list \<Rightarrow> message \<Rightarrow> bytes" where
  "enc_fields hs msg =
     AppendUvarint' (of_nat (length (mPayload msg))) @ mPayload msg
     @ AppendUvarint' (of_nat (length hs)) @ enc_headers hs
     @ AppendUvarint' (ucast (mAttempt msg))
     @ AppendUvarint' (zigzag (unix_nano (mPublishedAt msg)))
     @ AppendUvarint' (zigzag (unix_nano (mVisibleAt msg)))
     @ enc_string (mOrderingKey msg) @ AppendUvarint' (mSequence msg)"

lemma foldl_appendString:
  "foldl (\<lambda>buf (k, v). appendString (appendString buf k) v) buf hs = buf @ enc_headers hs"
  by (induction hs arbitrary: buf)
    (auto simp: enc_headers_def enc_string_def appendString_def AppendUvarint_def)

lemma encodeMessage_fields:
  assumes "length (r (mHeaders msg)) = length (mHeaders msg)"
  shows "encodeMessage r msg = messageEncodingV2 # enc_fields (r (mHeaders msg)) msg"
  unfolding encodeMessage_def Let_def foldl_appendString
  using assms
  by (simp add: enc_fields_def enc_string_def appendString_def appendBytes_def AppendUvarint_def
    AppendVarint_def)

lemma readHeaders_enc:
  assumes "length (enc_headers hs) + length rest < 2 ^ 63"
  shows "readHeaders (length hs) (enc_headers hs @ rest) h
     = Inr (foldl (\<lambda>h (k, v). gm_set h k v) h hs, rest)"
  using assms
proof (induction hs arbitrary: h)
  case Nil
  then show ?case by (simp add: enc_headers_def)
next
  case (Cons kv hs)
  obtain k v where kv: "kv = (k, v)" by (cases kv)
  let ?tl = "enc_headers hs @ rest"
  have e: "enc_headers (kv # hs) @ rest = enc_string k @ enc_string v @ ?tl"
    by (simp add: enc_headers_def kv)
  have len: "length (enc_string k) + length (enc_string v) + length ?tl < 2 ^ 63"
    using Cons.prems by (simp add: e [symmetric] enc_headers_def kv)
  have "readString (enc_string k @ enc_string v @ ?tl) = Inr (k, enc_string v @ ?tl)"
    using readString_append [of k "enc_string v @ ?tl"] len by (simp add: enc_string_def)
  moreover have "readString (enc_string v @ ?tl) = Inr (v, ?tl)"
    using readString_append [of v ?tl] len by (simp add: enc_string_def)
  moreover have "readHeaders (length hs) ?tl (gm_set h k v)
      = Inr (foldl (\<lambda>h (k, v). gm_set h k v) (gm_set h k v) hs, rest)"
    using len by (intro Cons.IH) simp
  ultimately show ?case unfolding e by (simp add: kv)
qed

lemma foldl_gm_set_distinct:
  "distinct (map fst (h @ hs)) \<Longrightarrow> foldl (\<lambda>h (k, v). gm_set h k v) h hs = h @ hs"
proof (induction hs arbitrary: h)
  case Nil
  then show ?case by simp
next
  case (Cons kv hs)
  obtain k v where kv: "kv = (k, v)" by (cases kv)
  with Cons.prems have "gm_set h k v = h @ [(k, v)]" by (intro gm_set_new) auto
  with Cons kv show ?case by simp
qed

definition nano_range :: "time \<Rightarrow> bool" where
  "nano_range t \<longleftrightarrow> - (2 ^ 63) \<le> t \<and> t < 2 ^ 63"

lemma time_of_unix_nano [simp]: "nano_range t \<Longrightarrow> time_of_nano (unix_nano t) = t"
  unfolding nano_range_def time_of_nano_def unix_nano_def
  by (simp add: signed_of_int signed_take_bit_int_eq_self)

lemma decodeMessageFields_enc:
  assumes len: "length (enc_fields hs msg) < 2 ^ 63" and d: "gm_wf hs"
    and t: "nano_range (mPublishedAt msg)" "nano_range (mVisibleAt msg)"
  shows "decodeMessageFields (enc_fields hs msg) m0
     = Inr (msg\<lparr>mID := mID m0, mQueue := mQueue m0, mHeaders := hs\<rparr>)"
proof -
  let ?seq = "AppendUvarint' (mSequence msg)"
  let ?key = "enc_string (mOrderingKey msg) @ ?seq"
  let ?times = "AppendUvarint' (zigzag (unix_nano (mPublishedAt msg)))
     @ AppendUvarint' (zigzag (unix_nano (mVisibleAt msg))) @ ?key"
  let ?att = "AppendUvarint' (ucast (mAttempt msg)) @ ?times"
  let ?hdr = "AppendUvarint' (of_nat (length hs)) @ enc_headers hs @ ?att"
  have b: "readBytes (enc_fields hs msg) = Inr (mPayload msg, ?hdr)"
    using readBytes_append [of "mPayload msg" ?hdr] len by (simp add: enc_fields_def)
  have hl: "length hs \<le> length (enc_headers hs)"
  proof (induction hs)
    case (Cons kv hs)
    have "0 < length (enc_string (fst kv))" 
      using AppendUvarint'_nonempty [of "of_nat (length (fst kv))"] by (simp add: enc_string_def)
    with Cons show ?case
      by (cases kv) (simp add: enc_headers_def del: length_greater_0_conv)
  qed (simp add: enc_headers_def)
  then have n: "unat (of_nat (length hs) :: u64) = length hs"
    using len by (simp add: unat_of_nat enc_fields_def)
  have h: "readHeaders (length hs) (enc_headers hs @ ?att) [] = Inr (hs, ?att)"
    using readHeaders_enc [of hs ?att "[]"] len d
    by (simp add: enc_fields_def foldl_gm_set_distinct [of "[]", simplified])
  have k: "readString ?key = Inr (mOrderingKey msg, ?seq)"
    using readString_append [of "mOrderingKey msg" ?seq] len
    by (simp add: enc_fields_def enc_string_def)
  have a: "ucast (ucast (mAttempt msg) :: u64) = mAttempt msg"
    by (rule bit_word_eqI) (simp add: bit_simps)
  show ?thesis
    unfolding decodeMessageFields_def b
    by (simp add: codec_simps n h k a t)
qed

lemma encodedMessageSize_eq:
  assumes "length (r (mHeaders msg)) = length (mHeaders msg)"
  shows "encodedMessageSizeV2 r msg = length (encodeMessage r msg)"
proof -
  have f: "foldl (\<lambda>n (k, v). n + (uvarintSize (of_nat (length k)) + length k)
        + (uvarintSize (of_nat (length v)) + length v)) n hs = n + length (enc_headers hs)" for n hs
    by (induction hs arbitrary: n)
      (auto simp: enc_headers_def enc_string_def uvarintSize_def PutUvarint_len_def)
  show ?thesis
    unfolding encodeMessage_fields [of r msg, OF assms] encodedMessageSizeV2_def Let_def f
    using assms
    by (simp add: enc_fields_def enc_string_def uvarintSize_def varintSize_def PutUvarint_len_def
      PutVarint_len_def)
qed

section \<open>Properties\<close>

lemma length_AppendUvarint'_le: "length (AppendUvarint' v) \<le> 10"
  using Uvarint_bound [OF Uvarint_append [of v "[]", simplified]] AppendUvarint'_nonempty [of v]
  by (simp add: MaxVarintLen64_def)

text \<open>C6. A stored message is read back: decoding what \<open>encodeMessage\<close> wrote gives the message, with the
  id and the queue that the caller filled in from the key, and with the same headers, in whatever order
  the encoder ranged over the header map. The times must be representable as 64-bit nanoseconds.\<close>

theorem stored_message_roundtrip:
  assumes "range_order r" and "gm_wf (mHeaders msg)" and "length (encodeMessage r msg) < 2 ^ 63"
    and "nano_range (mPublishedAt msg)" and "nano_range (mVisibleAt msg)"
  shows "\<exists>hs. decodeMessage json (encodeMessage r msg) m0
       = Inr (msg\<lparr>mID := mID m0, mQueue := mQueue m0, mHeaders := hs\<rparr>)
     \<and> gm_get hs = gm_get (mHeaders msg)"
proof -
  let ?hs = "r (mHeaders msg)"
  have l: "length ?hs = length (mHeaders msg)" using assms(1) by (rule range_order_length)
  note e = encodeMessage_fields [of r msg, OF l]
  have "decodeMessageFields (enc_fields ?hs msg) m0
      = Inr (msg\<lparr>mID := mID m0, mQueue := mQueue m0, mHeaders := ?hs\<rparr>)"
    using assms e by (intro decodeMessageFields_enc) (simp_all add: range_order_distinct)
  moreover have "gm_get ?hs = gm_get (mHeaders msg)"
    using assms(1,2) by (simp add: range_order_map_of)
  ultimately show ?thesis
    by (intro exI [of _ ?hs]) (simp add: e decodeMessage_def decodeMessageV2_def messageEncodingV1_def messageEncodingV2_def)
qed

theorem stored_message_roundtrip_witness:
  "\<exists>hs. decodeMessage (\<lambda>_ _. Inl EmptyPayload)
        (encodeMessage rev \<lparr>mID = ''a'', mQueue = ''q'', mPayload = [1], mHeaders = [(''k'', ''v''), (''l'', ''w'')],
           mAttempt = 3, mPublishedAt = 5, mVisibleAt = -5, mOrderingKey = ''o'', mSequence = 9\<rparr>)
        \<lparr>mID = ''id'', mQueue = ''jobs'', mPayload = [], mHeaders = [], mAttempt = 0, mPublishedAt = 0,
           mVisibleAt = 0, mOrderingKey = [], mSequence = 0\<rparr>
     = Inr \<lparr>mID = ''id'', mQueue = ''jobs'', mPayload = [1], mHeaders = hs,
           mAttempt = 3, mPublishedAt = 5, mVisibleAt = -5, mOrderingKey = ''o'', mSequence = 9\<rparr>
     \<and> gm_get hs = gm_get [(''k'', ''v''), (''l'', ''w'')]"
proof -
  let ?m = "\<lparr>mID = ''a'', mQueue = ''q'', mPayload = [1], mHeaders = [(''k'', ''v''), (''l'', ''w'')],
    mAttempt = 3, mPublishedAt = 5, mVisibleAt = -5, mOrderingKey = ''o'', mSequence = 9\<rparr>"
  let ?init = "\<lparr>mID = ''id'', mQueue = ''jobs'', mPayload = [], mHeaders = [], mAttempt = 0,
    mPublishedAt = 0, mVisibleAt = 0, mOrderingKey = [], mSequence = 0\<rparr>"
  note u = length_AppendUvarint'_le
  have "length (encodeMessage rev ?m) < 2 ^ 63"
    using u [of 1] u [of 2] u [of 3] u [of "zigzag (unix_nano 5)"] u [of "zigzag (unix_nano (-5))"] u [of 9]
    by (simp add: encodeMessage_fields enc_fields_def enc_headers_def enc_string_def)
  then show ?thesis
    using stored_message_roundtrip [of rev ?m "\<lambda>_ _. Inl EmptyPayload" ?init]
    by (simp add: nano_range_def)
qed

text \<open>The buffer is allocated at the right size: the size computed ahead of the encoding is the number
  of bytes that the encoder then appends, so the append never reallocates.\<close>

theorem encoded_size_exact:
  assumes "range_order r"
  shows "encodedMessageSizeV2 r msg = length (encodeMessage r msg)"
  using assms by (intro encodedMessageSize_eq) (rule range_order_length)

theorem encoded_size_exact_witness:
  "\<forall>msg. encodedMessageSizeV2 rev msg = length (encodeMessage rev msg)"
  using encoded_size_exact [of rev] by simp

end
