(* ===== verification/Storage_Iface.thy ===== *)
theory Storage_Iface
  imports Broker_Types
begin

text \<open>
  The storage interfaces of \<open>internal/storage/storage.go\<close>. A Go interface value is a record of
  functions over the state \<open>'s\<close> of whatever implements it; a call that changes the state returns
  it. A call that may not return has type \<open>go\<close>. \<open>StreamStorage\<close> extends \<open>Storage\<close>, and the
  type assertion from the one to the other is the field \<open>soStream\<close>.
\<close>

type_synonym QueueMode = string

definition QueueModeQueue :: QueueMode where "QueueModeQueue = ''queue''"
definition QueueModeStream :: QueueMode where "QueueModeStream = ''stream''"

record QueueConfig =
  qcMaxSize :: int
  qcMaxSizeSet :: bool
  qcMaxRetries :: int
  qcFailurePolicy :: string
  qcMode :: QueueMode
  qcRetentionMaxAge :: int
  qcRetentionMaxBytes :: int

definition zero_config :: QueueConfig where
  \<comment> \<open>the zero value of the struct\<close>
  "zero_config = \<lparr>qcMaxSize = 0, qcMaxSizeSet = False, qcMaxRetries = 0, qcFailurePolicy = [],
     qcMode = [], qcRetentionMaxAge = 0, qcRetentionMaxBytes = 0\<rparr>"

record StreamMessage =
  smMessage :: message
  smSequence :: u64

type_synonym 's effect = "'s \<Rightarrow> 's \<times> error option"

record 's stream_ops =
  soSaveStreamMessage :: "string \<Rightarrow> u64 \<Rightarrow> StreamMessage \<Rightarrow> 's effect"
  soLoadStreamMessages :: "string \<Rightarrow> u64 \<Rightarrow> nat \<Rightarrow> 's \<Rightarrow> StreamMessage list \<times> error option"
  soSaveConsumerOffset :: "string \<Rightarrow> string \<Rightarrow> u64 \<Rightarrow> 's effect"
  soLoadConsumerOffset :: "string \<Rightarrow> string \<Rightarrow> 's \<Rightarrow> u64 \<times> error option"
  soLoadAllConsumerOffsets :: "string \<Rightarrow> 's \<Rightarrow> (string, u64) gomap \<times> error option"
  soGetStreamSequence :: "string \<Rightarrow> 's \<Rightarrow> u64 \<times> error option"
  soDeleteStreamMessagesBefore :: "string \<Rightarrow> u64 \<Rightarrow> 's effect"
  soGetStreamMessageByTimestamp :: "string \<Rightarrow> int \<Rightarrow> 's \<Rightarrow> u64 \<times> error option"
  soGetStreamStats :: "string \<Rightarrow> 's \<Rightarrow> u64 \<times> u64 \<times> error option"

record 's storage_ops =
  soSaveMessage :: "message \<Rightarrow> 's effect"
  soDeleteMessage :: "string \<Rightarrow> string \<Rightarrow> 's effect"
  soDeleteQueueMessages :: "string \<Rightarrow> 's \<Rightarrow> ('s \<times> error option) go"
  soLoadMessages :: "string \<Rightarrow> 's \<Rightarrow> message list \<times> error option"
  soSaveQueue :: "string \<Rightarrow> QueueConfig \<Rightarrow> 's effect"
  soLoadQueues :: "'s \<Rightarrow> (string, QueueConfig) gomap \<times> error option"
  soStream :: "'s stream_ops option"

text \<open>Two messages are the same to a reader when they differ in the order of their headers only.\<close>

definition same_message :: "message \<Rightarrow> message \<Rightarrow> bool" where
  "same_message m m' \<longleftrightarrow> m'\<lparr>mHeaders := []\<rparr> = m\<lparr>mHeaders := []\<rparr>
     \<and> gm_get (mHeaders m') = gm_get (mHeaders m)"

lemma same_message_refl [simp]: "same_message m m"
  by (simp add: same_message_def)

lemma same_message_sym: "same_message m m' \<Longrightarrow> same_message m' m"
  by (simp add: same_message_def)

lemma same_message_trans: "same_message a b \<Longrightarrow> same_message b c \<Longrightarrow> same_message a c"
  by (simp add: same_message_def)

lemma same_messageD:
  assumes "same_message m m'"
  shows "mID m' = mID m" "mQueue m' = mQueue m" "mPayload m' = mPayload m" "mAttempt m' = mAttempt m"
    "mPublishedAt m' = mPublishedAt m" "mVisibleAt m' = mVisibleAt m" "mOrderingKey m' = mOrderingKey m"
    "mSequence m' = mSequence m"
  using assms unfolding same_message_def by (cases m; cases m'; simp)+

section \<open>The contract of message persistence\<close>

text \<open>
  What the broker relies on: a message that was saved is there, under its queue and id, until it
  is deleted, and a call that fails has no effect. \<open>holds\<close> says what a state has stored, \<open>qok\<close>
  which queue names and \<open>mok\<close> which messages the promise covers.
\<close>

locale message_store =
  fixes ops :: "'s storage_ops"
    and holds :: "'s \<Rightarrow> string \<Rightarrow> string \<Rightarrow> message \<Rightarrow> bool"
    and inv :: "'s \<Rightarrow> bool"
    and qok :: "string \<Rightarrow> bool"
    and mok :: "message \<Rightarrow> bool"
  assumes save_inv: "inv s \<Longrightarrow> qok (mQueue m) \<Longrightarrow> mok m \<Longrightarrow> inv (fst (soSaveMessage ops m s))"
    and save_ok: "inv s \<Longrightarrow> qok (mQueue m) \<Longrightarrow> mok m \<Longrightarrow> soSaveMessage ops m s = (s', None) \<Longrightarrow>
      holds s' q i m' \<longleftrightarrow> (if q = mQueue m \<and> i = mID m then same_message m m' else holds s q i m')"
    and save_err: "inv s \<Longrightarrow> soSaveMessage ops m s = (s', Some e) \<Longrightarrow> holds s' = holds s"
    and delete_inv: "inv s \<Longrightarrow> inv (fst (soDeleteMessage ops q i s))"
    and delete_ok: "inv s \<Longrightarrow> qok q' \<Longrightarrow> soDeleteMessage ops q' i' s = (s', None) \<Longrightarrow>
      holds s' q i m' \<longleftrightarrow> \<not> (q = q' \<and> i = i') \<and> holds s q i m'"
    and delete_err: "inv s \<Longrightarrow> soDeleteMessage ops q i s = (s', Some e) \<Longrightarrow> holds s' = holds s"
    and load_ok: "inv s \<Longrightarrow> qok q \<Longrightarrow> soLoadMessages ops q s = (ms, None) \<Longrightarrow>
      (\<exists>i. holds s q i m) \<longleftrightarrow> (\<exists>m' \<in> set ms. same_message m m')"
    and holds_id: "inv s \<Longrightarrow> holds s q i m \<Longrightarrow> mQueue m = q \<and> mID m = i \<and> qok q"
begin

text \<open>A trace of saves and deletes, each with the outcome the caller saw.\<close>

lemma saved_is_loaded:
  assumes "inv s" and "qok (mQueue m)" and "mok m" and "soSaveMessage ops m s = (s', None)"
    and "soLoadMessages ops (mQueue m) s' = (ms, None)"
  shows "\<exists>m' \<in> set ms. same_message m m'"
proof -
  have "inv s'" using save_inv [OF assms(1-3)] assms(4) by simp
  moreover have "holds s' (mQueue m) (mID m) m" using save_ok [OF assms(1-4)] by simp
  ultimately show ?thesis using load_ok [OF _ assms(2,5)] by blast
qed

lemma deleted_is_not_loaded:
  assumes "inv s" and "qok q" and "soDeleteMessage ops q i s = (s', None)"
    and "soLoadMessages ops q s' = (ms, None)"
  shows "\<forall>m \<in> set ms. mID m \<noteq> i"
proof
  fix m
  assume m: "m \<in> set ms"
  have inv: "inv s'" using delete_inv [OF assms(1), of q i] assms(3) by simp
  then obtain j where j: "holds s' q j m" using load_ok [OF _ assms(2,4)] m same_message_refl by blast
  then have "mID m = j" using holds_id [OF inv] by blast
  moreover have "j \<noteq> i" using j delete_ok [OF assms(1-3)] by blast
  ultimately show "mID m \<noteq> i" by simp
qed

end

section \<open>A trace of calls refines a map\<close>

text \<open>The abstract store is a map from queues and ids to messages; a call that fails leaves it alone.\<close>

datatype store_call = CSave message | CDelete string string

fun abs_call :: "store_call \<Rightarrow> error option \<Rightarrow> (string \<Rightarrow> string \<Rightarrow> message option) \<Rightarrow> string \<Rightarrow> string \<Rightarrow> message option" where
  "abs_call c (Some e) a = a"
| "abs_call (CSave m) None a = (\<lambda>q i. if q = mQueue m \<and> i = mID m then Some m else a q i)"
| "abs_call (CDelete q' i') None a = (\<lambda>q i. if q = q' \<and> i = i' then None else a q i)"

fun do_call :: "'s storage_ops \<Rightarrow> store_call \<Rightarrow> 's effect" where
  "do_call ops (CSave m) s = soSaveMessage ops m s"
| "do_call ops (CDelete q i) s = soDeleteMessage ops q i s"

fun run_calls :: "'s storage_ops \<Rightarrow> store_call list \<Rightarrow> 's \<times> (string \<Rightarrow> string \<Rightarrow> message option)
    \<Rightarrow> 's \<times> (string \<Rightarrow> string \<Rightarrow> message option)" where
  "run_calls ops [] sa = sa"
| "run_calls ops (c # cs) (s, a) =
     (case do_call ops c s of (s', e) \<Rightarrow> run_calls ops cs (s', abs_call c e a))"

definition stores :: "('s \<Rightarrow> string \<Rightarrow> string \<Rightarrow> message \<Rightarrow> bool) \<Rightarrow> 's \<Rightarrow> (string \<Rightarrow> string \<Rightarrow> message option) \<Rightarrow> bool" where
  "stores holds s a \<longleftrightarrow> (\<forall>q i m. holds s q i m \<longleftrightarrow> (\<exists>m'. a q i = Some m' \<and> same_message m' m))"

definition call_ok :: "(string \<Rightarrow> bool) \<Rightarrow> (message \<Rightarrow> bool) \<Rightarrow> store_call \<Rightarrow> bool" where
  "call_ok qok mok c = (case c of CSave m \<Rightarrow> qok (mQueue m) \<and> mok m | CDelete q i \<Rightarrow> qok q)"

context message_store
begin

lemma do_call_stores:
  assumes "inv s" and "stores holds s a" and "call_ok qok mok c" and "do_call ops c s = (s', e)"
  shows "inv s' \<and> stores holds s' (abs_call c e a)"
proof (cases c)
  case (CSave m)
  then have c: "soSaveMessage ops m s = (s', e)" "qok (mQueue m)" "mok m" using assms(3,4) by (simp_all add: call_ok_def)
  show ?thesis
  proof (cases e)
    case None
    then have "stores holds s' (abs_call c e a)"
      using save_ok [OF assms(1) c(2,3) c(1) [unfolded None]] assms(2) CSave by (auto simp: stores_def)
    then show ?thesis using save_inv [OF assms(1) c(2,3)] c(1) by simp
  next
    case (Some e')
    then show ?thesis
      using save_err [OF assms(1) c(1) [unfolded Some]] save_inv [OF assms(1) c(2,3)] c(1) assms(2) by (simp add: stores_def)
  qed
next
  case (CDelete q i)
  then have c: "soDeleteMessage ops q i s = (s', e)" "qok q" using assms(3,4) by (simp_all add: call_ok_def)
  show ?thesis
  proof (cases e)
    case None
    then have "stores holds s' (abs_call c e a)"
      using delete_ok [OF assms(1) c(2) c(1) [unfolded None]] assms(2) CDelete by (auto simp: stores_def)
    then show ?thesis using delete_inv [OF assms(1), of q i] c(1) by simp
  next
    case (Some e')
    then show ?thesis
      using delete_err [OF assms(1) c(1) [unfolded Some]] delete_inv [OF assms(1), of q i] c(1) assms(2) by (simp add: stores_def)
  qed
qed

lemma run_calls_stores:
  assumes "inv s" and "stores holds s a" and "list_all (call_ok qok mok) cs" and "run_calls ops cs (s, a) = (s', a')"
  shows "inv s' \<and> stores holds s' a'"
  using assms
proof (induction cs arbitrary: s a)
  case (Cons c cs)
  obtain s1 e where c: "do_call ops c s = (s1, e)" by (cases "do_call ops c s")
  have "call_ok qok mok c" using Cons.prems(3) by simp
  from do_call_stores [OF Cons.prems(1,2) this c] Cons.IH [of s1 "abs_call c e a"] Cons.prems(3,4) c
  show ?case by simp
qed simp

lemma loads_refine:
  assumes "inv s" and "stores holds s a" and "qok q" and "soLoadMessages ops q s = (ms, None)"
  shows "(\<exists>m' \<in> set ms. same_message m m') \<longleftrightarrow> (\<exists>i m'. a q i = Some m' \<and> same_message m' m)"
  using load_ok [OF assms(1,3,4), of m] assms(2) unfolding stores_def by auto

end

section \<open>The contract of queue configurations\<close>

text \<open>
  Beyond the messages, the broker keeps one configuration per queue, and purges a queue at once.
  \<open>configs\<close> says which configurations a state has stored. Writes to one kind of data leave the
  other kind alone.
\<close>

locale broker_store = message_store ops holds inv qok mok
  for ops :: "'s storage_ops" and holds and inv and qok and mok +
  fixes configs :: "'s \<Rightarrow> string \<Rightarrow> QueueConfig option"
  assumes save_configs: "inv s \<Longrightarrow> configs (fst (soSaveMessage ops m s)) = configs s"
    and delete_configs: "inv s \<Longrightarrow> configs (fst (soDeleteMessage ops q i s)) = configs s"
    and config_inv: "inv s \<Longrightarrow> inv (fst (soSaveQueue ops name cfg s))"
    and config_holds: "inv s \<Longrightarrow> holds (fst (soSaveQueue ops name cfg s)) = holds s"
    and config_ok: "inv s \<Longrightarrow> soSaveQueue ops name cfg s = (s', None) \<Longrightarrow> configs s' = (configs s)(name \<mapsto> cfg)"
    and config_err: "inv s \<Longrightarrow> soSaveQueue ops name cfg s = (s', Some e) \<Longrightarrow> configs s' = configs s"
    and load_configs: "inv s \<Longrightarrow> soLoadQueues ops s = (cfgs, None) \<Longrightarrow> gm_wf cfgs \<and> gm_get cfgs = configs s"
    and purge_ok: "inv s \<Longrightarrow> qok q \<Longrightarrow> \<exists>s' e. soDeleteQueueMessages ops q s = Some (s', e) \<and> inv s'
      \<and> configs s' = configs s \<and> (\<forall>q' i m. q' \<noteq> q \<longrightarrow> holds s' q' i m = holds s q' i m)
      \<and> (e = None \<longrightarrow> (\<forall>i m. \<not> holds s' q i m))"

section \<open>The contract of streams\<close>

text \<open>
  A stream is a log: \<open>entries s q\<close> is what state \<open>s\<close> retains of stream \<open>q\<close>, by ascending sequence
  number. The sequence number of an embedded message is not stored with it; \<open>as_delivered\<close> sets it
  from the log entry, as the code does.
\<close>

definition as_delivered :: "StreamMessage \<Rightarrow> message" where
  "as_delivered e = (smMessage e)\<lparr>mSequence := smSequence e\<rparr>"

definition same_entry :: "StreamMessage \<Rightarrow> StreamMessage \<Rightarrow> bool" where
  "same_entry e e' \<longleftrightarrow> same_message (as_delivered e) (as_delivered e')"

lemma mSequence_as_delivered [simp]: "mSequence (as_delivered e) = smSequence e"
  by (simp add: as_delivered_def)

lemma same_entry_sequence: "same_entry e e' \<Longrightarrow> smSequence e' = smSequence e"
  using same_messageD(8) [of "as_delivered e" "as_delivered e'"] by (simp add: same_entry_def)

locale stream_store =
  fixes ops :: "'s stream_ops"
    and entries :: "'s \<Rightarrow> string \<Rightarrow> StreamMessage list"
    and offsets :: "'s \<Rightarrow> string \<Rightarrow> string \<Rightarrow> u64 option"
    and inv :: "'s \<Rightarrow> bool"
    and qok :: "string \<Rightarrow> bool"
  assumes entries_sorted: "inv s \<Longrightarrow> qok q \<Longrightarrow> sorted_wrt (<) (map smSequence (entries s q))"
    and append_ok: "inv s \<Longrightarrow> qok q \<Longrightarrow> \<forall>e \<in> set (entries s q). smSequence e < smSequence m \<Longrightarrow>
      soSaveStreamMessage ops q (smSequence m) m s = (s', None) \<Longrightarrow>
      inv s' \<and> offsets s' = offsets s \<and> (\<exists>m'. same_entry m m' \<and> entries s' q = entries s q @ [m'])
      \<and> (\<forall>q'. q' \<noteq> q \<longrightarrow> qok q' \<longrightarrow> entries s' q' = entries s q')"
    and append_err: "inv s \<Longrightarrow> soSaveStreamMessage ops q n m s = (s', Some e) \<Longrightarrow> s' = s"
    and load_stream: "inv s \<Longrightarrow> qok q \<Longrightarrow> soLoadStreamMessages ops q n limit s = (ms, None) \<Longrightarrow>
      ms = take limit (filter (\<lambda>e. n \<le> smSequence e) (entries s q))"
    and sequence_ok: "inv s \<Longrightarrow> qok q \<Longrightarrow> soGetStreamSequence ops q s = (n, None) \<Longrightarrow>
      n = (if entries s q = [] then 0 else smSequence (last (entries s q)))"
    and timestamp_ok: "inv s \<Longrightarrow> qok q \<Longrightarrow> soGetStreamMessageByTimestamp ops q ts s = (n, None) \<Longrightarrow>
      n = (case find (\<lambda>e. ts \<le> unix_milli (mPublishedAt (smMessage e))) (entries s q) of
             None \<Rightarrow> 0 | Some e \<Rightarrow> smSequence e)"
    and stats_ok: "inv s \<Longrightarrow> qok q \<Longrightarrow> soGetStreamStats ops q s = (oldest, newest, None) \<Longrightarrow>
      (if entries s q = [] then oldest = 0 \<and> newest = 0
       else oldest = smSequence (hd (entries s q)) \<and> newest = smSequence (last (entries s q)))"
    and truncate_ok: "inv s \<Longrightarrow> qok q \<Longrightarrow> soDeleteStreamMessagesBefore ops q n s = (s', None) \<Longrightarrow>
      inv s' \<and> offsets s' = offsets s \<and> entries s' q = filter (\<lambda>e. n \<le> smSequence e) (entries s q)
      \<and> (\<forall>q'. q' \<noteq> q \<longrightarrow> qok q' \<longrightarrow> entries s' q' = entries s q')"
    and truncate_err: "inv s \<Longrightarrow> soDeleteStreamMessagesBefore ops q n s = (s', Some e) \<Longrightarrow> s' = s"
    and commit_offset: "inv s \<Longrightarrow> qok q \<Longrightarrow> soSaveConsumerOffset ops q g n s = (s', None) \<Longrightarrow>
      inv s' \<and> offsets s' = (\<lambda>q' g'. if q' = q \<and> g' = g then Some n else offsets s q' g')
      \<and> (\<forall>q'. qok q' \<longrightarrow> entries s' q' = entries s q')"
    and commit_offset_err: "inv s \<Longrightarrow> soSaveConsumerOffset ops q g n s = (s', Some e) \<Longrightarrow> s' = s"
    and load_offset: "inv s \<Longrightarrow> qok q \<Longrightarrow> soLoadConsumerOffset ops q g s = (n, None) \<Longrightarrow>
      n = (case offsets s q g of None \<Rightarrow> 0 | Some n \<Rightarrow> n)"

end
