(* ===== verification/Badger_Store.thy ===== *)
theory Badger_Store
  imports Key_Value Decimal Storage_Codec Storage_Iface
begin

text \<open>
  \<open>internal/storage/badger.go\<close>: the storage interfaces on top of a key-value store. Every method
  is a function of the store's operations \<open>kv\<close> and of the JSON codec \<open>js\<close>, which are parameters,
  and of the order \<open>r\<close> in which the message encoder ranges over a header map.
\<close>

record json_codec =
  jsMessage :: "bytes \<Rightarrow> message \<Rightarrow> codec_error + message"  \<comment> \<open>messages written by early versions\<close>
  jsConfig :: "QueueConfig \<Rightarrow> error + bytes"
  jsUnConfig :: "bytes \<Rightarrow> error + QueueConfig"
  jsStream :: "StreamMessage \<Rightarrow> error + bytes"
  jsUnStream :: "bytes \<Rightarrow> error + StreamMessage"

record 'db badger =
  bsDB :: 'db
  bsBatching :: bool  \<comment> \<open>whether \<open>s.batcher\<close> is set\<close>
  bsClosed :: bool

type_synonym header_order = "(string \<times> string) list \<Rightarrow> (string \<times> string) list"

definition msgPrefix :: string where "msgPrefix = ''msg:''"
definition queuePrefix :: string where "queuePrefix = ''queue:''"
definition streamPrefix :: string where "streamPrefix = ''stream:''"
definition offsetPrefix :: string where "offsetPrefix = ''offset:''"

definition msgKey :: "string \<Rightarrow> string \<Rightarrow> string" where
  "msgKey queue i = msgPrefix @ queue @ '':'' @ i"

definition streamKey :: "string \<Rightarrow> u64 \<Rightarrow> string" where
  "streamKey queue seq = streamPrefix @ queue @ '':'' @ pad_dec 20 (unat seq)"

definition offsetKey :: "string \<Rightarrow> string \<Rightarrow> string" where
  "offsetKey queue grp = offsetPrefix @ queue @ '':'' @ grp"

definition with_db :: "'db badger \<Rightarrow> 'db \<times> error option \<Rightarrow> 'db badger \<times> error option" where
  "with_db s res = (s\<lparr>bsDB := fst res\<rparr>, snd res)"

section \<open>Messages\<close>

definition SaveMessage :: "'db kv \<Rightarrow> header_order \<Rightarrow> message \<Rightarrow> 'db badger effect" where
  \<comment> \<open>with a batcher, the write is one request of a batch that is flushed as a whole before the
    call returns; the other requests of the batch belong to other calls\<close>
  "SaveMessage kv r msg s =
     (let w = (msgKey (mQueue msg) (mID msg), Some (encodeMessage r msg))
      in if bsBatching s then with_db s (kvCommit kv (bsDB s) [w])
         else with_db s (kv_update kv (bsDB s) (\<lambda>_. [w])))"

definition DeleteMessage :: "'db kv \<Rightarrow> string \<Rightarrow> string \<Rightarrow> 'db badger effect" where
  "DeleteMessage kv queue i s = with_db s (kv_update kv (bsDB s) (\<lambda>_. [(msgKey queue i, None)]))"

definition deleteBatchSize :: nat where "deleteBatchSize = 500"

partial_function (option) deleteQueue_loop :: "'db kv \<Rightarrow> string \<Rightarrow> 'db \<Rightarrow> ('db \<times> error option) option" where
  "deleteQueue_loop kv p db =
     (case kvOpen kv db of
        Some e \<Rightarrow> Some (db, Some e)
      | None \<Rightarrow>
          let keys = take deleteBatchSize (map fst (scan_from p p (kvItems kv db))) in
          if keys = [] then Some (db, None)
          else (case kv_update kv db (\<lambda>_. map (\<lambda>k. (k, None)) keys) of
                  (db', Some e) \<Rightarrow> Some (db', Some e)
                | (db', None) \<Rightarrow> deleteQueue_loop kv p db'))"

declare deleteQueue_loop.simps [code]

definition DeleteQueueMessages :: "'db kv \<Rightarrow> string \<Rightarrow> 'db badger \<Rightarrow> ('db badger \<times> error option) go" where
  "DeleteQueueMessages kv queue s =
     map_option (with_db s) (deleteQueue_loop kv (msgPrefix @ queue @ '':'') (bsDB s))"

fun load_loop :: "(bytes \<Rightarrow> message \<Rightarrow> codec_error + message) \<Rightarrow> string \<Rightarrow> nat \<Rightarrow> message list
    \<Rightarrow> (string \<times> bytes) list \<Rightarrow> message list \<times> error option" where
  \<comment> \<open>\<open>n\<close> is the length of the prefix that the id follows in the key\<close>
  "load_loop json queue n messages [] = (messages, None)"
| "load_loop json queue n messages ((key, val) # items) =
     (case decodeMessage json val
        \<lparr>mID = drop n key, mQueue = queue, mPayload = [], mHeaders = [], mAttempt = 0,
         mPublishedAt = zero_time, mVisibleAt = zero_time, mOrderingKey = [], mSequence = 0\<rparr> of
        Inl e \<Rightarrow> (messages, Some (ErrStorage ''decode''))
      | Inr msg \<Rightarrow> load_loop json queue n (messages @ [msg]) items)"

definition LoadMessages :: "'db kv \<Rightarrow> json_codec \<Rightarrow> string \<Rightarrow> 'db badger \<Rightarrow> message list \<times> error option" where
  "LoadMessages kv js queue s =
     (let p = msgPrefix @ queue @ '':''
      in kv_view kv (bsDB s) (\<lambda>items. load_loop (jsMessage js) queue (length p) [] (scan_from p p items))
           (\<lambda>e. ([], Some e)))"

section \<open>Queue configurations\<close>

definition SaveQueue :: "'db kv \<Rightarrow> json_codec \<Rightarrow> string \<Rightarrow> QueueConfig \<Rightarrow> 'db badger effect" where
  "SaveQueue kv js name config s =
     (case jsConfig js config of
        Inl e \<Rightarrow> (s, Some e)
      | Inr data \<Rightarrow> with_db s (kv_update kv (bsDB s) (\<lambda>_. [(queuePrefix @ name, Some data)])))"

fun queues_loop :: "(bytes \<Rightarrow> error + QueueConfig) \<Rightarrow> (string, QueueConfig) gomap
    \<Rightarrow> (string \<times> bytes) list \<Rightarrow> (string, QueueConfig) gomap \<times> error option" where
  "queues_loop un queues [] = (queues, None)"
| "queues_loop un queues ((key, val) # items) =
     (case un val of
        Inl e \<Rightarrow> (queues, Some e)
      | Inr cfg \<Rightarrow> queues_loop un (gm_set queues (drop (length queuePrefix) key) cfg) items)"

definition LoadQueues :: "'db kv \<Rightarrow> json_codec \<Rightarrow> 'db badger \<Rightarrow> (string, QueueConfig) gomap \<times> error option" where
  "LoadQueues kv js s =
     kv_view kv (bsDB s) (\<lambda>items. queues_loop (jsUnConfig js) [] (scan_from queuePrefix queuePrefix items))
       (\<lambda>e. ([], Some e))"

section \<open>Streams\<close>

definition SaveStreamMessage :: "'db kv \<Rightarrow> json_codec \<Rightarrow> string \<Rightarrow> u64 \<Rightarrow> StreamMessage \<Rightarrow> 'db badger effect" where
  "SaveStreamMessage kv js queue seq msg s =
     (case jsStream js msg of
        Inl e \<Rightarrow> (s, Some e)
      | Inr data \<Rightarrow> with_db s (kv_update kv (bsDB s) (\<lambda>_. [(streamKey queue seq, Some data)])))"

fun stream_loop :: "(bytes \<Rightarrow> error + StreamMessage) \<Rightarrow> StreamMessage list
    \<Rightarrow> (string \<times> bytes) list \<Rightarrow> StreamMessage list \<times> error option" where
  "stream_loop un messages [] = (messages, None)"
| "stream_loop un messages ((key, val) # items) =
     (case un val of
        Inl e \<Rightarrow> (messages, Some e)
      | Inr msg \<Rightarrow> stream_loop un (messages @ [msg]) items)"

definition LoadStreamMessages :: "'db kv \<Rightarrow> json_codec \<Rightarrow> string \<Rightarrow> u64 \<Rightarrow> nat \<Rightarrow> 'db badger
    \<Rightarrow> StreamMessage list \<times> error option" where
  "LoadStreamMessages kv js queue fromSeq limit s =
     kv_view kv (bsDB s)
       (\<lambda>items. stream_loop (jsUnStream js) []
          (take limit (scan_from (streamKey queue fromSeq) (streamPrefix @ queue @ '':'') items)))
       (\<lambda>e. ([], Some e))"

definition SaveConsumerOffset :: "'db kv \<Rightarrow> string \<Rightarrow> string \<Rightarrow> u64 \<Rightarrow> 'db badger effect" where
  "SaveConsumerOffset kv queue grp offset s =
     with_db s (kv_update kv (bsDB s) (\<lambda>_. [(offsetKey queue grp, Some (bytes_of (dec (unat offset))))]))"

definition scan_offset :: "bytes \<Rightarrow> u64 \<times> error option" where
  \<comment> \<open>\<open>fmt.Sscanf(string(val), "%d", &offset)\<close>\<close>
  "scan_offset val =
     (case scan_uint (string_of val) of None \<Rightarrow> (0, Some (ErrStorage ''scan'')) | Some n \<Rightarrow> (n, None))"

definition LoadConsumerOffset :: "'db kv \<Rightarrow> string \<Rightarrow> string \<Rightarrow> 'db badger \<Rightarrow> u64 \<times> error option" where
  "LoadConsumerOffset kv queue grp s =
     (case kvOpen kv (bsDB s) of
        Some e \<Rightarrow> (0, Some e)
      | None \<Rightarrow>
          (case kvGet kv (bsDB s) (offsetKey queue grp) of
             None \<Rightarrow> (0, None)
           | Some val \<Rightarrow> scan_offset val))"

fun offsets_loop :: "nat \<Rightarrow> (string, u64) gomap \<Rightarrow> (string \<times> bytes) list \<Rightarrow> (string, u64) gomap \<times> error option" where
  "offsets_loop n offsets [] = (offsets, None)"
| "offsets_loop n offsets ((key, val) # items) =
     (case scan_offset val of
        (_, Some e) \<Rightarrow> (offsets, Some e)
      | (offset, None) \<Rightarrow> offsets_loop n (gm_set offsets (drop n key) offset) items)"

definition LoadAllConsumerOffsets :: "'db kv \<Rightarrow> string \<Rightarrow> 'db badger \<Rightarrow> (string, u64) gomap \<times> error option" where
  "LoadAllConsumerOffsets kv queue s =
     (let p = offsetPrefix @ queue @ '':''
      in kv_view kv (bsDB s) (\<lambda>items. offsets_loop (length offsetPrefix + length queue + 1) [] (scan_from p p items))
           (\<lambda>e. ([], Some e)))"

definition scan_seq :: "string \<Rightarrow> string \<Rightarrow> u64 \<times> error option" where
  \<comment> \<open>the sequence number at the end of a stream key\<close>
  "scan_seq queue key =
     (case scan_uint (drop (length streamPrefix + length queue + 1) key) of
        None \<Rightarrow> (0, Some (ErrStorage ''scan'')) | Some n \<Rightarrow> (n, None))"

definition GetStreamSequence :: "'db kv \<Rightarrow> string \<Rightarrow> 'db badger \<Rightarrow> u64 \<times> error option" where
  \<comment> \<open>a reverse iterator seeks the greatest key up to the one given\<close>
  "GetStreamSequence kv queue s =
     (let p = streamPrefix @ queue @ '':'';
          seekKey = streamPrefix @ queue @ '':'' @ [char_of (255 :: nat)]
      in kv_view kv (bsDB s)
           (\<lambda>items. case dropWhile (\<lambda>kv. seekKey < fst kv) (rev items) of
                      [] \<Rightarrow> (0, None)
                    | (key, _) # _ \<Rightarrow> if prefix p key then scan_seq queue key else (0, None))
           (\<lambda>e. (0, Some e)))"

definition DeleteStreamMessagesBefore :: "'db kv \<Rightarrow> string \<Rightarrow> u64 \<Rightarrow> 'db badger effect" where
  "DeleteStreamMessagesBefore kv queue seq s =
     (let p = streamPrefix @ queue @ '':''; endKey = streamKey queue seq
      in with_db s (kv_update kv (bsDB s)
           (\<lambda>items. map (\<lambda>kv. (fst kv, None)) (takeWhile (\<lambda>kv. \<not> fst kv \<ge> endKey) (scan_from p p items)))))"

fun timestamp_loop :: "(bytes \<Rightarrow> error + StreamMessage) \<Rightarrow> int \<Rightarrow> (string \<times> bytes) list \<Rightarrow> u64 \<times> error option" where
  "timestamp_loop un timestampMs [] = (0, None)"
| "timestamp_loop un timestampMs ((key, val) # items) =
     (case un val of
        Inl e \<Rightarrow> (0, Some e)
      | Inr msg \<Rightarrow>
          if unix_milli (mPublishedAt (smMessage msg)) \<ge> timestampMs then (smSequence msg, None)
          else timestamp_loop un timestampMs items)"

definition GetStreamMessageByTimestamp :: "'db kv \<Rightarrow> json_codec \<Rightarrow> string \<Rightarrow> int \<Rightarrow> 'db badger \<Rightarrow> u64 \<times> error option" where
  "GetStreamMessageByTimestamp kv js queue timestampMs s =
     (let p = streamPrefix @ queue @ '':''
      in kv_view kv (bsDB s) (\<lambda>items. timestamp_loop (jsUnStream js) timestampMs (scan_from p p items))
           (\<lambda>e. (0, Some e)))"

definition GetStreamStats :: "'db kv \<Rightarrow> string \<Rightarrow> 'db badger \<Rightarrow> u64 \<times> u64 \<times> error option" where
  "GetStreamStats kv queue s =
     (let p = streamPrefix @ queue @ '':'';
          (oldest, err) = kv_view kv (bsDB s)
            (\<lambda>items. case scan_from p p items of [] \<Rightarrow> (0, None) | (key, _) # _ \<Rightarrow> scan_seq queue key)
            (\<lambda>e. (0, Some e))
      in case err of
           Some e \<Rightarrow> (oldest, 0, Some e)
         | None \<Rightarrow> (case GetStreamSequence kv queue s of (newest, err) \<Rightarrow> (oldest, newest, err)))"

section \<open>The storage interface\<close>

definition badger_stream_ops :: "'db kv \<Rightarrow> json_codec \<Rightarrow> 'db badger stream_ops" where
  "badger_stream_ops kv js =
     \<lparr>soSaveStreamMessage = SaveStreamMessage kv js,
      soLoadStreamMessages = LoadStreamMessages kv js,
      soSaveConsumerOffset = SaveConsumerOffset kv,
      soLoadConsumerOffset = LoadConsumerOffset kv,
      soLoadAllConsumerOffsets = LoadAllConsumerOffsets kv,
      soGetStreamSequence = GetStreamSequence kv,
      soDeleteStreamMessagesBefore = DeleteStreamMessagesBefore kv,
      soGetStreamMessageByTimestamp = GetStreamMessageByTimestamp kv js,
      soGetStreamStats = GetStreamStats kv\<rparr>"

definition badger_ops :: "'db kv \<Rightarrow> json_codec \<Rightarrow> header_order \<Rightarrow> 'db badger storage_ops" where
  "badger_ops kv js r =
     \<lparr>soSaveMessage = SaveMessage kv r,
      soDeleteMessage = DeleteMessage kv,
      soDeleteQueueMessages = DeleteQueueMessages kv,
      soLoadMessages = LoadMessages kv js,
      soSaveQueue = SaveQueue kv js,
      soLoadQueues = LoadQueues kv js,
      soStream = Some (badger_stream_ops kv js)\<rparr>"

end
