(* ===== verification/Badger_Laws.thy ===== *)
theory Badger_Laws
  imports Badger_Store
begin

text \<open>
  The storage keeps the contract of \<open>Storage_Iface\<close>: \<open>badger_store\<close> puts the key-value store
  and the codecs together, and the message operations of \<open>badger.go\<close> are a \<open>message_store\<close>. The
  promise covers queue names without a colon, because the key of a message is the queue and the
  id joined by one.
\<close>

definition name_ok :: "string \<Rightarrow> bool" where
  "name_ok q \<longleftrightarrow> CHR '':'' \<notin> set q"

definition message_ok :: "header_order \<Rightarrow> message \<Rightarrow> bool" where
  "message_ok r m \<longleftrightarrow> gm_wf (mHeaders m) \<and> nano_range (mPublishedAt m) \<and> nano_range (mVisibleAt m)
     \<and> length (encodeMessage r m) < 2 ^ 63"

definition blank_message :: "string \<Rightarrow> string \<Rightarrow> message" where
  "blank_message q i = \<lparr>mID = i, mQueue = q, mPayload = [], mHeaders = [], mAttempt = 0,
     mPublishedAt = zero_time, mVisibleAt = zero_time, mOrderingKey = [], mSequence = 0\<rparr>"

definition stored :: "'db kv \<Rightarrow> 'db badger \<Rightarrow> string \<Rightarrow> bytes option" where
  "stored kv s = map_of (kvItems kv (bsDB s))"

definition badger_holds :: "'db kv \<Rightarrow> json_codec \<Rightarrow> 'db badger \<Rightarrow> string \<Rightarrow> string \<Rightarrow> message \<Rightarrow> bool" where
  "badger_holds kv js s q i m \<longleftrightarrow> name_ok q \<and>
     (\<exists>data m'. stored kv s (msgKey q i) = Some data
       \<and> decodeMessage (jsMessage js) data (blank_message q i) = Inr m' \<and> same_message m' m)"

definition entry_ok :: "json_codec \<Rightarrow> string \<Rightarrow> bytes \<Rightarrow> bool" where
  \<comment> \<open>what may be stored under a key: a message key leads to a message with that queue and id, a
    queue key to a configuration, a stream key to an entry with that sequence number, and an
    offset key to a number\<close>
  "entry_ok js k data \<longleftrightarrow>
     (\<forall>q i. name_ok q \<longrightarrow> k = msgKey q i \<longrightarrow>
        (\<exists>m. decodeMessage (jsMessage js) data (blank_message q i) = Inr m \<and> mQueue m = q \<and> mID m = i))
   \<and> (prefix queuePrefix k \<longrightarrow> (\<exists>cfg. jsUnConfig js data = Inr cfg))
   \<and> (prefix streamPrefix k \<longrightarrow>
        (\<exists>q m. name_ok q \<and> k = streamKey q (smSequence m) \<and> jsUnStream js data = Inr m))
   \<and> (prefix offsetPrefix k \<longrightarrow> scan_uint (string_of data) \<noteq> None)"

definition badger_inv :: "'db kv \<Rightarrow> ('db \<Rightarrow> bool) \<Rightarrow> json_codec \<Rightarrow> 'db badger \<Rightarrow> bool" where
  "badger_inv kv ok js s \<longleftrightarrow> ok (bsDB s) \<and> (\<forall>k data. stored kv s k = Some data \<longrightarrow> entry_ok js k data)"

lemmas prefix_defs = msgPrefix_def queuePrefix_def streamPrefix_def offsetPrefix_def

lemma keys_disjoint [simp]:
  "\<not> prefix queuePrefix (msgKey q i)" "\<not> prefix streamPrefix (msgKey q i)" "\<not> prefix offsetPrefix (msgKey q i)"
  "msgKey q i \<noteq> queuePrefix @ name" "queuePrefix @ name \<noteq> msgKey q i"
  "msgKey q i \<noteq> streamKey q' n" "streamKey q' n \<noteq> msgKey q i"
  "msgKey q i \<noteq> offsetKey q' g" "offsetKey q' g \<noteq> msgKey q i"
  "\<not> prefix streamPrefix (queuePrefix @ name)" "\<not> prefix offsetPrefix (queuePrefix @ name)"
  "\<not> prefix queuePrefix (streamKey q n)" "\<not> prefix offsetPrefix (streamKey q n)"
  "\<not> prefix queuePrefix (offsetKey q g)" "\<not> prefix streamPrefix (offsetKey q g)"
  "streamKey q n \<noteq> offsetKey q' g" "offsetKey q' g \<noteq> streamKey q n"
  "queuePrefix @ name \<noteq> streamKey q n" "streamKey q n \<noteq> queuePrefix @ name"
  "queuePrefix @ name \<noteq> offsetKey q g" "offsetKey q g \<noteq> queuePrefix @ name"
  by (simp_all add: msgKey_def streamKey_def offsetKey_def prefix_defs)

lemma keys_prefixed [simp]: "prefix streamPrefix (streamKey q n)" "prefix offsetPrefix (offsetKey q g)"
  by (simp_all add: streamKey_def offsetKey_def)

lemma inv_message:
  assumes "badger_inv kv ok js s" and "name_ok q" and "stored kv s (msgKey q i) = Some data"
  shows "\<exists>m. decodeMessage (jsMessage js) data (blank_message q i) = Inr m \<and> mQueue m = q \<and> mID m = i"
  using assms unfolding badger_inv_def entry_ok_def by blast

lemma inv_ok: "badger_inv kv ok js s \<Longrightarrow> ok (bsDB s)"
  by (simp add: badger_inv_def)

lemma inv_less:
  assumes "badger_inv kv ok js s" and "ok (bsDB s')" and "\<And>k data. stored kv s' k = Some data \<Longrightarrow> stored kv s k = Some data"
  shows "badger_inv kv ok js s'"
  using assms unfolding badger_inv_def by blast

lemma inv_write:
  assumes "badger_inv kv ok js s" and "ok (bsDB s')" and "stored kv s' = (stored kv s)(k := v)"
    and "\<And>data. v = Some data \<Longrightarrow> entry_ok js k data"
  shows "badger_inv kv ok js s'"
  using assms unfolding badger_inv_def by (metis fun_upd_apply)

lemma msgKey_inject:
  assumes "name_ok q" and "name_ok q'"
  shows "msgKey q i = msgKey q' i' \<longleftrightarrow> q = q' \<and> i = i'"
proof
  assume "msgKey q i = msgKey q' i'"
  then have "q @ '':'' @ i = q' @ '':'' @ i'" by (simp add: msgKey_def)
  moreover have "takeWhile (\<lambda>c. c \<noteq> CHR '':'') (q @ '':'' @ i) = q"
    "takeWhile (\<lambda>c. c \<noteq> CHR '':'') (q' @ '':'' @ i') = q'"
    using assms by (auto simp: name_ok_def takeWhile_append)
  ultimately show "q = q' \<and> i = i'" by auto
qed simp

lemma encodeMessage_roundtrip:
  assumes "range_order r" and "message_ok r m"
  shows "\<exists>m'. decodeMessage json (encodeMessage r m) (blank_message (mQueue m) (mID m)) = Inr m' \<and> same_message m m'"
proof -
  have l: "length (r (mHeaders m)) = length (mHeaders m)" using assms(1) by (rule range_order_length)
  note e = encodeMessage_fields [of r m, OF l]
  have "decodeMessageFields (enc_fields (r (mHeaders m)) m) (blank_message (mQueue m) (mID m))
      = Inr (m\<lparr>mHeaders := r (mHeaders m)\<rparr>)"
    using assms e
    by (subst decodeMessageFields_enc) (simp_all add: message_ok_def range_order_distinct blank_message_def)
  moreover have "same_message m (m\<lparr>mHeaders := r (mHeaders m)\<rparr>)"
    using assms by (simp add: same_message_def message_ok_def range_order_map_of)
  ultimately show ?thesis
    by (simp add: e decodeMessage_def decodeMessageV2_def messageEncodingV1_def messageEncodingV2_def)
qed

lemma message_ok_plain:
  assumes "range_order r" and "mHeaders m = []" and "nano_range (mPublishedAt m)" and "nano_range (mVisibleAt m)"
    and "length (mPayload m) + length (mOrderingKey m) < 2 ^ 62"
  shows "message_ok r m"
proof -
  note u = length_AppendUvarint'_le
  have "r [] = []" using range_order_length [OF assms(1), of "[]"] by simp
  then have "length (encodeMessage r m) < 2 ^ 63"
    using assms(2,5) u [of "of_nat (length (mPayload m))"] u [of "of_nat (length (mOrderingKey m))"] u [of "ucast (mAttempt m)"]
      u [of "zigzag (unix_nano (mPublishedAt m))"] u [of "zigzag (unix_nano (mVisibleAt m))"] u [of "mSequence m"] u [of 0]
    by (simp add: encodeMessage_fields enc_fields_def enc_headers_def enc_string_def)
  then show ?thesis using assms(2-4) by (simp add: message_ok_def)
qed

lemma load_loop_all:
  assumes "\<forall>x \<in> set items. \<exists>m. decodeMessage json (snd x) (blank_message q (drop n (fst x))) = Inr m"
  shows "load_loop json q n ms items
     = (ms @ map (\<lambda>x. projr (decodeMessage json (snd x) (blank_message q (drop n (fst x))))) items, None)"
  using assms
proof (induction items arbitrary: ms)
  case (Cons x items)
  then show ?case by (cases x) (auto simp: blank_message_def)
qed simp

locale badger_store = kv_store kv ok for kv :: "'db kv" and ok :: "'db \<Rightarrow> bool" +
  fixes js :: json_codec and r :: header_order
  assumes order: "range_order r"
    and config_roundtrip: "jsConfig js cfg = Inr data \<Longrightarrow> jsUnConfig js data = Inr cfg"
    and stream_roundtrip: "jsStream js m = Inr data \<Longrightarrow> \<exists>m'. jsUnStream js data = Inr m' \<and> same_entry m m'"
begin

lemma commit_stored:
  assumes "ok (bsDB s)" and "with_db s (kvCommit kv (bsDB s) [(k, v)]) = (s', None)"
  shows "ok (bsDB s') \<and> stored kv s' = (stored kv s)(k := v)"
proof -
  obtain db' where "kvCommit kv (bsDB s) [(k, v)] = (db', None)" "s' = s\<lparr>bsDB := db'\<rparr>"
    using assms(2) by (cases "kvCommit kv (bsDB s) [(k, v)]") (simp add: with_db_def)
  with commit_ok [OF assms(1)] show ?thesis by (simp add: stored_def)
qed

lemma update_stored:
  assumes "ok (bsDB s)" and "with_db s (kv_update kv (bsDB s) (\<lambda>_. [(k, v)])) = (s', None)"
  shows "ok (bsDB s') \<and> stored kv s' = (stored kv s)(k := v)"
proof -
  obtain db' where "kv_update kv (bsDB s) (\<lambda>_. [(k, v)]) = (db', None)" "s' = s\<lparr>bsDB := db'\<rparr>"
    using assms(2) by (cases "kv_update kv (bsDB s) (\<lambda>_. [(k, v)])") (simp add: with_db_def)
  with update_ok [OF assms(1)] show ?thesis by (simp add: stored_def)
qed

lemma commit_failed:
  assumes "ok (bsDB s)" and "with_db s (kvCommit kv (bsDB s) ws) = (s', Some e)"
  shows "s' = s"
proof -
  obtain db' where "kvCommit kv (bsDB s) ws = (db', Some e)" "s' = s\<lparr>bsDB := db'\<rparr>"
    using assms(2) by (cases "kvCommit kv (bsDB s) ws") (simp add: with_db_def)
  with commit_err [OF assms(1)] show ?thesis by simp
qed

lemma update_failed:
  assumes "ok (bsDB s)" and "with_db s (kv_update kv (bsDB s) f) = (s', Some e)"
  shows "s' = s"
proof -
  obtain db' where "kv_update kv (bsDB s) f = (db', Some e)" "s' = s\<lparr>bsDB := db'\<rparr>"
    using assms(2) by (cases "kv_update kv (bsDB s) f") (simp add: with_db_def)
  with update_err [OF assms(1)] show ?thesis by simp
qed

lemma SaveMessage_stored:
  assumes "ok (bsDB s)" and "SaveMessage kv r m s = (s', None)"
  shows "ok (bsDB s') \<and> stored kv s' = (stored kv s)(msgKey (mQueue m) (mID m) \<mapsto> encodeMessage r m)"
  using assms(2) commit_stored [OF assms(1)] update_stored [OF assms(1)]
  unfolding SaveMessage_def Let_def by (cases "bsBatching s") simp_all

lemma SaveMessage_failed:
  assumes "ok (bsDB s)" and "SaveMessage kv r m s = (s', Some e)"
  shows "s' = s"
  using assms(2) commit_failed [OF assms(1)] update_failed [OF assms(1)]
  unfolding SaveMessage_def Let_def by (cases "bsBatching s") simp_all

lemma DeleteMessage_stored:
  assumes "ok (bsDB s)" and "DeleteMessage kv q i s = (s', None)"
  shows "ok (bsDB s') \<and> stored kv s' = (stored kv s)(msgKey q i := None)"
  using assms(2) update_stored [OF assms(1)] unfolding DeleteMessage_def by simp

lemma DeleteMessage_failed:
  assumes "ok (bsDB s)" and "DeleteMessage kv q i s = (s', Some e)"
  shows "s' = s"
  using assms(2) update_failed [OF assms(1)] unfolding DeleteMessage_def by simp

lemma stored_items:
  assumes "ok (bsDB s)"
  shows "(k, data) \<in> set (kvItems kv (bsDB s)) \<longleftrightarrow> stored kv s k = Some data"
  using key_sorted_distinct [OF items_sorted [OF assms]] by (simp add: stored_def gm_get_in_set)

lemma LoadMessages_loads:
  assumes "badger_inv kv ok js s" and "name_ok q" and "LoadMessages kv js q s = (ms, None)"
  shows "(\<exists>i. badger_holds kv js s q i m) \<longleftrightarrow> (\<exists>m' \<in> set ms. same_message m m')"
proof -
  let ?p = "msgPrefix @ q @ '':''"
  let ?items = "filter (\<lambda>x. prefix ?p (fst x)) (kvItems kv (bsDB s))"
  let ?dec = "\<lambda>x. decodeMessage (jsMessage js) (snd x) (blank_message q (drop (length ?p) (fst x)))"
  have ok: "ok (bsDB s)" using assms(1) by (simp add: badger_inv_def)
  have item: "x \<in> set ?items \<longleftrightarrow> (\<exists>i data. x = (msgKey q i, data) \<and> stored kv s (msgKey q i) = Some data)" for x
    using stored_items [OF ok] by (cases x) (auto simp: prefix_def msgKey_def)
  have dec: "?dec (msgKey q i, data) = decodeMessage (jsMessage js) data (blank_message q i)" for i data
    by (simp add: msgKey_def)
  have total: "\<exists>m. decodeMessage (jsMessage js) data (blank_message q i) = Inr m"
    if "stored kv s (msgKey q i) = Some data" for i data
    using inv_message [OF assms(1,2) that] by blast
  have "\<exists>m. ?dec x = Inr m" if x: "x \<in> set ?items" for x
  proof -
    obtain i data where "x = (msgKey q i, data)" "stored kv s (msgKey q i) = Some data"
      using x item by blast
    with total [of i data] dec show ?thesis by simp
  qed
  then have "load_loop (jsMessage js) q (length ?p) [] ?items = (map (\<lambda>x. projr (?dec x)) ?items, None)"
    using load_loop_all [of ?items "jsMessage js" q "length ?p" "[]"] by simp
  then have ms: "ms = map (\<lambda>x. projr (?dec x)) ?items"
    using assms(3) items_sorted [OF ok]
    by (simp add: LoadMessages_def kv_view_def scan_prefix_filter Let_def split: option.splits)
  have mem: "m' \<in> set ms \<longleftrightarrow> (\<exists>i data. stored kv s (msgKey q i) = Some data
      \<and> decodeMessage (jsMessage js) data (blank_message q i) = Inr m')" for m'
  proof
    assume "m' \<in> set ms"
    then obtain x where x: "x \<in> set ?items" "m' = projr (?dec x)" by (auto simp: ms)
    then obtain i data where i: "x = (msgKey q i, data)" "stored kv s (msgKey q i) = Some data"
      using item by blast
    obtain m where m: "decodeMessage (jsMessage js) data (blank_message q i) = Inr m"
      using total [OF i(2)] by blast
    have "m' = m" unfolding x(2) i(1) dec m by simp
    with i(2) m show "\<exists>i data. stored kv s (msgKey q i) = Some data
        \<and> decodeMessage (jsMessage js) data (blank_message q i) = Inr m'" by blast
  next
    assume "\<exists>i data. stored kv s (msgKey q i) = Some data
        \<and> decodeMessage (jsMessage js) data (blank_message q i) = Inr m'"
    then obtain i data where i: "stored kv s (msgKey q i) = Some data"
      "decodeMessage (jsMessage js) data (blank_message q i) = Inr m'" by blast
    then have "(msgKey q i, data) \<in> set ?items" using item by blast
    then have "projr (?dec (msgKey q i, data)) \<in> set ms" unfolding ms set_map by (rule imageI)
    then show "m' \<in> set ms" by (simp only: dec i(2) sum.sel)
  qed
  have sym: "same_message m' m \<longleftrightarrow> same_message m m'" for m' using same_message_sym by blast
  show ?thesis
    unfolding badger_holds_def Bex_def mem sym using assms(2) by blast
qed

lemma SaveMessage_inv:
  assumes "badger_inv kv ok js s" and "name_ok (mQueue m)" and "message_ok r m"
  shows "badger_inv kv ok js (fst (SaveMessage kv r m s))"
proof -
  obtain s' e where s': "SaveMessage kv r m s = (s', e)" by (cases "SaveMessage kv r m s")
  show ?thesis
  proof (cases e)
    case None
    note st = SaveMessage_stored [OF inv_ok [OF assms(1)] s' [unfolded None]]
    obtain m' where m': "decodeMessage (jsMessage js) (encodeMessage r m) (blank_message (mQueue m) (mID m)) = Inr m'"
      "same_message m m'" using encodeMessage_roundtrip [OF order assms(3)] by blast
    have "entry_ok js (msgKey (mQueue m) (mID m)) (encodeMessage r m)"
      using m' same_messageD(1,2) [OF m'(2)] msgKey_inject assms(2) by (auto simp: entry_ok_def)
    then show ?thesis using inv_write [OF assms(1) conjunct1 [OF st] conjunct2 [OF st]] s' by simp
  next
    case (Some e')
    have "s' = s" by (rule SaveMessage_failed [OF inv_ok [OF assms(1)] s' [unfolded Some]])
    with s' assms(1) show ?thesis by simp
  qed
qed

lemma DeleteMessage_inv:
  assumes "badger_inv kv ok js s"
  shows "badger_inv kv ok js (fst (DeleteMessage kv q i s))"
proof -
  obtain s' e where s': "DeleteMessage kv q i s = (s', e)" by (cases "DeleteMessage kv q i s")
  show ?thesis
  proof (cases e)
    case None
    note st = DeleteMessage_stored [OF inv_ok [OF assms(1)] s' [unfolded None]]
    then show ?thesis using inv_write [OF assms conjunct1 [OF st] conjunct2 [OF st]] s' by simp
  next
    case (Some e')
    have "s' = s" by (rule DeleteMessage_failed [OF inv_ok [OF assms(1)] s' [unfolded Some]])
    with s' assms(1) show ?thesis by simp
  qed
qed

lemma SaveMessage_holds:
  assumes "badger_inv kv ok js s" and "name_ok (mQueue m)" and "message_ok r m" and "SaveMessage kv r m s = (s', None)"
  shows "badger_holds kv js s' q i m' \<longleftrightarrow> (if q = mQueue m \<and> i = mID m then same_message m m' else badger_holds kv js s q i m')"
proof (cases "q = mQueue m \<and> i = mID m")
  case True
  note st = SaveMessage_stored [OF inv_ok [OF assms(1)] assms(4)]
  obtain m1 where m1: "decodeMessage (jsMessage js) (encodeMessage r m) (blank_message (mQueue m) (mID m)) = Inr m1"
    "same_message m m1" using encodeMessage_roundtrip [OF order assms(3)] by blast
  have "same_message m1 m' \<longleftrightarrow> same_message m m'"
    using m1(2) same_message_sym same_message_trans by blast
  with True st m1(1) assms(2) show ?thesis by (simp add: badger_holds_def)
next
  case False
  note st = SaveMessage_stored [OF inv_ok [OF assms(1)] assms(4)]
  have "stored kv s' (msgKey q i) = stored kv s (msgKey q i)" if "name_ok q"
    using False that st assms(2) msgKey_inject by auto
  then have "badger_holds kv js s' q i m' \<longleftrightarrow> badger_holds kv js s q i m'"
    by (cases "name_ok q") (simp_all add: badger_holds_def)
  then show ?thesis unfolding if_not_P [OF False] .
qed

lemma DeleteMessage_holds:
  assumes "badger_inv kv ok js s" and "name_ok q'" and "DeleteMessage kv q' i' s = (s', None)"
  shows "badger_holds kv js s' q i m' \<longleftrightarrow> \<not> (q = q' \<and> i = i') \<and> badger_holds kv js s q i m'"
proof -
  note st = DeleteMessage_stored [OF inv_ok [OF assms(1)] assms(3)]
  have "stored kv s' (msgKey q i) = (if q = q' \<and> i = i' then None else stored kv s (msgKey q i))" if "name_ok q"
    using that st assms(2) msgKey_inject [of q q' i i'] by auto
  then show ?thesis by (cases "name_ok q"; cases "q = q' \<and> i = i'") (simp_all add: badger_holds_def)
qed

lemma holds_key:
  assumes "badger_inv kv ok js s" and "badger_holds kv js s q i m"
  shows "mQueue m = q \<and> mID m = i \<and> name_ok q"
proof -
  from assms(2) obtain data m' where h: "stored kv s (msgKey q i) = Some data" "name_ok q"
    "decodeMessage (jsMessage js) data (blank_message q i) = Inr m'" "same_message m' m"
    unfolding badger_holds_def by blast
  moreover obtain m1 where "decodeMessage (jsMessage js) data (blank_message q i) = Inr m1" "mQueue m1 = q" "mID m1 = i"
    using inv_message [OF assms(1) h(2,1)] by blast
  ultimately show ?thesis using same_messageD(1,2) [of m' m] by simp
qed

end

sublocale badger_store \<subseteq> durable: message_store "badger_ops kv js r" "badger_holds kv js" "badger_inv kv ok js" name_ok "message_ok r"
proof (unfold_locales, goal_cases)
  case (1 s m)
  then show ?case using SaveMessage_inv by (simp add: badger_ops_def)
next
  case (2 s m s' q i m')
  then show ?case using SaveMessage_holds by (simp add: badger_ops_def)
next
  case (3 s m s' e)
  have "s' = s" using 3(2) by (intro SaveMessage_failed [OF inv_ok [OF 3(1)]]) (simp add: badger_ops_def)
  then show ?case by simp
next
  case (4 s q i)
  then show ?case using DeleteMessage_inv by (simp add: badger_ops_def)
next
  case (5 s q' i' s' q i m')
  then show ?case using DeleteMessage_holds by (simp add: badger_ops_def)
next
  case (6 s q i s' e)
  have "s' = s" using 6(2) by (intro DeleteMessage_failed [OF inv_ok [OF 6(1)]]) (simp add: badger_ops_def)
  then show ?case by simp
next
  case (7 s q ms m)
  then show ?case using LoadMessages_loads by (simp add: badger_ops_def)
next
  case (8 s q i m)
  then show ?case using holds_key by blast
qed

section \<open>Deleting a queue\<close>

context badger_store
begin

lemma scan_items:
  assumes "ok db"
  shows "k \<in> set (map fst (scan_from p p (kvItems kv db))) \<longleftrightarrow> prefix p k \<and> map_of (kvItems kv db) k \<noteq> None"
proof -
  have "scan_from p p (kvItems kv db) = filter (\<lambda>x. prefix p (fst x)) (kvItems kv db)"
    by (rule scan_prefix_filter [OF items_sorted [OF assms]])
  then show ?thesis by (force simp: map_of_eq_None_iff)
qed

lemma scan_length:
  assumes "ok db" and "ok db'" and "\<forall>k. map_of (kvItems kv db') k = (if k \<in> K then None else map_of (kvItems kv db) k)"
    and "k \<in> K" and "k \<in> set (map fst (scan_from p p (kvItems kv db)))"
  shows "length (scan_from p p (kvItems kv db')) < length (scan_from p p (kvItems kv db))"
proof -
  let ?ks = "\<lambda>db. map fst (scan_from p p (kvItems kv db))"
  have d: "distinct (?ks db)" if "ok db" for db
    using key_sorted_distinct [OF key_sorted_filter [OF items_sorted [OF that]]] items_sorted [OF that]
    by (simp add: scan_prefix_filter)
  have "set (?ks db') \<subseteq> set (?ks db) - {k}"
  proof
    fix x assume "x \<in> set (?ks db')"
    then have "prefix p x" and x: "map_of (kvItems kv db') x \<noteq> None" using scan_items [OF assms(2)] by blast+
    moreover have "x \<notin> K" and "map_of (kvItems kv db) x \<noteq> None" using x assms(3) by metis+
    ultimately show "x \<in> set (?ks db) - {k}" using scan_items [OF assms(1)] assms(4) by blast
  qed
  then have "set (?ks db') \<subset> set (?ks db)" using assms(5) by blast
  then have "card (set (?ks db')) < card (set (?ks db))" by (rule psubset_card_mono [OF finite_set])
  then show ?thesis using d [OF assms(1)] d [OF assms(2)] by (simp only: distinct_card length_map)
qed

lemma deleteQueue_loop_returns:
  assumes "ok db"
  shows "\<exists>db' e. deleteQueue_loop kv p db = Some (db', e) \<and> ok db'
    \<and> (\<forall>k. \<not> prefix p k \<longrightarrow> map_of (kvItems kv db') k = map_of (kvItems kv db) k)
    \<and> (\<forall>k d. map_of (kvItems kv db') k = Some d \<longrightarrow> map_of (kvItems kv db) k = Some d)
    \<and> (e = None \<longrightarrow> (\<forall>k. prefix p k \<longrightarrow> map_of (kvItems kv db') k = None))"
  using assms
proof (induction "length (scan_from p p (kvItems kv db))" arbitrary: db rule: less_induct)
  case less
  let ?keys = "take deleteBatchSize (map fst (scan_from p p (kvItems kv db)))"
  show ?case
  proof (cases "kvOpen kv db")
    case (Some e)
    then show ?thesis using less.prems by (subst deleteQueue_loop.simps) simp
  next
    case open_ok: None
    show ?thesis
    proof (cases "?keys = []")
      case True
      then have "scan_from p p (kvItems kv db) = []" by (simp add: deleteBatchSize_def)
      then have "\<not> (prefix p k \<and> map_of (kvItems kv db) k \<noteq> None)" for k
        using scan_items [OF less.prems, of k p] by simp
      then show ?thesis
        using True open_ok less.prems by (subst deleteQueue_loop.simps) (auto simp: Let_def)
    next
      case False
      obtain db1 e where u: "kv_update kv db (\<lambda>_. map (\<lambda>k. (k, None)) ?keys) = (db1, e)"
        by (cases "kv_update kv db (\<lambda>_. map (\<lambda>k. (k, None)) ?keys)")
      show ?thesis
      proof (cases e)
        case (Some e')
        then have "db1 = db" using update_err [OF less.prems] u by blast
        then show ?thesis
          using False open_ok less.prems u Some by (subst deleteQueue_loop.simps) (simp add: Let_def)
      next
        case None
        have up: "ok db1" "\<forall>k. map_of (kvItems kv db1) k = (if k \<in> set ?keys then None else map_of (kvItems kv db) k)"
          using update_ok [OF less.prems u [unfolded None]] by (simp_all add: apply_deletes)
        have k: "hd ?keys \<in> set ?keys" using False by (rule hd_in_set)
        then have "hd ?keys \<in> set (map fst (scan_from p p (kvItems kv db)))" using set_take_subset by fast
        from scan_length [OF less.prems up k this] less.hyps up(1) obtain db' e' where
          r: "deleteQueue_loop kv p db1 = Some (db', e')" "ok db'"
            "\<forall>k. \<not> prefix p k \<longrightarrow> map_of (kvItems kv db') k = map_of (kvItems kv db1) k"
            "\<forall>k d. map_of (kvItems kv db') k = Some d \<longrightarrow> map_of (kvItems kv db1) k = Some d"
            "e' = None \<longrightarrow> (\<forall>k. prefix p k \<longrightarrow> map_of (kvItems kv db') k = None)" by blast
        have "deleteQueue_loop kv p db = Some (db', e')"
          using False open_ok u None r(1) by (subst deleteQueue_loop.simps) (simp add: Let_def)
        moreover have "map_of (kvItems kv db') k = map_of (kvItems kv db) k" if "\<not> prefix p k" for k
        proof -
          have "k \<notin> set (map fst (scan_from p p (kvItems kv db)))"
            using that scan_items [OF less.prems, of k p] by blast
          then have "k \<notin> set ?keys" using in_set_takeD by metis
          then show ?thesis using r(3) up(2) that by simp
        qed
        moreover have "map_of (kvItems kv db) k = Some d" if "map_of (kvItems kv db') k = Some d" for k d
        proof -
          have "map_of (kvItems kv db1) k = Some d" using r(4) that by blast
          then show ?thesis using up(2) [rule_format, of k] by (simp split: if_splits)
        qed
        ultimately show ?thesis using r(2,5) by blast
      qed
    qed
  qed
qed

lemma msgKey_prefix:
  assumes "name_ok q" and "name_ok q'"
  shows "prefix (msgPrefix @ q @ '':'') (msgKey q' i) \<longleftrightarrow> q = q'"
proof -
  have "prefix (msgPrefix @ q @ '':'') (msgKey q' i) \<longleftrightarrow> (\<exists>j. msgKey q' i = msgKey q j)"
    by (auto simp: prefix_def msgKey_def)
  then show ?thesis using msgKey_inject [OF assms(2,1)] by auto
qed

lemma DeleteQueueMessages_returns:
  assumes "badger_inv kv ok js s" and "name_ok q"
  shows "\<exists>s' e. DeleteQueueMessages kv q s = Some (s', e) \<and> badger_inv kv ok js s'
    \<and> (\<forall>k. \<not> prefix msgPrefix k \<longrightarrow> stored kv s' k = stored kv s k)
    \<and> (\<forall>q' i m. q' \<noteq> q \<longrightarrow> badger_holds kv js s' q' i m = badger_holds kv js s q' i m)
    \<and> (e = None \<longrightarrow> (\<forall>i m. \<not> badger_holds kv js s' q i m))"
proof -
  let ?p = "msgPrefix @ q @ '':''"
  from deleteQueue_loop_returns [OF inv_ok [OF assms(1)], of ?p] obtain db' e where
    r: "deleteQueue_loop kv ?p (bsDB s) = Some (db', e)" "ok db'"
      "\<forall>k. \<not> prefix ?p k \<longrightarrow> map_of (kvItems kv db') k = map_of (kvItems kv (bsDB s)) k"
      "\<forall>k d. map_of (kvItems kv db') k = Some d \<longrightarrow> map_of (kvItems kv (bsDB s)) k = Some d"
      "e = None \<longrightarrow> (\<forall>k. prefix ?p k \<longrightarrow> map_of (kvItems kv db') k = None)" by blast
  let ?s = "s\<lparr>bsDB := db'\<rparr>"
  have st: "stored kv ?s (msgKey q' i) = stored kv s (msgKey q' i)" if "q' \<noteq> q" "name_ok q'" for q' i
    using r(3) that msgKey_prefix [OF assms(2) that(2), of i] by (simp add: stored_def)
  have gone: "stored kv ?s (msgKey q i) = None" if "e = None" for i
    using r(5) that msgKey_prefix [OF assms(2) assms(2), of i] by (simp add: stored_def)
  have "stored kv ?s k = Some d \<Longrightarrow> stored kv s k = Some d" for k d using r(4) by (simp add: stored_def)
  then have "badger_inv kv ok js ?s" using inv_less [OF assms(1), of ?s] r(2) by simp
  moreover have "badger_holds kv js ?s q' i m = badger_holds kv js s q' i m" if "q' \<noteq> q" for q' i m
    using st [OF that] by (cases "name_ok q'") (simp_all add: badger_holds_def)
  moreover have "\<not> badger_holds kv js ?s q i m" if "e = None" for i m
    using gone [OF that] by (simp add: badger_holds_def)
  moreover have "stored kv ?s k = stored kv s k" if "\<not> prefix msgPrefix k" for k
    using r(3) append_prefixD [of msgPrefix "q @ '':''" k] that by (auto simp: stored_def)
  ultimately show ?thesis using r(1) by (simp add: DeleteQueueMessages_def with_db_def)
qed

end

end
