(* ===== verification/Badger_Streams.thy ===== *)
theory Badger_Streams
  imports Badger_Laws
begin

text \<open>
  The storage keeps the contracts of queue configurations and of streams: the remaining methods of
  \<open>badger.go\<close> are a \<open>broker_store\<close> and a \<open>stream_store\<close>. Since a padded decimal number sorts like
  the number, the keys of a stream are visited in the order of their sequence numbers.
\<close>

section \<open>Sorted lists of entries\<close>

lemma key_sorted_unique:
  assumes "key_sorted xs" and "key_sorted ys" and "map_of xs = map_of ys"
  shows "xs = ys"
proof -
  have set_eq: "set xs = set ys"
  proof -
    have "(k, v) \<in> set xs \<longleftrightarrow> (k, v) \<in> set ys" for k v
      using gm_get_in_set [OF key_sorted_distinct [OF assms(1)], of k v]
        gm_get_in_set [OF key_sorted_distinct [OF assms(2)], of k v] assms(3) by simp
    then show ?thesis by auto
  qed
  have irr: "sorted_wrt (\<lambda>x y. fst x < fst y) zs \<Longrightarrow> sorted (map fst zs) \<and> distinct (map fst zs)" for zs :: "(string \<times> 'a) list"
    by (induction zs) (auto simp: less_imp_le)
  have fst_eq: "map fst xs = map fst ys"
    using irr [of xs] irr [of ys] assms(1,2) set_eq unfolding key_sorted_def
    by (intro sorted_distinct_set_unique) auto
  show ?thesis
  proof (rule pair_list_eqI [OF fst_eq])
    have snd_map: "map snd zs = map (\<lambda>k. the (map_of zs k)) (map fst zs)" if "distinct (map fst zs)" for zs :: "(string \<times> 'a) list"
      using that by (auto intro!: map_cong simp: map_of_is_SomeI)
    show "map snd xs = map snd ys"
      using snd_map [OF key_sorted_distinct [OF assms(1)]] snd_map [OF key_sorted_distinct [OF assms(2)]] fst_eq assms(3) by simp
  qed
qed

lemma map_of_filter_fun:
  "map_of (filter (\<lambda>kv. P (fst kv)) items) = (\<lambda>k. if P k then map_of items k else None)"
  by (simp add: fun_eq_iff map_of_filter_key)

lemma filtered_unique:
  assumes "key_sorted xs" and "key_sorted ys" and "\<And>k. P k \<Longrightarrow> map_of xs k = map_of ys k"
  shows "filter (\<lambda>kv. P (fst kv)) xs = filter (\<lambda>kv. P (fst kv)) ys"
  using assms by (intro key_sorted_unique) (auto simp: key_sorted_filter map_of_filter_fun)

lemma dropWhile_rev_filter:
  "key_sorted items \<Longrightarrow> dropWhile (\<lambda>kv. b < fst kv) (rev items) = rev (filter (\<lambda>kv. fst kv \<le> b) items)"
proof (induction items rule: rev_induct)
  case (snoc x xs)
  then have s: "key_sorted xs" "\<forall>y \<in> set xs. fst y < fst x" by (auto simp: key_sorted_def sorted_wrt_append)
  show ?case
  proof (cases "b < fst x")
    case True
    with snoc.IH [OF s(1)] show ?thesis by simp
  next
    case False
    with s(2) have "filter (\<lambda>kv. fst kv \<le> b) xs = xs" by (auto simp: filter_id_conv)
    with False show ?thesis by simp
  qed
qed simp

lemma last_filter: "xs \<noteq> [] \<and> P (last xs) \<Longrightarrow> last (filter P xs) = last xs \<and> filter P xs \<noteq> []"
  by (cases xs rule: rev_cases) simp_all

lemma key_sorted_last: "key_sorted xs \<Longrightarrow> x \<in> set xs \<Longrightarrow> fst x \<le> fst (last xs)"
  by (cases xs rule: rev_cases) (auto simp: key_sorted_def sorted_wrt_append less_imp_le)

lemma takeWhile_sorted:
  "key_sorted xs \<Longrightarrow> takeWhile (\<lambda>kv. \<not> fst kv \<ge> b) xs = filter (\<lambda>kv. fst kv < b) xs"
proof (induction xs)
  case (Cons x xs)
  then have s: "key_sorted xs" "\<forall>y \<in> set xs. fst x < fst y" by (auto simp: key_sorted_def)
  show ?case
  proof (cases "fst x < b")
    case True
    with Cons.IH [OF s(1)] show ?thesis by (simp add: not_le)
  next
    case False
    with s(2) have "filter (\<lambda>kv. fst kv < b) xs = []" by (auto simp: filter_empty_conv)
    with False show ?thesis by (simp add: not_le)
  qed
qed simp

lemma append_less_iff [simp]: "p @ s < p @ t \<longleftrightarrow> s < (t :: string)"
  by (induction p) auto

lemma append_le_iff [simp]: "p @ s \<le> p @ t \<longleftrightarrow> s \<le> (t :: string)"
  by (induction p) auto

section \<open>Stream keys\<close>

lemma streamKey_less: "streamKey q a < streamKey q b \<longleftrightarrow> a < b"
  by (simp add: streamKey_def pad_dec_less)

lemma streamKey_le: "streamKey q a \<le> streamKey q b \<longleftrightarrow> a \<le> b"
  using streamKey_less [of q b a] by (simp add: not_less [symmetric])

lemma streamKey_inject:
  assumes "name_ok q" and "name_ok q'"
  shows "streamKey q a = streamKey q' b \<longleftrightarrow> q = q' \<and> a = b"
proof
  assume "streamKey q a = streamKey q' b"
  then have "msgKey q (pad_dec 20 (unat a)) = msgKey q' (pad_dec 20 (unat b))"
    by (simp add: streamKey_def msgKey_def)
  then show "q = q' \<and> a = b" using msgKey_inject [OF assms] pad_dec_inject by blast
qed simp

lemma streamKey_prefix:
  assumes "name_ok q" and "name_ok q'"
  shows "prefix (streamPrefix @ q @ '':'') (streamKey q' n) \<longleftrightarrow> q = q'"
proof
  assume "prefix (streamPrefix @ q @ '':'') (streamKey q' n)"
  then obtain j where "q @ '':'' @ j = q' @ '':'' @ pad_dec 20 (unat n)" by (auto simp: prefix_def streamKey_def)
  then have "msgKey q j = msgKey q' (pad_dec 20 (unat n))" by (simp add: msgKey_def)
  then show "q = q'" using msgKey_inject [OF assms] by blast
qed (simp add: streamKey_def)

lemma scan_seq_streamKey [simp]: "scan_seq q (streamKey q n) = (n, None)"
  by (simp add: scan_seq_def streamKey_def)

lemma offsetKey_inject:
  assumes "name_ok q" and "name_ok q'"
  shows "offsetKey q g = offsetKey q' g' \<longleftrightarrow> q = q' \<and> g = g'"
  using msgKey_inject [OF assms, of g g'] by (simp add: offsetKey_def msgKey_def)

lemma stream_prefix_only [simp]: "\<not> prefix (streamPrefix @ p) (offsetKey q g)"
  using keys_disjoint(15) append_prefixD by blast

section \<open>What a state has stored\<close>

definition badger_configs :: "'db kv \<Rightarrow> json_codec \<Rightarrow> 'db badger \<Rightarrow> string \<Rightarrow> QueueConfig option" where
  "badger_configs kv js s name = map_option (\<lambda>data. projr (jsUnConfig js data)) (stored kv s (queuePrefix @ name))"

definition badger_entries :: "'db kv \<Rightarrow> json_codec \<Rightarrow> 'db badger \<Rightarrow> string \<Rightarrow> StreamMessage list" where
  "badger_entries kv js s q = map (\<lambda>x. projr (jsUnStream js (snd x)))
     (filter (\<lambda>x. prefix (streamPrefix @ q @ '':'') (fst x)) (kvItems kv (bsDB s)))"

definition badger_offsets :: "'db kv \<Rightarrow> 'db badger \<Rightarrow> string \<Rightarrow> string \<Rightarrow> u64 option" where
  "badger_offsets kv s q g =
     (if name_ok q then map_option (\<lambda>data. the (scan_uint (string_of data))) (stored kv s (offsetKey q g)) else None)"

lemma queues_loop_all:
  assumes "distinct (map fst items)" and "\<forall>x \<in> set items. \<exists>name cfg. fst x = queuePrefix @ name \<and> un (snd x) = Inr cfg"
    and "gm_wf acc"
  shows "\<exists>m. queues_loop un acc items = (m, None) \<and> gm_wf m
    \<and> (\<forall>name. gm_get m name = (case map_of items (queuePrefix @ name) of
          Some data \<Rightarrow> Some (projr (un data)) | None \<Rightarrow> gm_get acc name))"
  using assms
proof (induction items arbitrary: acc)
  case (Cons x items)
  obtain name cfg where x: "fst x = queuePrefix @ name" "un (snd x) = Inr cfg" using Cons.prems(2) by auto
  have "gm_wf (gm_set acc name cfg)" using Cons.prems(3) by (rule gm_wf_set)
  from Cons.IH [OF _ _ this] Cons.prems(1,2) obtain m where
    m: "queues_loop un (gm_set acc name cfg) items = (m, None)" "gm_wf m"
      "\<And>n. gm_get m n = (case map_of items (queuePrefix @ n) of
          Some data \<Rightarrow> Some (projr (un data)) | None \<Rightarrow> gm_get (gm_set acc name cfg) n)" by auto
  have new: "map_of items (queuePrefix @ name) = None"
    using Cons.prems(1) x(1) by (simp add: map_of_eq_None_iff)
  have "gm_get m n = (case map_of (x # items) (queuePrefix @ n) of
          Some data \<Rightarrow> Some (projr (un data)) | None \<Rightarrow> gm_get acc n)" for n
    using m(3) [of n] new x by (cases "n = name") (simp_all add: map_of_Cons_code split: option.splits)
  then show ?case using m(1,2) x by (cases x) simp
qed simp

lemma stream_loop_all:
  assumes "\<forall>x \<in> set items. \<exists>m. un (snd x) = Inr m"
  shows "stream_loop un ms items = (ms @ map (\<lambda>x. projr (un (snd x))) items, None)"
  using assms
proof (induction items arbitrary: ms)
  case (Cons x items)
  then show ?case by (cases x) auto
qed simp

context badger_store
begin

lemma stored_sorted: "badger_inv kv ok js s \<Longrightarrow> key_sorted (kvItems kv (bsDB s))"
  by (rule items_sorted [OF inv_ok])

text \<open>A write of one key, whatever transaction it was part of.\<close>

lemma write_cases:
  assumes "badger_inv kv ok js s" and "with_db s (kv_update kv (bsDB s) (\<lambda>_. [(k, v)])) = (s', e)"
    and "\<And>data. v = Some data \<Longrightarrow> entry_ok js k data"
  shows "badger_inv kv ok js s' \<and> stored kv s' = (if e = None then (stored kv s)(k := v) else stored kv s)
    \<and> (e \<noteq> None \<longrightarrow> s' = s)"
proof (cases e)
  case None
  note u = update_stored [OF inv_ok [OF assms(1)] assms(2) [unfolded None]]
  show ?thesis using inv_write [OF assms(1) conjunct1 [OF u] conjunct2 [OF u] assms(3)] u None by simp
next
  case (Some e')
  have "s' = s" by (rule update_failed [OF inv_ok [OF assms(1)] assms(2) [unfolded Some]])
  then show ?thesis using Some assms(1) by simp
qed

lemma SaveQueue_cases:
  assumes "badger_inv kv ok js s" and "SaveQueue kv js name cfg s = (s', e)"
  shows "badger_inv kv ok js s' \<and> (e \<noteq> None \<longrightarrow> s' = s)
    \<and> (e = None \<longrightarrow> (\<exists>data. jsUnConfig js data = Inr cfg \<and> stored kv s' = (stored kv s)(queuePrefix @ name \<mapsto> data)))"
proof (cases "jsConfig js cfg")
  case (Inl err)
  then show ?thesis using assms by (auto simp: SaveQueue_def)
next
  case (Inr data)
  have u: "jsUnConfig js data = Inr cfg" by (rule config_roundtrip [OF Inr])
  then have "entry_ok js (queuePrefix @ name) data" by (auto simp: entry_ok_def)
  then have "badger_inv kv ok js s' \<and> stored kv s' = (if e = None then (stored kv s)(queuePrefix @ name \<mapsto> data) else stored kv s)
      \<and> (e \<noteq> None \<longrightarrow> s' = s)"
    using assms Inr by (intro write_cases [OF assms(1)]) (auto simp: SaveQueue_def)
  then show ?thesis using u by (auto split: if_splits)
qed

lemma LoadQueues_loads:
  assumes "badger_inv kv ok js s" and "LoadQueues kv js s = (cfgs, None)"
  shows "gm_wf cfgs \<and> gm_get cfgs = badger_configs kv js s"
proof -
  let ?items = "filter (\<lambda>x. prefix queuePrefix (fst x)) (kvItems kv (bsDB s))"
  have decodes: "\<exists>name cfg. fst x = queuePrefix @ name \<and> jsUnConfig js (snd x) = Inr cfg" if "x \<in> set ?items" for x
  proof -
    have x: "prefix queuePrefix (fst x)" "stored kv s (fst x) = Some (snd x)"
      using that stored_items [OF inv_ok [OF assms(1)], of "fst x" "snd x"] by auto
    then obtain cfg where "jsUnConfig js (snd x) = Inr cfg"
      using assms(1) unfolding badger_inv_def entry_ok_def by blast
    moreover obtain name where "fst x = queuePrefix @ name" using x(1) by (auto elim: prefixE)
    ultimately show ?thesis by blast
  qed
  have d: "distinct (map fst ?items)"
    by (rule key_sorted_distinct [OF key_sorted_filter [OF stored_sorted [OF assms(1)]]])
  have "\<forall>x \<in> set ?items. \<exists>name cfg. fst x = queuePrefix @ name \<and> jsUnConfig js (snd x) = Inr cfg"
    using decodes by blast
  from queues_loop_all [OF d this, of "[]"] obtain m where m: "queues_loop (jsUnConfig js) [] ?items = (m, None)" "gm_wf m"
    "\<forall>name. gm_get m name = (case map_of ?items (queuePrefix @ name) of
        Some data \<Rightarrow> Some (projr (jsUnConfig js data)) | None \<Rightarrow> gm_get [] name)"
    by auto
  have "cfgs = m" using assms(2) m(1) stored_sorted [OF assms(1)]
    by (simp add: LoadQueues_def kv_view_def scan_prefix_filter split: option.splits)
  moreover have "gm_get m name = badger_configs kv js s name" for name
    using m(3) by (simp add: badger_configs_def stored_def map_of_filter_fun split: option.splits)
  ultimately show ?thesis using m(2) by auto
qed

section \<open>Streams\<close>

lemma stream_item:
  assumes "badger_inv kv ok js s" and "name_ok q"
    and "x \<in> set (filter (\<lambda>x. prefix (streamPrefix @ q @ '':'') (fst x)) (kvItems kv (bsDB s)))"
  shows "\<exists>m. jsUnStream js (snd x) = Inr m \<and> fst x = streamKey q (smSequence m)"
proof -
  have x: "prefix (streamPrefix @ q @ '':'') (fst x)" "stored kv s (fst x) = Some (snd x)"
    using assms(3) stored_items [OF inv_ok [OF assms(1)], of "fst x" "snd x"] by auto
  then have "prefix streamPrefix (fst x)" by (meson append_prefixD)
  with x(2) obtain q' m where m: "name_ok q'" "fst x = streamKey q' (smSequence m)" "jsUnStream js (snd x) = Inr m"
    using assms(1) unfolding badger_inv_def entry_ok_def by blast
  then have "q = q'" using x(1) streamKey_prefix [OF assms(2)] by metis
  with m show ?thesis by blast
qed

abbreviation (input) stream_items :: "'db badger \<Rightarrow> string \<Rightarrow> (string \<times> bytes) list" where
  "stream_items s q \<equiv> filter (\<lambda>x. prefix (streamPrefix @ q @ '':'') (fst x)) (kvItems kv (bsDB s))"

lemma stream_items_keys:
  assumes "badger_inv kv ok js s" and "name_ok q"
  shows "map fst (stream_items s q) = map (\<lambda>e. streamKey q (smSequence e)) (badger_entries kv js s q)"
  unfolding badger_entries_def map_map
proof (rule map_cong [OF refl])
  fix x assume "x \<in> set (stream_items s q)"
  from stream_item [OF assms this] show "fst x = ((\<lambda>e. streamKey q (smSequence e)) \<circ> (\<lambda>x. projr (jsUnStream js (snd x)))) x"
    by auto
qed

lemma filter_stream_items:
  assumes "badger_inv kv ok js s" and "name_ok q" and "\<And>n. P (streamKey q n) = Q n"
  shows "map (\<lambda>x. projr (jsUnStream js (snd x))) (filter (\<lambda>x. P (fst x)) (stream_items s q))
    = filter (\<lambda>e. Q (smSequence e)) (badger_entries kv js s q)"
proof -
  have "filter (\<lambda>x. P (fst x)) (stream_items s q)
      = filter (\<lambda>x. Q (smSequence (projr (jsUnStream js (snd x))))) (stream_items s q)"
  proof (rule filter_cong [OF refl])
    fix x assume "x \<in> set (stream_items s q)"
    from stream_item [OF assms(1,2) this] show "P (fst x) = Q (smSequence (projr (jsUnStream js (snd x))))"
      using assms(3) by auto
  qed
  then show ?thesis by (simp add: badger_entries_def filter_map comp_def)
qed

lemma badger_entries_sorted:
  assumes "badger_inv kv ok js s" and "name_ok q"
  shows "sorted_wrt (<) (map smSequence (badger_entries kv js s q))"
proof -
  have "sorted_wrt (<) (map fst (stream_items s q))"
    using key_sorted_filter [OF stored_sorted [OF assms(1)]] by (simp add: key_sorted_def sorted_wrt_map)
  then show ?thesis
    unfolding stream_items_keys [OF assms] by (simp add: sorted_wrt_map streamKey_less)
qed

lemma badger_entries_cong:
  assumes "badger_inv kv ok js s" and "badger_inv kv ok js s'"
    and "\<And>k. prefix (streamPrefix @ q @ '':'') k \<Longrightarrow> stored kv s' k = stored kv s k"
  shows "badger_entries kv js s' q = badger_entries kv js s q"
  using filtered_unique [OF stored_sorted [OF assms(2)] stored_sorted [OF assms(1)], of "prefix (streamPrefix @ q @ '':'')"] assms(3)
  by (simp add: badger_entries_def stored_def)

lemma stream_prefix_key: "prefix (streamPrefix @ q @ '':'') k \<Longrightarrow> \<exists>t. k = streamPrefix @ q @ '':'' @ t"
  by (auto elim: prefixE)

lemma SaveStreamMessage_ok:
  assumes "badger_inv kv ok js s" and "name_ok q" and "\<forall>e \<in> set (badger_entries kv js s q). smSequence e < smSequence m"
    and "SaveStreamMessage kv js q (smSequence m) m s = (s', None)"
  shows "badger_inv kv ok js s' \<and> badger_offsets kv s' = badger_offsets kv s
    \<and> (\<exists>m'. same_entry m m' \<and> badger_entries kv js s' q = badger_entries kv js s q @ [m'])
    \<and> (\<forall>q'. q' \<noteq> q \<longrightarrow> name_ok q' \<longrightarrow> badger_entries kv js s' q' = badger_entries kv js s q')"
proof -
  let ?k = "streamKey q (smSequence m)"
  let ?P = "\<lambda>q. prefix (streamPrefix @ q @ '':'')"
  obtain data where data: "jsStream js m = Inr data" using assms(4) by (auto simp: SaveStreamMessage_def split: sum.splits)
  obtain m' where m': "jsUnStream js data = Inr m'" "same_entry m m'" using stream_roundtrip [OF data] by blast
  have "entry_ok js ?k data" using m' same_entry_sequence [OF m'(2)] assms(2) by (auto simp: entry_ok_def)
  then have w: "badger_inv kv ok js s'" "stored kv s' = (stored kv s)(?k \<mapsto> data)"
    using write_cases [OF assms(1), of ?k "Some data" s' None] assms(4) data by (auto simp: SaveStreamMessage_def)
  have other: "badger_entries kv js s' q' = badger_entries kv js s q'" if "q' \<noteq> q" "name_ok q'" for q'
    using badger_entries_cong [OF assms(1) w(1), of q'] streamKey_prefix [OF that(2) assms(2)] that(1) w(2) by force
  have "stream_items s' q = stream_items s q @ [(?k, data)]"
  proof (rule key_sorted_unique)
    show "key_sorted (stream_items s' q)" by (rule key_sorted_filter [OF stored_sorted [OF w(1)]])
    have "fst x < ?k" if "x \<in> set (stream_items s q)" for x
    proof -
      have "fst x \<in> set (map fst (stream_items s q))" using that by simp
      then show ?thesis unfolding stream_items_keys [OF assms(1,2)] using assms(3) by (auto simp: streamKey_less)
    qed
    then show "key_sorted (stream_items s q @ [(?k, data)])"
      using key_sorted_filter [OF stored_sorted [OF assms(1)]] by (simp add: key_sorted_def sorted_wrt_append)
    have "map_of (kvItems kv (bsDB s')) = (map_of (kvItems kv (bsDB s)))(?k \<mapsto> data)" using w(2) by (simp add: stored_def)
    moreover have "stored kv s ?k = None"
    proof (rule ccontr)
      assume "stored kv s ?k \<noteq> None"
      then obtain d where "(?k, d) \<in> set (stream_items s q)"
        using stored_items [OF inv_ok [OF assms(1)]] by (auto simp: streamKey_def)
      with \<open>\<And>x. x \<in> set (stream_items s q) \<Longrightarrow> fst x < ?k\<close> show False by fastforce
    qed
    ultimately show "map_of (stream_items s' q) = map_of (stream_items s q @ [(?k, data)])"
      by (auto simp: map_of_filter_fun map_add_def stored_def streamKey_def fun_eq_iff split: option.splits)
  qed
  then have "badger_entries kv js s' q = badger_entries kv js s q @ [m']" using m'(1) by (simp add: badger_entries_def)
  moreover have "badger_offsets kv s' = badger_offsets kv s" using w(2) by (simp add: badger_offsets_def fun_eq_iff)
  ultimately show ?thesis using w(1) m'(2) other by blast
qed

lemma SaveStreamMessage_err:
  assumes "badger_inv kv ok js s" and "SaveStreamMessage kv js q n m s = (s', Some e)"
  shows "s' = s"
  using assms update_failed [OF inv_ok [OF assms(1)]] by (auto simp: SaveStreamMessage_def split: sum.splits)

lemma LoadStreamMessages_loads:
  assumes "badger_inv kv ok js s" and "name_ok q" and "LoadStreamMessages kv js q n limit s = (ms, None)"
  shows "ms = take limit (filter (\<lambda>e. n \<le> smSequence e) (badger_entries kv js s q))"
proof -
  let ?p = "streamPrefix @ q @ '':''" and ?k = "streamKey q n"
  have "?p \<le> ?k" by (rule prefix_le) (simp add: streamKey_def)
  then have sc: "scan_from ?k ?p (kvItems kv (bsDB s)) = filter (\<lambda>x. ?k \<le> fst x) (stream_items s q)"
    using scan_from_filter [OF stored_sorted [OF assms(1)]] by (simp add: conj_commute)
  have "\<forall>x \<in> set (take limit (filter (\<lambda>x. ?k \<le> fst x) (stream_items s q))). \<exists>m. jsUnStream js (snd x) = Inr m"
    using stream_item [OF assms(1,2)] by (fastforce dest: in_set_takeD)
  from stream_loop_all [OF this, of "[]"] have
    "ms = take limit (map (\<lambda>x. projr (jsUnStream js (snd x))) (filter (\<lambda>x. ?k \<le> fst x) (stream_items s q)))"
    using assms(3) sc by (simp add: LoadStreamMessages_def kv_view_def take_map split: option.splits)
  then show ?thesis
    using filter_stream_items [OF assms(1,2), of "\<lambda>k. ?k \<le> k" "\<lambda>a. n \<le> a"] by (simp add: streamKey_le)
qed

lemma GetStreamSequence_ok:
  assumes "badger_inv kv ok js s" and "name_ok q" and "GetStreamSequence kv q s = (n, None)"
  shows "n = (if badger_entries kv js s q = [] then 0 else smSequence (last (badger_entries kv js s q)))"
proof -
  let ?p = "streamPrefix @ q @ '':''" and ?b = "streamPrefix @ q @ '':'' @ [char_of (255 :: nat)]"
  let ?below = "filter (\<lambda>x. fst x \<le> ?b) (kvItems kv (bsDB s))"
  have "pad_dec 20 (unat a) \<le> [char_of (255 :: nat)]" for a :: u64
  proof -
    obtain c t where c: "pad_dec 20 (unat a) = c # t" "is_digit c"
      using pad_dec_props(1,3) [of 20 "unat a"] by (cases "pad_dec 20 (unat a)") auto
    then have "c < char_of (255 :: nat)" by (auto simp: is_digit_def less_char_def)
    with c show ?thesis by simp
  qed
  then have "fst x \<le> ?b" if "x \<in> set (stream_items s q)" for x
    using stream_item [OF assms(1,2) that] by (auto simp: streamKey_def)
  then have items: "stream_items s q = filter (\<lambda>x. prefix ?p (fst x)) ?below"
    by (auto intro!: filter_cong)
  have none: "stream_items s q = []" if "?below \<noteq> []" "\<not> prefix ?p (fst (last ?below))"
  proof (rule ccontr)
    assume "stream_items s q \<noteq> []"
    then obtain x where x: "x \<in> set ?below" "prefix ?p (fst x)" unfolding items by (fastforce simp: filter_empty_conv)
    have "fst x \<le> fst (last ?below)"
      by (rule key_sorted_last [OF key_sorted_filter [OF stored_sorted [OF assms(1)]] x(1)])
    moreover have "fst (last ?below) \<le> ?b" using last_in_set [OF that(1)] by simp
    ultimately have "prefix ?p (fst (last ?below))"
      using prefix_interval [of ?p "fst (last ?below)" ?b] prefix_le [OF x(2)] by auto
    with that(2) show False by simp
  qed
  have res: "(case rev ?below of [] \<Rightarrow> (0, None) | (key, _) # _ \<Rightarrow> if prefix ?p key then scan_seq q key else (0, None)) = (n, None)"
    using assms(3) dropWhile_rev_filter [OF stored_sorted [OF assms(1)], of ?b]
    by (simp add: GetStreamSequence_def kv_view_def Let_def split: option.splits)
  define B F where BF: "B = ?below" "F = stream_items s q"
  have B: "F = filter (\<lambda>x. prefix ?p (fst x)) B" "B \<noteq> [] \<Longrightarrow> \<not> prefix ?p (fst (last B)) \<Longrightarrow> F = []"
    using items none unfolding BF by blast+
  have E: "badger_entries kv js s q = map (\<lambda>x. projr (jsUnStream js (snd x))) F"
    by (simp add: badger_entries_def BF)
  show ?thesis
  proof (cases "B = []")
    case True
    then show ?thesis using res B(1) E unfolding BF(1) [symmetric] by simp
  next
    case False
    then obtain B' x where "B = B' @ [x]" by (cases B rule: rev_cases) auto
    then have n: "(if prefix ?p (fst (last B)) then scan_seq q (fst (last B)) else (0, None)) = (n, None)"
      using res unfolding BF(1) [symmetric] by (cases x) (simp split: if_splits)
    show ?thesis
    proof (cases "prefix ?p (fst (last B))")
      case True
      from last_filter [of B "\<lambda>x. prefix ?p (fst x)"] True False have F: "last F = last B" "F \<noteq> []"
        unfolding B(1) by blast+
      then have "last B \<in> set (stream_items s q)" using last_in_set [of F] unfolding BF(2) by metis
      from stream_item [OF assms(1,2) this] n True F E show ?thesis by (auto simp: last_map)
    next
      case notp: False
      then show ?thesis using n B(2) [OF False notp] E by simp
    qed
  qed
qed

lemma LoadStreamMessages_total:
  assumes "badger_inv kv ok js s" and "name_ok q" and "kvOpen kv (bsDB s) = None"
  shows "snd (LoadStreamMessages kv js q n limit s) = None"
proof -
  let ?p = "streamPrefix @ q @ '':''" and ?k = "streamKey q n"
  have "?p \<le> ?k" by (rule prefix_le) (simp add: streamKey_def)
  then have sc: "scan_from ?k ?p (kvItems kv (bsDB s)) = filter (\<lambda>x. ?k \<le> fst x) (stream_items s q)"
    using scan_from_filter [OF stored_sorted [OF assms(1)]] by (simp add: conj_commute)
  have "\<forall>x \<in> set (take limit (filter (\<lambda>x. ?k \<le> fst x) (stream_items s q))). \<exists>m. jsUnStream js (snd x) = Inr m"
    using stream_item [OF assms(1,2)] by (fastforce dest: in_set_takeD)
  from stream_loop_all [OF this, of "[]"] show ?thesis using assms(3) sc by (simp add: LoadStreamMessages_def kv_view_def)
qed

lemma timestamp_loop_all:
  assumes "\<forall>x \<in> set items. \<exists>m. jsUnStream js (snd x) = Inr m"
  shows "timestamp_loop (jsUnStream js) ts items =
    (case find (\<lambda>e. ts \<le> unix_milli (mPublishedAt (smMessage e))) (map (\<lambda>x. projr (jsUnStream js (snd x))) items) of
       None \<Rightarrow> 0 | Some e \<Rightarrow> smSequence e, None)"
  using assms
proof (induction items)
  case (Cons x items)
  then show ?case by (cases x) auto
qed simp

lemma GetStreamMessageByTimestamp_ok:
  assumes "badger_inv kv ok js s" and "name_ok q" and "GetStreamMessageByTimestamp kv js q ts s = (n, None)"
  shows "n = (case find (\<lambda>e. ts \<le> unix_milli (mPublishedAt (smMessage e))) (badger_entries kv js s q) of
    None \<Rightarrow> 0 | Some e \<Rightarrow> smSequence e)"
proof -
  have "\<forall>x \<in> set (stream_items s q). \<exists>m. jsUnStream js (snd x) = Inr m" using stream_item [OF assms(1,2)] by blast
  from timestamp_loop_all [OF this, of ts] show ?thesis
    using assms(3) stored_sorted [OF assms(1)]
    by (simp add: GetStreamMessageByTimestamp_def kv_view_def Let_def scan_prefix_filter badger_entries_def split: option.splits)
qed

lemma GetStreamStats_ok:
  assumes "badger_inv kv ok js s" and "name_ok q" and "GetStreamStats kv q s = (oldest, newest, None)"
  shows "if badger_entries kv js s q = [] then oldest = 0 \<and> newest = 0
    else oldest = smSequence (hd (badger_entries kv js s q)) \<and> newest = smSequence (last (badger_entries kv js s q))"
proof -
  let ?oldest = "kv_view kv (bsDB s) (\<lambda>items. case stream_items s q of [] \<Rightarrow> (0, None) | (key, _) # _ \<Rightarrow> scan_seq q key) (\<lambda>e. (0, Some e))"
  have stats: "GetStreamStats kv q s = (case snd ?oldest of
      Some e \<Rightarrow> (fst ?oldest, 0, Some e)
    | None \<Rightarrow> (case GetStreamSequence kv q s of (newest, err) \<Rightarrow> (fst ?oldest, newest, err)))"
    using stored_sorted [OF assms(1)]
    by (simp add: GetStreamStats_def kv_view_def Let_def scan_prefix_filter split: prod.splits option.splits)
  then have o: "snd ?oldest = None" "fst ?oldest = oldest" "GetStreamSequence kv q s = (newest, None)"
    using assms(3) by (auto split: option.splits prod.splits)
  note newest = GetStreamSequence_ok [OF assms(1,2) o(3)]
  show ?thesis
  proof (cases "stream_items s q")
    case Nil
    then have "fst ?oldest = 0" by (simp add: kv_view_def split: option.splits)
    moreover have "badger_entries kv js s q = []" using Nil by (simp add: badger_entries_def)
    ultimately show ?thesis using newest o(2) by simp
  next
    case (Cons x xs)
    then have "x \<in> set (stream_items s q)" by simp
    from stream_item [OF assms(1,2) this] obtain m where m: "jsUnStream js (snd x) = Inr m" "fst x = streamKey q (smSequence m)"
      by blast
    have "kvOpen kv (bsDB s) = None" using o(1) by (simp add: kv_view_def split: option.splits)
    then have "fst ?oldest = smSequence m" using Cons m(2) by (cases x) (simp add: kv_view_def)
    moreover have "badger_entries kv js s q \<noteq> []" "hd (badger_entries kv js s q) = m" using Cons m(1) by (simp_all add: badger_entries_def)
    ultimately show ?thesis using newest o(2) by simp
  qed
qed

lemma DeleteStreamMessagesBefore_ok:
  assumes "badger_inv kv ok js s" and "name_ok q" and "DeleteStreamMessagesBefore kv q n s = (s', None)"
  shows "badger_inv kv ok js s' \<and> badger_offsets kv s' = badger_offsets kv s
    \<and> badger_entries kv js s' q = filter (\<lambda>e. n \<le> smSequence e) (badger_entries kv js s q)
    \<and> (\<forall>q'. q' \<noteq> q \<longrightarrow> name_ok q' \<longrightarrow> badger_entries kv js s' q' = badger_entries kv js s q')"
proof -
  let ?p = "streamPrefix @ q @ '':''" and ?k = "streamKey q n"
  let ?old = "filter (\<lambda>x. fst x < ?k) (stream_items s q)"
  have "takeWhile (\<lambda>kv. \<not> fst kv \<ge> ?k) (scan_from ?p ?p (kvItems kv (bsDB s))) = ?old"
    using takeWhile_sorted [OF key_sorted_filter [OF stored_sorted [OF assms(1)]]] stored_sorted [OF assms(1)]
    by (simp add: scan_prefix_filter)
  then have writes: "map (\<lambda>kv. (fst kv, None)) (takeWhile (\<lambda>kv. \<not> fst kv \<ge> ?k) (scan_from ?p ?p (kvItems kv (bsDB s))))
      = map (\<lambda>k. (k, None)) (map fst ?old)" by simp
  obtain db' where db': "s' = s\<lparr>bsDB := db'\<rparr>"
    "kv_update kv (bsDB s) (\<lambda>items. map (\<lambda>kv. (fst kv, None)) (takeWhile (\<lambda>kv. \<not> fst kv \<ge> ?k) (scan_from ?p ?p items))) = (db', None)"
    using assms(3) by (auto simp: DeleteStreamMessagesBefore_def Let_def with_db_def prod_eq_iff)
  note up = update_ok [OF inv_ok [OF assms(1)] db'(2)]
  have u: "ok (bsDB s')" using up db'(1) by simp
  have "map_of (kvItems kv db') = apply_writes (map (\<lambda>k. (k, None)) (map fst ?old)) (map_of (kvItems kv (bsDB s)))"
    unfolding writes [symmetric] using up by blast
  then have st: "stored kv s' = (\<lambda>k. if k \<in> set (map fst ?old) then None else stored kv s k)"
    unfolding apply_deletes stored_def using db'(1) by simp
  have inv: "badger_inv kv ok js s'"
    by (rule inv_less [OF assms(1) u]) (simp add: st split: if_splits)
  have old: "k \<in> set (map fst ?old) \<longleftrightarrow> prefix ?p k \<and> k < ?k \<and> stored kv s k \<noteq> None" for k
    unfolding stored_def by (force simp: map_of_eq_None_iff)
  have "badger_entries kv js s' q' = badger_entries kv js s q'" if "q' \<noteq> q" "name_ok q'" for q'
  proof (rule badger_entries_cong [OF assms(1) inv])
    fix k assume k: "prefix (streamPrefix @ q' @ '':'') k"
    show "stored kv s' k = stored kv s k"
    proof (cases "stored kv s k")
      case (Some data)
      then have "(k, data) \<in> set (stream_items s q')" using stored_items [OF inv_ok [OF assms(1)]] k by simp
      from stream_item [OF assms(1) that(2) this] obtain m :: StreamMessage where "k = streamKey q' (smSequence m)"
        unfolding fst_conv by blast
      then have "\<not> prefix ?p k" using streamKey_prefix [OF assms(2) that(2)] that(1) by auto
      then show ?thesis using old [of k] st by simp
    qed (simp add: st)
  qed
  moreover have "stream_items s' q = filter (\<lambda>x. ?k \<le> fst x) (stream_items s q)"
    using stored_sorted [OF inv] stored_sorted [OF assms(1)] fun_cong [OF st] old
    by (intro key_sorted_unique)
      (auto simp: key_sorted_filter map_of_filter_fun [of "\<lambda>k. _ k \<and> _ k"] map_of_filter_fun stored_def not_le fun_eq_iff)
  then have "badger_entries kv js s' q = filter (\<lambda>e. n \<le> smSequence e) (badger_entries kv js s q)"
    using filter_stream_items [OF assms(1,2), of "\<lambda>k. ?k \<le> k" "\<lambda>a. n \<le> a"]
    by (simp add: badger_entries_def streamKey_le)
  moreover have "badger_offsets kv s' = badger_offsets kv s"
  proof -
    have "stored kv s' (offsetKey q' g) = stored kv s (offsetKey q' g)" for q' g
      using old [of "offsetKey q' g"] st by simp
    then show ?thesis by (simp add: badger_offsets_def fun_eq_iff)
  qed
  ultimately show ?thesis using inv by blast
qed

lemma DeleteStreamMessagesBefore_err:
  assumes "badger_inv kv ok js s" and "DeleteStreamMessagesBefore kv q n s = (s', Some e)"
  shows "s' = s"
  using assms(2) update_failed [OF inv_ok [OF assms(1)]] unfolding DeleteStreamMessagesBefore_def Let_def by blast

lemma SaveConsumerOffset_ok:
  assumes "badger_inv kv ok js s" and "name_ok q" and "SaveConsumerOffset kv q g n s = (s', None)"
  shows "badger_inv kv ok js s'
    \<and> badger_offsets kv s' = (\<lambda>q' g'. if q' = q \<and> g' = g then Some n else badger_offsets kv s q' g')
    \<and> (\<forall>q'. name_ok q' \<longrightarrow> badger_entries kv js s' q' = badger_entries kv js s q')"
proof -
  have "entry_ok js (offsetKey q g) (bytes_of (dec (unat n)))" by (simp add: entry_ok_def)
  then have w: "badger_inv kv ok js s'" "stored kv s' = (stored kv s)(offsetKey q g \<mapsto> bytes_of (dec (unat n)))"
    using write_cases [OF assms(1), of "offsetKey q g" "Some (bytes_of (dec (unat n)))" s' None] assms(3)
    by (auto simp: SaveConsumerOffset_def)
  have "badger_offsets kv s' q' g' = (if q' = q \<and> g' = g then Some n else badger_offsets kv s q' g')" for q' g'
    using w(2) assms(2) offsetKey_inject [of q' q g' g] by (auto simp: badger_offsets_def)
  moreover have "badger_entries kv js s' q' = badger_entries kv js s q'" for q'
    using w(2) by (intro badger_entries_cong [OF assms(1) w(1)]) auto
  ultimately show ?thesis using w(1) by auto
qed

lemma SaveConsumerOffset_err:
  assumes "badger_inv kv ok js s" and "SaveConsumerOffset kv q g n s = (s', Some e)"
  shows "s' = s"
  using assms(2) update_failed [OF inv_ok [OF assms(1)]] unfolding SaveConsumerOffset_def by blast

lemma LoadConsumerOffset_ok:
  assumes "badger_inv kv ok js s" and "name_ok q" and "LoadConsumerOffset kv q g s = (n, None)"
  shows "n = (case badger_offsets kv s q g of None \<Rightarrow> 0 | Some n \<Rightarrow> n)"
proof -
  have get: "kvGet kv (bsDB s) = stored kv s" using get_items [OF inv_ok [OF assms(1)]] by (simp add: stored_def)
  show ?thesis
  proof (cases "stored kv s (offsetKey q g)")
    case None
    then show ?thesis using assms(2,3) get
      by (simp add: LoadConsumerOffset_def badger_offsets_def split: option.splits)
  next
    case (Some data)
    have "\<exists>n. scan_uint (string_of data) = Some n"
      using assms(1) Some unfolding badger_inv_def entry_ok_def using keys_prefixed(2) by blast
    then show ?thesis using assms(2,3) get Some
      by (auto simp: LoadConsumerOffset_def badger_offsets_def scan_offset_def split: option.splits)
  qed
qed

end

section \<open>The contracts hold\<close>

context badger_store
begin

lemma message_writes_keep_configs:
  assumes "\<And>name. stored kv s' (queuePrefix @ name) = stored kv s (queuePrefix @ name)"
  shows "badger_configs kv js s' = badger_configs kv js s"
  using assms by (simp add: badger_configs_def fun_eq_iff)

lemma SaveMessage_configs:
  assumes "badger_inv kv ok js s"
  shows "badger_configs kv js (fst (SaveMessage kv r m s)) = badger_configs kv js s"
proof -
  obtain s' e where s': "SaveMessage kv r m s = (s', e)" by (cases "SaveMessage kv r m s")
  show ?thesis
    using SaveMessage_stored [OF inv_ok [OF assms], of m s'] SaveMessage_failed [OF inv_ok [OF assms], of m s'] s'
    by (cases e) (auto intro!: message_writes_keep_configs)
qed

lemma DeleteMessage_configs:
  assumes "badger_inv kv ok js s"
  shows "badger_configs kv js (fst (DeleteMessage kv q i s)) = badger_configs kv js s"
proof -
  obtain s' e where s': "DeleteMessage kv q i s = (s', e)" by (cases "DeleteMessage kv q i s")
  show ?thesis
    using DeleteMessage_stored [OF inv_ok [OF assms], of q i s'] DeleteMessage_failed [OF inv_ok [OF assms], of q i s'] s'
    by (cases e) (auto intro!: message_writes_keep_configs)
qed

lemma SaveQueue_holds:
  assumes "badger_inv kv ok js s" and "SaveQueue kv js name cfg s = (s', e)"
  shows "badger_holds kv js s' = badger_holds kv js s"
  using SaveQueue_cases [OF assms] by (cases e) (auto simp: badger_holds_def fun_eq_iff)

lemma SaveQueue_configs:
  assumes "badger_inv kv ok js s" and "SaveQueue kv js name cfg s = (s', None)"
  shows "badger_configs kv js s' = (badger_configs kv js s)(name \<mapsto> cfg)"
  using SaveQueue_cases [OF assms] by (auto simp: badger_configs_def fun_eq_iff)

end

sublocale badger_store \<subseteq> queues: broker_store "badger_ops kv js r" "badger_holds kv js" "badger_inv kv ok js"
  name_ok "message_ok r" "badger_configs kv js"
proof (unfold_locales, goal_cases)
  case (1 s m)
  then show ?case by (simp add: badger_ops_def SaveMessage_configs)
next
  case (2 s q i)
  then show ?case by (simp add: badger_ops_def DeleteMessage_configs)
next
  case (3 s name cfg)
  then show ?case using SaveQueue_cases [OF 3, of name cfg]
    by (cases "SaveQueue kv js name cfg s") (simp add: badger_ops_def)
next
  case (4 s name cfg)
  then show ?case using SaveQueue_holds [OF 4, of name cfg]
    by (cases "SaveQueue kv js name cfg s") (simp add: badger_ops_def)
next
  case (5 s name cfg s')
  then show ?case using SaveQueue_configs by (simp add: badger_ops_def)
next
  case (6 s name cfg s' e)
  then have "s' = s" using SaveQueue_cases [OF 6(1), of name cfg s' "Some e"] by (simp add: badger_ops_def)
  then show ?case by simp
next
  case (7 s cfgs)
  then show ?case using LoadQueues_loads by (simp add: badger_ops_def)
next
  case (8 s q)
  obtain s' e where d: "DeleteQueueMessages kv q s = Some (s', e)" "badger_inv kv ok js s'"
    "\<forall>k. \<not> prefix msgPrefix k \<longrightarrow> stored kv s' k = stored kv s k"
    "\<forall>q' i m. q' \<noteq> q \<longrightarrow> badger_holds kv js s' q' i m = badger_holds kv js s q' i m"
    "e = None \<longrightarrow> (\<forall>i m. \<not> badger_holds kv js s' q i m)"
    using DeleteQueueMessages_returns [OF 8] by blast
  have "badger_configs kv js s' = badger_configs kv js s"
    using d(3) by (intro message_writes_keep_configs) (simp add: prefix_defs)
  then show ?case using d by (simp add: badger_ops_def)
qed

sublocale badger_store \<subseteq> streams: stream_store "badger_stream_ops kv js" "badger_entries kv js"
  "badger_offsets kv" "badger_inv kv ok js" name_ok
proof (unfold_locales, goal_cases)
  case (1 s q)
  then show ?case by (rule badger_entries_sorted)
next
  case (2 s q m s')
  then show ?case using SaveStreamMessage_ok [OF 2(1-3)] by (simp add: badger_stream_ops_def)
next
  case (3 s q n m s' e)
  then show ?case using SaveStreamMessage_err [OF 3(1)] by (simp add: badger_stream_ops_def)
next
  case (4 s q n limit ms)
  then show ?case using LoadStreamMessages_loads [OF 4(1,2)] by (simp add: badger_stream_ops_def)
next
  case (5 s q n)
  then show ?case using GetStreamSequence_ok [OF 5(1,2)] by (simp add: badger_stream_ops_def)
next
  case (6 s q ts n)
  then show ?case using GetStreamMessageByTimestamp_ok [OF 6(1,2)] by (simp add: badger_stream_ops_def)
next
  case (7 s q oldest newest)
  then show ?case using GetStreamStats_ok [OF 7(1,2)] by (simp add: badger_stream_ops_def)
next
  case (8 s q n s')
  then show ?case using DeleteStreamMessagesBefore_ok [OF 8(1,2)] by (simp add: badger_stream_ops_def)
next
  case (9 s q n s' e)
  then show ?case using DeleteStreamMessagesBefore_err [OF 9(1)] by (simp add: badger_stream_ops_def)
next
  case (10 s q g n s')
  then show ?case using SaveConsumerOffset_ok [OF 10(1,2)] by (simp add: badger_stream_ops_def)
next
  case (11 s q g n s' e)
  then show ?case using SaveConsumerOffset_err [OF 11(1)] by (simp add: badger_stream_ops_def)
next
  case (12 s q g n)
  then show ?case using LoadConsumerOffset_ok [OF 12(1,2)] by (simp add: badger_stream_ops_def)
qed

context badger_store
begin

lemma is_stream_store:
  "stream_store (badger_stream_ops kv js) (badger_entries kv js) (badger_offsets kv) (badger_inv kv ok js) name_ok"
  by unfold_locales

lemma is_broker_store:
  "broker_store (badger_ops kv js r) (badger_holds kv js) (badger_inv kv ok js) name_ok (message_ok r) (badger_configs kv js)"
  by unfold_locales

end

end
