(* ===== verification/Reference_Codec.thy ===== *)
theory Reference_Codec
  imports Badger_Streams
begin

text \<open>
  A codec that meets the assumptions made of \<open>encoding/json\<close>: what it encodes, it decodes. Fields
  are written one after the other, each with its length. It makes the storage contracts concrete,
  together with the in-memory key-value store.
\<close>

section \<open>Lists of strings\<close>

definition put_str :: "string \<Rightarrow> string" where
  "put_str s = dec (length s) @ '':'' @ s"

definition put_strs :: "string list \<Rightarrow> string" where
  "put_strs xs = concat (map put_str xs)"

fun get_strs :: "nat \<Rightarrow> string \<Rightarrow> string list option" where
  "get_strs 0 s = Some []"
| "get_strs (Suc k) s =
     (let ds = takeWhile (\<lambda>c. c \<noteq> CHR '':'') s; rest = drop (length ds + 1) s; n = nat (dec_value ds)
      in map_option ((#) (take n rest)) (get_strs k (drop n rest)))"

lemma get_put_strs: "get_strs (length xs) (put_strs xs @ t) = Some xs"
proof (induction xs)
  case (Cons x xs)
  have "c \<noteq> CHR '':''" if "c \<in> set (dec n)" for c n
    using that dec_digits [of n] by (auto simp: list_all_iff is_digit_def)
  then have "takeWhile (\<lambda>c. c \<noteq> CHR '':'') (put_strs (x # xs) @ t) = dec (length x)"
    by (simp add: put_strs_def put_str_def takeWhile_append2)
  then show ?case
    using Cons.IH by (simp add: put_strs_def put_str_def dec_value_dec)
qed simp

declare get_strs.simps [simp del]

section \<open>Fields\<close>

definition put_int :: "int \<Rightarrow> string" where
  "put_int i = (if i < 0 then CHR ''-'' # dec (nat (- i)) else dec (nat i))"

lemma put_int_code [code]: "put_int i = (if i < 0 then CHR ''-'' # idec (- i) else idec i)"
  by (simp add: put_int_def dec_idec)

definition get_int :: "string \<Rightarrow> int" where
  "get_int s = (case s of c # t \<Rightarrow> if c = CHR ''-'' then - dec_value t else dec_value s | [] \<Rightarrow> 0)"

lemma get_put_int [simp]: "get_int (put_int i) = i"
proof (cases "i < 0")
  case True
  then show ?thesis by (simp add: put_int_def get_int_def dec_value_dec)
next
  case False
  obtain c t where c: "dec (nat i) = c # t" using dec_nonempty [of "nat i"] by (cases "dec (nat i)") auto
  then have "c \<noteq> CHR ''-''" using dec_digits [of "nat i"] by (auto simp: is_digit_def)
  then show ?thesis using False c dec_value_dec [of "nat i"] by (simp add: put_int_def get_int_def)
qed

definition put_bool :: "bool \<Rightarrow> string" where
  "put_bool b = (if b then ''1'' else ''0'')"

lemma put_bool_iff [simp]: "put_bool b = ''1'' \<longleftrightarrow> b"
  by (simp add: put_bool_def)

lemma bytes_of_string_of [simp]: "bytes_of (string_of bs) = bs"
proof -
  have "of_char (char_of (unat b)) = b" for b :: u8
  proof -
    have "unat (of_char (char_of (unat b)) :: u8) = unat b"
      using unsigned_less [of b, where ?'a = nat] by (simp only: unat_of_char) simp
    then show ?thesis by (simp only: word_unat_eq_iff)
  qed
  then show ?thesis by (simp add: bytes_of_def string_of_def comp_def)
qed

section \<open>Configurations and stream entries\<close>

definition ref_config :: "QueueConfig \<Rightarrow> bytes" where
  "ref_config c = bytes_of (put_strs [put_int (qcMaxSize c), put_bool (qcMaxSizeSet c), put_int (qcMaxRetries c),
     qcFailurePolicy c, qcMode c, put_int (qcRetentionMaxAge c), put_int (qcRetentionMaxBytes c)])"

definition ref_unconfig :: "bytes \<Rightarrow> error + QueueConfig" where
  "ref_unconfig data =
     (case get_strs 7 (string_of data) of
        Some [a, b, c, d, e, f, g] \<Rightarrow>
          Inr \<lparr>qcMaxSize = get_int a, qcMaxSizeSet = (b = ''1''), qcMaxRetries = get_int c, qcFailurePolicy = d,
               qcMode = e, qcRetentionMaxAge = get_int f, qcRetentionMaxBytes = get_int g\<rparr>
      | _ \<Rightarrow> Inl (ErrStorage ''json''))"

definition ref_stream :: "StreamMessage \<Rightarrow> bytes" where
  "ref_stream e = (let m = smMessage e in bytes_of (put_strs
     [mID m, mQueue m, string_of (mPayload m), put_int (uint (mAttempt m)), put_int (mPublishedAt m),
      put_int (mVisibleAt m), mOrderingKey m, put_int (uint (smSequence e)), put_int (int (length (mHeaders m))),
      put_strs (map fst (mHeaders m)), put_strs (map snd (mHeaders m))]))"

definition ref_unstream :: "bytes \<Rightarrow> error + StreamMessage" where
  "ref_unstream data =
     (case get_strs 11 (string_of data) of
        Some [i, q, p, a, pub, vis, okey, sq, n, ks, vs] \<Rightarrow>
          (case (get_strs (nat (get_int n)) ks, get_strs (nat (get_int n)) vs) of
             (Some keys, Some vals) \<Rightarrow>
               Inr \<lparr>smMessage = \<lparr>mID = i, mQueue = q, mPayload = bytes_of p, mHeaders = zip keys vals,
                     mAttempt = of_int (get_int a), mPublishedAt = get_int pub, mVisibleAt = get_int vis,
                     mOrderingKey = okey, mSequence = 0\<rparr>,
                    smSequence = of_int (get_int sq)\<rparr>
           | _ \<Rightarrow> Inl (ErrStorage ''json''))
      | _ \<Rightarrow> Inl (ErrStorage ''json''))"

definition ref_json :: json_codec where
  "ref_json = \<lparr>jsMessage = (\<lambda>_ _. Inl EmptyPayload), jsConfig = (\<lambda>c. Inr (ref_config c)), jsUnConfig = ref_unconfig,
     jsStream = (\<lambda>e. Inr (ref_stream e)), jsUnStream = ref_unstream\<rparr>"

lemma ref_config_roundtrip: "ref_unconfig (ref_config c) = Inr c"
  using get_put_strs [of "[put_int (qcMaxSize c), put_bool (qcMaxSizeSet c), put_int (qcMaxRetries c),
     qcFailurePolicy c, qcMode c, put_int (qcRetentionMaxAge c), put_int (qcRetentionMaxBytes c)]" "[]"]
  by (simp add: ref_unconfig_def ref_config_def numeral_eq_Suc)

lemma ref_stream_roundtrip: "\<exists>e'. ref_unstream (ref_stream e) = Inr e' \<and> same_entry e e'"
proof -
  let ?m = "smMessage e"
  have "get_strs 11 (string_of (ref_stream e)) = Some
     [mID ?m, mQueue ?m, string_of (mPayload ?m), put_int (uint (mAttempt ?m)), put_int (mPublishedAt ?m),
      put_int (mVisibleAt ?m), mOrderingKey ?m, put_int (uint (smSequence e)), put_int (int (length (mHeaders ?m))),
      put_strs (map fst (mHeaders ?m)), put_strs (map snd (mHeaders ?m))]"
    using get_put_strs [of "[mID ?m, mQueue ?m, string_of (mPayload ?m), put_int (uint (mAttempt ?m)), put_int (mPublishedAt ?m),
      put_int (mVisibleAt ?m), mOrderingKey ?m, put_int (uint (smSequence e)), put_int (int (length (mHeaders ?m))),
      put_strs (map fst (mHeaders ?m)), put_strs (map snd (mHeaders ?m))]" "[]"]
    by (simp add: ref_stream_def Let_def numeral_eq_Suc)
  moreover have "get_strs (length (mHeaders ?m)) (put_strs (map f (mHeaders ?m))) = Some (map f (mHeaders ?m))" for f
    using get_put_strs [of "map f (mHeaders ?m)" "[]"] by simp
  ultimately have "ref_unstream (ref_stream e) = Inr \<lparr>smMessage = ?m\<lparr>mSequence := 0\<rparr>, smSequence = smSequence e\<rparr>"
    by (cases ?m) (simp add: ref_unstream_def zip_map_fst_snd)
  then show ?thesis by (simp add: same_entry_def as_delivered_def)
qed

interpretation mb: badger_store mem_kv mem_ok ref_json rev
  by unfold_locales (use ref_stream_roundtrip in \<open>auto simp: ref_json_def ref_config_roundtrip\<close>)

end
