(* ===== verification/Badger_Props.thy ===== *)
theory Badger_Props
  imports Reference_Codec
begin

text \<open>
  Properties of the storage as its callers see it. They are stated of any key-value store and JSON
  codec with the documented behaviour (\<open>badger_store\<close>) and applied to the in-memory ones.
\<close>

definition empty_badger :: "mem_db badger" where
  "empty_badger = \<lparr>bsDB = empty_db, bsBatching = False, bsClosed = False\<rparr>"

lemma empty_badger_inv [simp]: "badger_inv mem_kv mem_ok js empty_badger"
  by (simp add: badger_inv_def empty_badger_def stored_def mem_kv_def empty_db_def mem_ok_def key_sorted_def)

lemma empty_badger_stores [simp]: "stores (badger_holds mem_kv js) empty_badger (\<lambda>_ _. None)"
  by (simp add: stores_def badger_holds_def empty_badger_def stored_def mem_kv_def empty_db_def)

definition stored_sample :: "string \<Rightarrow> string \<Rightarrow> message" where
  "stored_sample q i = \<lparr>mID = i, mQueue = q, mPayload = [1, 2], mHeaders = [], mAttempt = 0,
     mPublishedAt = 5, mVisibleAt = 5, mOrderingKey = [], mSequence = 0\<rparr>"

lemma message_ok_sample [simp]: "message_ok rev (stored_sample q i)"
  by (rule message_ok_plain) (simp_all add: stored_sample_def nano_range_def)

lemma name_ok_sample [simp]: "name_ok ''q''" "name_ok ''a''"
  by (simp_all add: name_ok_def)

section \<open>The storage is a map\<close>

context badger_store
begin

lemma trace_loads:
  assumes "badger_inv kv ok js s" and "stores (badger_holds kv js) s a"
    and "list_all (call_ok name_ok (message_ok r)) cs" and "run_calls (badger_ops kv js r) cs (s, a) = (s', a')"
    and "name_ok q" and "LoadMessages kv js q s' = (ms, None)"
  shows "(\<exists>m' \<in> set ms. same_message m m') \<longleftrightarrow> (\<exists>i m'. a' q i = Some m' \<and> same_message m' m)"
proof -
  note run = durable.run_calls_stores [OF assms(1-4)]
  show ?thesis
    using durable.loads_refine [OF conjunct1 [OF run] conjunct2 [OF run] assms(5)] assms(6) by (simp add: badger_ops_def)
qed

end


definition sample_calls :: "store_call list" where
  "sample_calls = [CSave (stored_sample ''q'' ''x''), CSave (stored_sample ''q'' ''y''), CDelete ''q'' ''x'']"

definition sample_run :: "mem_db badger \<times> (string \<Rightarrow> string \<Rightarrow> message option)" where
  "sample_run = run_calls (badger_ops mem_kv ref_json rev) sample_calls (empty_badger, \<lambda>_ _. None)"


section \<open>Purging a queue returns\<close>



section \<open>Queue names with a colon\<close>

text \<open>Two queues share storage when the name of one continues the name of the other after a colon: a
  message of queue \<open>a:b\<close> is stored under the key of a message of queue \<open>a\<close>, so loading \<open>a\<close> returns it under
  another id, and purging \<open>a\<close> deletes it.\<close>

theorem colon_names_share_storage:
  "let s = fst (SaveMessage mem_kv rev (stored_sample ''a:b'' ''x'') empty_badger)
   in map (\<lambda>m. (mQueue m, mID m)) (fst (LoadMessages mem_kv ref_json ''a'' s)) = [(''a'', ''b:x'')]
     \<and> map mID (fst (LoadMessages mem_kv ref_json ''a:b'' s)) = [''x'']
     \<and> map_option (\<lambda>(s', e). (e, fst (LoadMessages mem_kv ref_json ''a:b'' s'))) (DeleteQueueMessages mem_kv ''a'' s) = Some (None, [])"
  by code_simp

end
