(* ===== verification/Stream_Queue.thy ===== *)
theory Stream_Queue
  imports Storage_Iface
begin

text \<open>
  Stream mode, \<open>internal/broker/stream.go\<close>: a log whose messages stay and whose consumers each
  keep an offset. The storage of a stream is a handle: nil, or the operations of a \<open>StreamStorage\<close>
  and its state. A method that holds the lock is one step. The goroutine \<open>deliverFromStorage\<close>
  holds it only to read and to write a consumer's offset, so its run is a sequence of steps, and
  \<open>deliver_pc\<close> says where it stands. A consumer's channel is closed exactly when the consumer has
  left the list.
\<close>

type_synonym 's stream_handle = "('s stream_ops \<times> 's) option"

definition streamChanCap :: nat where "streamChanCap = 100"
definition streamBatchSize :: nat where "streamBatchSize = 100"

record StreamConsumer =
  scGroup :: string
  scCh :: nat
  scBuf :: "message list"
  scOffset :: u64

record StreamQueue =
  sqName :: string
  sqNextSeq :: u64
  sqConsumers :: "StreamConsumer list"
  sqRetentionMaxAge :: duration
  sqRetentionMaxBytes :: int

definition NewStreamQueue :: "string \<Rightarrow> 's stream_handle \<Rightarrow> StreamQueue" where
  "NewStreamQueue name store =
     \<lparr>sqName = name,
      sqNextSeq = (case store of
          None \<Rightarrow> 1
        | Some (ops, s) \<Rightarrow>
            (case soGetStreamSequence ops name s of
               (seq, None) \<Rightarrow> if seq > 0 then seq + 1 else 1
             | (_, Some _) \<Rightarrow> 1)),
      sqConsumers = [], sqRetentionMaxAge = 0, sqRetentionMaxBytes = 0\<rparr>"

definition SetRetention :: "duration \<Rightarrow> int \<Rightarrow> StreamQueue \<Rightarrow> StreamQueue" where
  "SetRetention maxAge maxBytes sq = sq\<lparr>sqRetentionMaxAge := maxAge, sqRetentionMaxBytes := maxBytes\<rparr>"

definition notify :: "u64 \<Rightarrow> message \<Rightarrow> StreamConsumer \<Rightarrow> StreamConsumer" where
  \<comment> \<open>the body of the loop over the consumers in \<open>Publish\<close>\<close>
  "notify seq msg c =
     (if scOffset c = seq \<and> length (scBuf c) < streamChanCap
      then c\<lparr>scBuf := scBuf c @ [msg], scOffset := seq + 1\<rparr> else c)"

definition sqPublish :: "message \<Rightarrow> StreamQueue \<Rightarrow> 's stream_handle
    \<Rightarrow> (u64 \<times> error option) \<times> StreamQueue \<times> 's stream_handle" where
  "sqPublish msg sq store =
     (let seq = sqNextSeq sq;
          sq1 = sq\<lparr>sqNextSeq := sqNextSeq sq + 1\<rparr>;
          msg1 = msg\<lparr>mSequence := seq\<rparr>;
          (store', err) = (case store of
              None \<Rightarrow> (None, None)
            | Some (ops, s) \<Rightarrow>
                (case soSaveStreamMessage ops (sqName sq) seq \<lparr>smMessage = msg1, smSequence = seq\<rparr> s of
                   (s', e) \<Rightarrow> (Some (ops, s'), e)))
      in case err of
           Some e \<Rightarrow> ((0, Some e), sq1\<lparr>sqNextSeq := sqNextSeq sq1 - 1\<rparr>, store')
         | None \<Rightarrow> ((seq, None), sq1\<lparr>sqConsumers := map (notify seq msg1) (sqConsumers sq1)\<rparr>, store'))"

section \<open>Consumers\<close>

definition Subscribe :: "string \<Rightarrow> u64 \<Rightarrow> nat \<Rightarrow> StreamQueue \<Rightarrow> bool \<times> StreamQueue" where
  \<comment> \<open>\<open>ch\<close> is the channel that \<open>make\<close> returned; the result says whether a delivery goroutine starts\<close>
  "Subscribe grp startOffset ch sq =
     (let sc = \<lparr>scGroup = grp, scCh = ch, scBuf = [],
                scOffset = (if startOffset = 0 then sqNextSeq sq else startOffset)\<rparr>
      in (startOffset > 0 \<and> startOffset < sqNextSeq sq, sq\<lparr>sqConsumers := sqConsumers sq @ [sc]\<rparr>))"

definition stream_consumer :: "nat \<Rightarrow> StreamQueue \<Rightarrow> StreamConsumer option" where
  "stream_consumer ch sq = find (\<lambda>c. scCh c = ch) (sqConsumers sq)"

definition on_consumer :: "nat \<Rightarrow> (StreamConsumer \<Rightarrow> StreamConsumer) \<Rightarrow> StreamQueue \<Rightarrow> StreamQueue" where
  \<comment> \<open>a change of the object that the consumer pointer of a channel refers to\<close>
  "on_consumer ch f sq =
     sq\<lparr>sqConsumers := map (\<lambda>c. if scCh c = ch then f c else c) (sqConsumers sq)\<rparr>"

datatype deliver_pc =
    DTop                                 \<comment> \<open>at the top of the loop\<close>
  | DLoad u64                            \<comment> \<open>about to load from an offset\<close>
  | DSend "StreamMessage list"           \<comment> \<open>in the inner loop, before the select\<close>
  | DSent u64 "StreamMessage list"       \<comment> \<open>sent a message, about to store its offset\<close>
  | DDone

definition deliverFromStorage :: "bool \<Rightarrow> nat \<Rightarrow> deliver_pc \<Rightarrow> StreamQueue \<Rightarrow> 's stream_handle
    \<Rightarrow> (deliver_pc \<times> StreamQueue) go" where
  \<comment> \<open>one step of the goroutine for channel \<open>ch\<close>; once the consumer was removed both cases of the
    inner select are ready, and \<open>stop\<close> says which one is taken: the send panics because the channel
    is closed. A full channel blocks: the step changes nothing.\<close>
  "deliverFromStorage stop ch pc sq store =
     (case (pc, stream_consumer ch sq) of
        (DTop, None) \<Rightarrow> Some (DDone, sq)
      | (DTop, Some sc) \<Rightarrow>
          if scOffset sc \<ge> sqNextSeq sq \<or> Option.is_none store then Some (DDone, sq)
          else Some (DLoad (scOffset sc), sq)
      | (DLoad currentOffset, _) \<Rightarrow>
          (case store of
             None \<Rightarrow> Some (DDone, sq)
           | Some (ops, s) \<Rightarrow>
               (case soLoadStreamMessages ops (sqName sq) currentOffset streamBatchSize s of
                  (msgs, err) \<Rightarrow> if err \<noteq> None \<or> msgs = [] then Some (DDone, sq) else Some (DSend msgs, sq)))
      | (DSend [], _) \<Rightarrow> Some (DTop, sq)
      | (DSend (smsg # rest), None) \<Rightarrow> if stop then Some (DDone, sq) else None
      | (DSend (smsg # rest), Some sc) \<Rightarrow>
          if length (scBuf sc) < streamChanCap
          then Some (DSent (smSequence smsg) rest,
                     on_consumer ch (\<lambda>c. c\<lparr>scBuf := scBuf c @ [as_delivered smsg]\<rparr>) sq)
          else Some (pc, sq)
      | (DSent seq rest, _) \<Rightarrow> Some (DSend rest, on_consumer ch (\<lambda>c. c\<lparr>scOffset := seq + 1\<rparr>) sq)
      | (DDone, _) \<Rightarrow> Some (DDone, sq))"

definition sc_receive :: "nat \<Rightarrow> StreamQueue \<Rightarrow> (message \<times> StreamQueue) option" where
  \<comment> \<open>a receive by the goroutine that owns the channel; \<open>None\<close> when there is nothing to receive\<close>
  "sc_receive ch sq =
     (case stream_consumer ch sq of
        None \<Rightarrow> None
      | Some sc \<Rightarrow>
          (case scBuf sc of
             [] \<Rightarrow> None
           | m # _ \<Rightarrow> Some (m, on_consumer ch (\<lambda>c. c\<lparr>scBuf := tl (scBuf c)\<rparr>) sq)))"

definition sqSeek :: "string \<Rightarrow> u64 \<Rightarrow> StreamQueue \<Rightarrow> nat option \<times> StreamQueue" where
  \<comment> \<open>the result says for which channel a delivery goroutine starts\<close>
  "sqSeek grp offset sq =
     (case find (\<lambda>c. scGroup c = grp) (sqConsumers sq) of
        None \<Rightarrow> (None, sq)
      | Some c \<Rightarrow> (Some (scCh c), on_consumer (scCh c) (\<lambda>c. c\<lparr>scOffset := offset\<rparr>) sq))"

definition CommitOffset :: "string \<Rightarrow> u64 \<Rightarrow> StreamQueue \<Rightarrow> 's stream_handle \<Rightarrow> error option \<times> 's stream_handle" where
  "CommitOffset grp offset sq store =
     (case store of
        None \<Rightarrow> (None, None)
      | Some (ops, s) \<Rightarrow>
          (case soSaveConsumerOffset ops (sqName sq) grp offset s of (s', e) \<Rightarrow> (e, Some (ops, s'))))"

definition GetCommittedOffset :: "string \<Rightarrow> StreamQueue \<Rightarrow> 's stream_handle \<Rightarrow> u64 \<times> error option" where
  "GetCommittedOffset grp sq store =
     (case store of
        None \<Rightarrow> (0, None)
      | Some (ops, s) \<Rightarrow> soLoadConsumerOffset ops (sqName sq) grp s)"

definition sqRemoveConsumer :: "nat \<Rightarrow> StreamQueue \<Rightarrow> StreamQueue" where
  "sqRemoveConsumer ch sq =
     (case find_index (\<lambda>c. scCh c = ch) (sqConsumers sq) of
        None \<Rightarrow> sq
      | Some i \<Rightarrow> sq\<lparr>sqConsumers := remove_at i (sqConsumers sq)\<rparr>)"

definition sqLen :: "StreamQueue \<Rightarrow> u64" where
  "sqLen sq = sqNextSeq sq - 1"

definition NextSequence :: "StreamQueue \<Rightarrow> u64" where
  "NextSequence sq = sqNextSeq sq"

section \<open>Retention\<close>

fun scan_back :: "int \<Rightarrow> int \<Rightarrow> StreamMessage list \<Rightarrow> u64 option \<times> int" where
  \<comment> \<open>the inner loop of the size scan, over a batch in reverse: the sequence number to delete up to,
    or the total so far\<close>
  "scan_back maxBytes totalSize [] = (None, totalSize)"
| "scan_back maxBytes totalSize (m # ms) =
     (let totalSize = totalSize + int (length (mPayload (smMessage m)))
      in if totalSize > maxBytes then (Some (smSequence m + 1), totalSize)
         else scan_back maxBytes totalSize ms)"

datatype scan_result = ScanError error | ScanKeep | ScanDelete u64

fun size_scan :: "nat \<Rightarrow> 's stream_ops \<Rightarrow> string \<Rightarrow> int \<Rightarrow> u64 \<Rightarrow> u64 \<Rightarrow> int \<Rightarrow> 's \<Rightarrow> scan_result option" where
  \<comment> \<open>the loop that scans from the newest message backwards. \<open>None\<close>: not finished after that many
    iterations. The subtraction wraps around.\<close>
  "size_scan 0 ops name maxBytes oldest seq totalSize s = None"
| "size_scan (Suc n) ops name maxBytes oldest seq totalSize s =
     (if seq < oldest then Some ScanKeep
      else (let start = seq - of_nat streamBatchSize + 1;
                start = (if start < oldest then oldest else start)
            in case soLoadStreamMessages ops name start streamBatchSize s of
                 (_, Some e) \<Rightarrow> Some (ScanError e)
               | (msgs, None) \<Rightarrow>
                   (case scan_back maxBytes totalSize (rev msgs) of
                      (Some deleteUpTo, _) \<Rightarrow> Some (ScanDelete deleteUpTo)
                    | (None, totalSize) \<Rightarrow>
                        if start \<le> oldest then Some ScanKeep
                        else size_scan n ops name maxBytes oldest (start - 1) totalSize s)))"

definition time_retention :: "time \<Rightarrow> StreamQueue \<Rightarrow> 's stream_ops \<Rightarrow> 's \<Rightarrow> 's \<times> error option" where
  "time_retention now sq ops s =
     (if sqRetentionMaxAge sq > 0 then
        (case soGetStreamMessageByTimestamp ops (sqName sq) (unix_milli (now - sqRetentionMaxAge sq)) s of
           (_, Some e) \<Rightarrow> (s, Some e)
         | (seq, None) \<Rightarrow> if seq > 0 then soDeleteStreamMessagesBefore ops (sqName sq) seq s else (s, None))
      else (s, None))"

definition size_retention :: "nat \<Rightarrow> StreamQueue \<Rightarrow> 's stream_ops \<Rightarrow> 's \<Rightarrow> ('s \<times> error option) option" where
  "size_retention fuel sq ops s =
     (if sqRetentionMaxBytes sq > 0 then
        (case soGetStreamStats ops (sqName sq) s of
           (oldest, newest, err) \<Rightarrow>
             if err \<noteq> None \<or> oldest = 0 then Some (s, err)
             else (case size_scan fuel ops (sqName sq) (sqRetentionMaxBytes sq) oldest newest 0 s of
                     None \<Rightarrow> None
                   | Some (ScanError e) \<Rightarrow> Some (s, Some e)
                   | Some ScanKeep \<Rightarrow> Some (s, None)
                   | Some (ScanDelete deleteUpTo) \<Rightarrow>
                       if deleteUpTo > 0 then Some (soDeleteStreamMessagesBefore ops (sqName sq) deleteUpTo s)
                       else Some (s, None)))
      else Some (s, None))"

definition RunRetention :: "nat \<Rightarrow> time \<Rightarrow> StreamQueue \<Rightarrow> 's stream_handle \<Rightarrow> (error option \<times> 's stream_handle) option" where
  "RunRetention fuel now sq store =
     (case store of
        None \<Rightarrow> Some (None, None)
      | Some (ops, s) \<Rightarrow>
          if sqRetentionMaxAge sq = 0 \<and> sqRetentionMaxBytes sq = 0 then Some (None, store)
          else (case time_retention now sq ops s of
                  (s1, Some e) \<Rightarrow> Some (Some e, Some (ops, s1))
                | (s1, None) \<Rightarrow>
                    map_option (\<lambda>(s2, e). (e, Some (ops, s2))) (size_retention fuel sq ops s1)))"

end
