(* ===== verification/Stream_Laws.thy ===== *)
theory Stream_Laws
  imports Stream_Queue "HOL-Library.Sublist"
begin

text \<open>
  Streams as a transition system: publishers, subscribers, the receives of a consumer and the
  steps of the delivery goroutines interleave freely. The invariant follows one consumer: what was
  put on its channel is a section of the log.
\<close>

record 's stream_sys =
  ssQ :: StreamQueue
  ssStore :: 's
  ssTasks :: "(nat \<times> deliver_pc) list"  \<comment> \<open>the delivery goroutines, by channel\<close>

datatype stream_event =
    EPublish message
  | ESubscribe nat
  | EReceive nat message
  | ETask nat
  | ERemove nat
  | ECommit
  | ESeek nat
  | ERetention

inductive stream_step :: "'s stream_ops \<Rightarrow> 's stream_sys \<Rightarrow> stream_event \<Rightarrow> 's stream_sys \<Rightarrow> bool"
  for ops :: "'s stream_ops" where
  publish: "sqPublish msg (ssQ x) (Some (ops, ssStore x)) = (res, q', Some (ops', s')) \<Longrightarrow>
    stream_step ops x (EPublish msg) (x\<lparr>ssQ := q', ssStore := s'\<rparr>)"
| subscribe: "ch \<notin> scCh ` set (sqConsumers (ssQ x)) \<Longrightarrow> ch \<notin> fst ` set (ssTasks x) \<Longrightarrow>
    Subscribe grp offset ch (ssQ x) = (spawn, q') \<Longrightarrow>
    stream_step ops x (ESubscribe ch)
      (x\<lparr>ssQ := q', ssTasks := ssTasks x @ (if spawn then [(ch, DTop)] else [])\<rparr>)"
| receive: "sc_receive ch (ssQ x) = Some (m, q') \<Longrightarrow> stream_step ops x (EReceive ch m) (x\<lparr>ssQ := q'\<rparr>)"
| task: "i < length (ssTasks x) \<Longrightarrow> ssTasks x ! i = (ch, pc) \<Longrightarrow>
    deliverFromStorage stop ch pc (ssQ x) (Some (ops, ssStore x)) = Some (pc', q') \<Longrightarrow>
    stream_step ops x (ETask ch) (x\<lparr>ssQ := q', ssTasks := (ssTasks x)[i := (ch, pc')]\<rparr>)"
| remove: "stream_step ops x (ERemove ch) (x\<lparr>ssQ := sqRemoveConsumer ch (ssQ x)\<rparr>)"
| commit: "CommitOffset grp offset (ssQ x) (Some (ops, ssStore x)) = (e, Some (ops', s')) \<Longrightarrow>
    stream_step ops x ECommit (x\<lparr>ssStore := s'\<rparr>)"
| seek: "sqSeek grp offset (ssQ x) = (Some ch, q') \<Longrightarrow>
    stream_step ops x (ESeek ch) (x\<lparr>ssQ := q', ssTasks := ssTasks x @ [(ch, DTop)]\<rparr>)"
| retention: "RunRetention fuel now (ssQ x) (Some (ops, ssStore x)) = Some (e, Some (ops', s')) \<Longrightarrow>
    stream_step ops x ERetention (x\<lparr>ssStore := s'\<rparr>)"

inductive stream_run :: "'s stream_ops \<Rightarrow> 's stream_sys \<Rightarrow> stream_event list \<Rightarrow> 's stream_sys \<Rightarrow> bool"
  for ops :: "'s stream_ops" where
  stop: "stream_run ops x [] x"
| more: "stream_run ops x tr y \<Longrightarrow> stream_step ops y ev z \<Longrightarrow> stream_run ops x (tr @ [ev]) z"

inductive_cases stream_stepE: "stream_step ops x ev y"

definition received :: "nat \<Rightarrow> stream_event list \<Rightarrow> message list" where
  "received ch tr = concat (map (\<lambda>ev. case ev of EReceive c m \<Rightarrow> if c = ch then [m] else [] | _ \<Rightarrow> []) tr)"

lemma received_snoc [simp]:
  "received ch (tr @ [ev]) = received ch tr @ (case ev of EReceive c m \<Rightarrow> if c = ch then [m] else [] | _ \<Rightarrow> [])"
  by (simp add: received_def)

definition log_section :: "StreamMessage list \<Rightarrow> u64 \<Rightarrow> u64 \<Rightarrow> message list" where
  "log_section es a b = map as_delivered (filter (\<lambda>e. a \<le> smSequence e \<and> smSequence e < b) es)"

section \<open>Finding consumers\<close>

lemma find_map_consumer:
  assumes "\<And>c. scCh (f c) = scCh c"
  shows "find (\<lambda>c. scCh c = ch) (map f cs) = map_option f (find (\<lambda>c. scCh c = ch) cs)"
  by (induction cs) (simp_all add: assms)

lemma stream_consumer_on [simp]:
  assumes "\<And>c. scCh (f c) = scCh c"
  shows "stream_consumer ch (on_consumer ch' f sq) = (if ch' = ch then map_option f (stream_consumer ch sq) else stream_consumer ch sq)"
proof -
  have "find (\<lambda>c. scCh c = ch) (sqConsumers (on_consumer ch' f sq))
      = map_option (\<lambda>c. if scCh c = ch' then f c else c) (find (\<lambda>c. scCh c = ch) (sqConsumers sq))"
    unfolding on_consumer_def by (simp add: find_map_consumer assms)
  moreover have "scCh c = ch" if "find (\<lambda>c. scCh c = ch) cs = Some c" for c cs
    using that by (auto simp: find_Some_iff)
  ultimately show ?thesis
    by (cases "find (\<lambda>c. scCh c = ch) (sqConsumers sq)") (auto simp: stream_consumer_def)
qed

lemma on_consumer_frame [simp]:
  "sqName (on_consumer ch f sq) = sqName sq" "sqNextSeq (on_consumer ch f sq) = sqNextSeq sq"
  by (simp_all add: on_consumer_def)

lemma scCh_notify [simp]: "scCh (notify seq msg c) = scCh c"
  by (simp add: notify_def)

lemma stream_consumer_ch: "stream_consumer ch sq = Some c \<Longrightarrow> scCh c = ch \<and> c \<in> set (sqConsumers sq)"
  by (auto simp: stream_consumer_def find_Some_iff)

lemma find_remove_at:
  assumes "find_index (\<lambda>c. scCh c = ch') cs = Some i" and "ch' \<noteq> ch"
  shows "find (\<lambda>c. scCh c = ch) (remove_at i cs) = find (\<lambda>c. scCh c = ch) cs"
  using assms
proof (induction cs arbitrary: i)
  case (Cons c cs)
  then show ?case by (auto simp: remove_at_def split: if_splits)
qed simp

definition plain_event :: "stream_event \<Rightarrow> bool" where
  \<comment> \<open>everything but the repositioning of a live consumer and the deletion of old messages\<close>
  "plain_event ev = (case ev of ESeek _ \<Rightarrow> False | ERetention \<Rightarrow> False | _ \<Rightarrow> True)"

lemma plain_event_simps [simp]: "\<not> plain_event (ESeek c)" "\<not> plain_event ERetention"
  by (simp_all add: plain_event_def)

lemma stream_consumer_append:
  assumes "stream_consumer ch q = Some sc"
  shows "stream_consumer ch (q\<lparr>sqConsumers := sqConsumers q @ cs\<rparr>) = Some sc"
proof -
  have "find P (xs @ ys) = (case find P xs of None \<Rightarrow> find P ys | Some x \<Rightarrow> Some x)" for P :: "StreamConsumer \<Rightarrow> bool" and xs ys
    by (induction xs) simp_all
  then show ?thesis using assms by (simp add: stream_consumer_def)
qed

lemma sqRemoveConsumer_frame:
  shows "sqName (sqRemoveConsumer ch q) = sqName q" and "sqNextSeq (sqRemoveConsumer ch q) = sqNextSeq q"
    and "distinct (map scCh (sqConsumers q)) \<Longrightarrow> distinct (map scCh (sqConsumers (sqRemoveConsumer ch q)))"
    and "ch \<noteq> ch' \<Longrightarrow> stream_consumer ch' (sqRemoveConsumer ch q) = stream_consumer ch' q"
proof -
  show "distinct (map scCh (sqConsumers q)) \<Longrightarrow> distinct (map scCh (sqConsumers (sqRemoveConsumer ch q)))"
    by (simp add: sqRemoveConsumer_def distinct_remove_at split: option.splits)
qed (auto simp: sqRemoveConsumer_def stream_consumer_def find_remove_at split: option.splits)

lemma sc_receive_cases:
  assumes "sc_receive ch q = Some (m, q')"
  shows "sqName q' = sqName q" and "sqNextSeq q' = sqNextSeq q" and "map scCh (sqConsumers q') = map scCh (sqConsumers q)"
    and "ch \<noteq> ch' \<Longrightarrow> stream_consumer ch' q' = stream_consumer ch' q"
    and "\<exists>sc. stream_consumer ch q = Some sc \<and> scBuf sc \<noteq> [] \<and> hd (scBuf sc) = m
        \<and> stream_consumer ch q' = Some (sc\<lparr>scBuf := tl (scBuf sc)\<rparr>)"
  using assms
  by (auto simp: sc_receive_def on_consumer_def stream_consumer_on [unfolded on_consumer_def] split: option.splits list.splits)

lemma map_of_list_update:
  assumes "distinct (map fst T)" and "i < length T" and "T ! i = (ch, pc)"
  shows "map_of (T[i := (ch, pc')]) = (map_of T)(ch \<mapsto> pc')" and "map fst (T[i := (ch, pc')]) = map fst T"
proof -
  show "map fst (T[i := (ch, pc')]) = map fst T"
    using assms(2,3) by (metis fst_conv list_update_id map_update nth_map)
  show "map_of (T[i := (ch, pc')]) = (map_of T)(ch \<mapsto> pc')"
    using assms
  proof (induction T arbitrary: i)
    case (Cons t T)
    show ?case
    proof (cases i)
      case 0
      then show ?thesis using Cons.prems by (cases t) (simp add: fun_eq_iff)
    next
      case (Suc j)
      then have "(ch, pc) \<in> set T" using Cons.prems(2,3) nth_mem [of j T] by simp
      then have "fst t \<noteq> ch" using Cons.prems(1) by (auto simp: image_iff)
      then show ?thesis using Cons Suc by (cases t) (simp add: fun_eq_iff)
    qed
  qed simp
qed

lemma map_of_task: "distinct (map fst T) \<Longrightarrow> i < length T \<Longrightarrow> T ! i = (ch, pc) \<Longrightarrow> map_of T ch = Some pc"
  by (metis map_of_is_SomeI nth_mem)

section \<open>Following one consumer\<close>

definition position :: "deliver_pc option \<Rightarrow> u64 \<Rightarrow> u64" where
  \<comment> \<open>the sequence number up to which messages were sent: the offset, unless a message was sent
    whose offset is not stored yet\<close>
  "position pc offset = (case pc of Some (DSent seq rest) \<Rightarrow> seq + 1 | _ \<Rightarrow> offset)"

definition task_inv :: "StreamMessage list \<Rightarrow> u64 \<Rightarrow> u64 \<Rightarrow> deliver_pc option \<Rightarrow> bool" where
  "task_inv es nextSeq offset pc =
     (case pc of
        Some (DLoad n) \<Rightarrow> n = offset \<and> offset < nextSeq
      | Some (DSend rest) \<Rightarrow> prefix rest (filter (\<lambda>e. offset \<le> smSequence e) es)
      | Some (DSent seq rest) \<Rightarrow> offset \<le> seq \<and> seq < nextSeq \<and> prefix rest (filter (\<lambda>e. seq + 1 \<le> smSequence e) es)
      | _ \<Rightarrow> True)"

definition consumer_inv :: "StreamMessage list \<Rightarrow> u64 \<Rightarrow> message list \<Rightarrow> u64 \<Rightarrow> deliver_pc option \<Rightarrow> StreamConsumer \<Rightarrow> bool" where
  "consumer_inv es start hist nextSeq pc sc \<longleftrightarrow>
     list_all2 same_message (hist @ scBuf sc) (log_section es start (position pc (scOffset sc)))
   \<and> start \<le> position pc (scOffset sc)
   \<and> (position pc (scOffset sc) \<le> nextSeq \<or> position pc (scOffset sc) = start)
   \<and> task_inv es nextSeq (scOffset sc) pc"

definition stream_inv :: "('s \<Rightarrow> string \<Rightarrow> StreamMessage list) \<Rightarrow> ('s \<Rightarrow> bool) \<Rightarrow> (string \<Rightarrow> bool) \<Rightarrow> 's stream_sys \<Rightarrow> bool" where
  "stream_inv entries ok qok x \<longleftrightarrow> ok (ssStore x) \<and> qok (sqName (ssQ x))
     \<and> (\<forall>e \<in> set (entries (ssStore x) (sqName (ssQ x))). smSequence e < sqNextSeq (ssQ x))
     \<and> distinct (map scCh (sqConsumers (ssQ x))) \<and> distinct (map fst (ssTasks x))"

lemma word_succ:
  fixes n m :: u64
  assumes "n < m"
  shows "k < n + 1 \<longleftrightarrow> k \<le> n" and "n + 1 \<le> m"
proof -
  have "unat (n + 1) = unat n + 1"
    using assms unsigned_less [of m, where ?'a = nat] by (simp add: unat_word_ariths word_less_nat_alt)
  then show "k < n + 1 \<longleftrightarrow> k \<le> n" and "n + 1 \<le> m"
    using assms by (auto simp: word_less_nat_alt word_le_nat_alt)
qed

lemma word_succ_less: "n + 1 \<noteq> 0 \<Longrightarrow> n < n + (1 :: u64)"
proof -
  assume "n + 1 \<noteq> 0"
  then have "(unat n + 1) mod 2 ^ 64 \<noteq> 0" by (simp add: word_unat_eq_iff unat_word_ariths)
  moreover have "unat n < 2 ^ 64" using unsigned_less [of n, where ?'a = nat] by simp
  ultimately have "unat n + 1 < 2 ^ 64" by (cases "unat n + 1 = 2 ^ 64") auto
  then show "n < n + 1" by (simp add: word_less_nat_alt unat_word_ariths)
qed

lemma succ_not_zero: "unat (n :: u64) + 1 < 2 ^ 64 \<Longrightarrow> n + 1 \<noteq> 0"
  by (simp add: word_unat_eq_iff unat_word_ariths)

lemma log_section_empty [simp]: "log_section es a a = []"
  by (auto simp: log_section_def filter_empty_conv)

lemma log_section_snoc:
  "log_section (es @ [e]) a b = log_section es a b @ (if a \<le> smSequence e \<and> smSequence e < b then [as_delivered e] else [])"
  by (simp add: log_section_def)

lemma log_section_cong:
  "(\<And>e. e \<in> set es \<Longrightarrow> (a \<le> smSequence e \<and> smSequence e < b) = (a' \<le> smSequence e \<and> smSequence e < b')) \<Longrightarrow>
     log_section es a b = log_section es a' b'"
  unfolding log_section_def by (rule arg_cong [where f = "map as_delivered"], rule filter_cong) auto

lemma less_not_max: "n < (m :: u64) \<Longrightarrow> n + 1 \<noteq> 0"
  using word_succ(1) [of n m n] by auto

lemma consumer_inv_pushed:
  assumes "consumer_inv es start hist n pc sc" and "scOffset sc = n" and "\<forall>e \<in> set es. smSequence e < n" and "n + 1 \<noteq> 0"
    and "smSequence e = n" and "same_message m (as_delivered e)"
  shows "consumer_inv (es @ [e]) start hist (n + 1) pc (sc\<lparr>scBuf := scBuf sc @ [m], scOffset := n + 1\<rparr>)"
proof -
  have n: "n < n + 1" using assms(4) by (rule word_succ_less)
  have pc: "\<nexists>seq rest. pc = Some (DSent seq rest)" "\<nexists>k. pc = Some (DLoad k)"
    using assms(1,2) by (auto simp: consumer_inv_def task_inv_def)
  then have pos: "position pc k = k" for k by (cases pc) (auto simp: position_def split: deliver_pc.splits)
  have c: "list_all2 same_message (hist @ scBuf sc) (log_section es start n)" "start \<le> n"
    using assms(1,2) by (simp_all add: consumer_inv_def pos)
  have "log_section es start (n + 1) = log_section es start n"
    using assms(3) n by (intro log_section_cong) (auto dest: less_trans)
  then have "log_section (es @ [e]) start (n + 1) = log_section es start n @ [as_delivered e]"
    using assms(5) c(2) n by (simp add: log_section_snoc)
  then have "list_all2 same_message ((hist @ scBuf sc) @ [m]) (log_section (es @ [e]) start (n + 1))"
    using list_all2_appendI [OF c(1), of "[m]" "[as_delivered e]"] assms(6) by simp
  moreover have "task_inv (es @ [e]) (n + 1) (n + 1) pc"
  proof (cases pc)
    case (Some p)
    have "rest = []" if "p = DSend rest" for rest
    proof -
      have "filter (\<lambda>e. n \<le> smSequence e) es = []" using assms(3) by (auto simp: filter_empty_conv not_le)
      then show ?thesis using assms(1,2) Some that by (simp add: consumer_inv_def task_inv_def)
    qed
    then show ?thesis using pc Some by (cases p) (auto simp: task_inv_def)
  qed (simp add: task_inv_def)
  ultimately show ?thesis using c(2) n by (simp add: consumer_inv_def pos)
qed

lemma prefix_filter_snoc: "prefix xs (filter P es) \<Longrightarrow> prefix xs (filter P (es @ [e]))"
  by (simp add: prefix_prefix)

lemma consumer_inv_skipped:
  assumes "consumer_inv es start hist n pc sc" and "n + 1 \<noteq> 0" and "smSequence e = n"
  shows "consumer_inv (es @ [e]) start hist (n + 1) pc sc"
proof -
  have n: "n < n + 1" using assms(2) by (rule word_succ_less)
  let ?pos = "position pc (scOffset sc)"
  have "log_section (es @ [e]) start ?pos = log_section es start ?pos"
    using assms(1,3) by (auto simp: log_section_snoc consumer_inv_def)
  moreover have "task_inv (es @ [e]) (n + 1) (scOffset sc) pc"
    using assms(1) n unfolding consumer_inv_def task_inv_def
    by (auto split: option.splits deliver_pc.splits intro: less_trans prefix_filter_snoc simp del: filter_append)
  ultimately show ?thesis using assms(1) n unfolding consumer_inv_def by auto
qed

lemma sorted_split:
  assumes "sorted_wrt (<) (map smSequence es)"
  shows "es = filter (\<lambda>e. smSequence e < k) es @ filter (\<lambda>e. k \<le> smSequence e) es"
  using assms
proof (induction es)
  case (Cons e es)
  show ?case
  proof (cases "smSequence e < k")
    case True
    then show ?thesis using Cons by simp
  next
    case False
    then have "filter (\<lambda>e. smSequence e < k) es = []" "filter (\<lambda>e. k \<le> smSequence e) es = es"
      using Cons.prems by (auto simp: filter_empty_conv filter_id_conv not_less dest: le_less_trans less_imp_le)
    then show ?thesis using False by simp
  qed
qed simp

lemma next_entry:
  assumes "sorted_wrt (<) (map smSequence es)" and "filter (\<lambda>e. k \<le> smSequence e) es = m # zs" and "smSequence m < n" and "a \<le> k"
  shows "log_section es a (smSequence m + 1) = log_section es a k @ [as_delivered m]"
    and "filter (\<lambda>e. smSequence m + 1 \<le> smSequence e) es = zs" and "k \<le> smSequence m"
proof -
  let ?A = "filter (\<lambda>e. smSequence e < k) es"
  have es: "es = ?A @ m # zs" using sorted_split [OF assms(1), of k] assms(2) by simp
  have "m \<in> set (filter (\<lambda>e. k \<le> smSequence e) es)" by (simp only: assms(2) list.set_intros(1))
  then have km: "k \<le> smSequence m" by simp
  have "sorted_wrt (<) (map smSequence (?A @ m # zs))" using assms(1) es by simp
  then have zs: "\<forall>e \<in> set zs. smSequence m < smSequence e" by (simp add: sorted_wrt_append)
  have A: "\<forall>e \<in> set ?A. smSequence e < k" by simp
  note su = word_succ [OF assms(3)]
  have split: "log_section es a b = log_section ?A a b @ log_section (m # zs) a b" for b
    by (subst es) (simp add: log_section_def)
  have "log_section ?A a (smSequence m + 1) = log_section ?A a k"
    using A km su(1) by (intro log_section_cong) (auto dest: less_le_trans less_imp_le)
  moreover have "log_section (m # zs) a (smSequence m + 1) = [as_delivered m]" "log_section (m # zs) a k = []"
    using zs km assms(4) su(1) by (auto simp: log_section_def filter_empty_conv dest: less_trans)
  ultimately show "log_section es a (smSequence m + 1) = log_section es a k @ [as_delivered m]" by (simp add: split)
  have above: "smSequence m + 1 \<le> j \<longleftrightarrow> smSequence m < j" for j using su(1) [of j] by (metis not_le)
  have "filter (\<lambda>e. smSequence m < smSequence e) ?A = []" using A km by (auto simp: filter_empty_conv dest: less_le_trans)
  moreover have "filter (\<lambda>e. smSequence m < smSequence e) (m # zs) = zs" using zs by (simp add: filter_id_conv)
  ultimately have "filter (\<lambda>e. smSequence m < smSequence e) (?A @ m # zs) = zs" by (simp only: filter_append append_Nil)
  then show "filter (\<lambda>e. smSequence m + 1 \<le> smSequence e) es = zs" using es above by simp
  show "k \<le> smSequence m" by (rule km)
qed

lemma deliver_frame:
  assumes "deliverFromStorage stop ch' pc q store = Some (pc', q')"
  shows "sqName q' = sqName q" and "sqNextSeq q' = sqNextSeq q" and "map scCh (sqConsumers q') = map scCh (sqConsumers q)"
    and "ch' \<noteq> ch \<Longrightarrow> stream_consumer ch q' = stream_consumer ch q"
  using assms
  by (auto simp: deliverFromStorage_def on_consumer_def stream_consumer_on [unfolded on_consumer_def]
      split: deliver_pc.splits option.splits list.splits if_splits prod.splits)

lemma Subscribe_inv:
  assumes "stream_inv entries ok qok x" and "ch \<notin> scCh ` set (sqConsumers (ssQ x))" and "ch \<notin> fst ` set (ssTasks x)"
    and "Subscribe grp offset ch (ssQ x) = (spawn, q')"
  shows "stream_inv entries ok qok (x\<lparr>ssQ := q', ssTasks := ssTasks x @ (if spawn then [(ch, DTop)] else [])\<rparr>)"
proof -
  let ?sc = "\<lparr>scGroup = grp, scCh = ch, scBuf = [], scOffset = (if offset = 0 then sqNextSeq (ssQ x) else offset)\<rparr>"
  have "q' = (ssQ x)\<lparr>sqConsumers := sqConsumers (ssQ x) @ [?sc]\<rparr>" using assms(4) by (simp add: Subscribe_def Let_def)
  then show ?thesis using assms(1-3) by (cases spawn) (simp_all add: stream_inv_def)
qed

context stream_store
begin

lemma sqPublish_cases:
  assumes "inv s" and "qok (sqName q)" and "\<forall>e \<in> set (entries s (sqName q)). smSequence e < sqNextSeq q"
    and "sqPublish msg q (Some (ops, s)) = (res, q', Some (ops', s'))"
  obtains (failed) e where "res = (0, Some e)" "q' = q" "s' = s"
  | (appended) e where "res = (sqNextSeq q, None)" "inv s'" "offsets s' = offsets s"
      "q' = q\<lparr>sqNextSeq := sqNextSeq q + 1,
         sqConsumers := map (notify (sqNextSeq q) (msg\<lparr>mSequence := sqNextSeq q\<rparr>)) (sqConsumers q)\<rparr>"
      "entries s' (sqName q) = entries s (sqName q) @ [e]" "smSequence e = sqNextSeq q"
      "same_message (msg\<lparr>mSequence := sqNextSeq q\<rparr>) (as_delivered e)"
proof -
  let ?m = "\<lparr>smMessage = msg\<lparr>mSequence := sqNextSeq q\<rparr>, smSequence = sqNextSeq q\<rparr>"
  obtain s1 e where sv: "soSaveStreamMessage ops (sqName q) (sqNextSeq q) ?m s = (s1, e)" by fastforce
  show thesis
  proof (cases e)
    case (Some e')
    then have "s1 = s" using append_err [OF assms(1)] sv by blast
    then show thesis using assms(4) sv Some by (intro failed) (auto simp: sqPublish_def Let_def)
  next
    case None
    from append_ok [OF assms(1,2), of ?m s1] sv None assms(3) obtain m' where
      a: "inv s1" "offsets s1 = offsets s" "same_entry ?m m'" "entries s1 (sqName q) = entries s (sqName q) @ [m']" by auto
    have "s' = s1" "res = (sqNextSeq q, None)"
      "q' = q\<lparr>sqNextSeq := sqNextSeq q + 1,
         sqConsumers := map (notify (sqNextSeq q) (msg\<lparr>mSequence := sqNextSeq q\<rparr>)) (sqConsumers q)\<rparr>"
      using assms(4) sv None by (auto simp: sqPublish_def Let_def)
    then show thesis
      using a same_entry_sequence [OF a(3)] by (intro appended [of m']) (auto simp: same_entry_def as_delivered_def)
  qed
qed

abbreviation (input) log_of :: "'s stream_sys \<Rightarrow> StreamMessage list" where
  "log_of x \<equiv> entries (ssStore x) (sqName (ssQ x))"

lemma deliver_consumer:
  assumes "stream_inv entries inv qok x" and "stream_consumer ch (ssQ x) = Some sc"
    and "consumer_inv (log_of x) start hist (sqNextSeq (ssQ x)) (Some pc) sc"
    and "deliverFromStorage stop ch pc (ssQ x) (Some (ops, ssStore x)) = Some (pc', q')"
  shows "\<exists>sc'. stream_consumer ch q' = Some sc' \<and> consumer_inv (log_of x) start hist (sqNextSeq (ssQ x)) (Some pc') sc'"
proof (cases pc)
  case DTop
  then show ?thesis using assms(2-4)
    by (auto simp: deliverFromStorage_def consumer_inv_def position_def task_inv_def not_le split: if_splits)
next
  case (DLoad n)
  have x: "inv (ssStore x)" "qok (sqName (ssQ x))" using assms(1) by (simp_all add: stream_inv_def)
  obtain msgs err where l: "soLoadStreamMessages ops (sqName (ssQ x)) n streamBatchSize (ssStore x) = (msgs, err)" by fastforce
  show ?thesis
  proof (cases "err = None \<and> msgs \<noteq> []")
    case True
    then have "msgs = take streamBatchSize (filter (\<lambda>e. n \<le> smSequence e) (log_of x))"
      using load_stream [OF x] l by blast
    then have "prefix msgs (filter (\<lambda>e. n \<le> smSequence e) (log_of x))" by (metis take_is_prefix)
    then show ?thesis using assms(2-4) DLoad l True
      by (auto simp: deliverFromStorage_def consumer_inv_def position_def task_inv_def)
  next
    case False
    then have "pc' = DDone" "q' = ssQ x" using assms(2,4) DLoad l by (auto simp: deliverFromStorage_def)
    then show ?thesis using assms(2,3) DLoad by (auto simp: consumer_inv_def position_def task_inv_def)
  qed
next
  case (DSend ms)
  show ?thesis
  proof (cases ms)
    case Nil
    then show ?thesis using assms(2-4) DSend
      by (auto simp: deliverFromStorage_def consumer_inv_def position_def task_inv_def)
  next
    case (Cons m rest)
    show ?thesis
    proof (cases "length (scBuf sc) < streamChanCap")
      case False
      then show ?thesis using assms(2-4) DSend Cons by (auto simp: deliverFromStorage_def)
    next
      case True
      let ?off = "scOffset sc"
      have c: "list_all2 same_message (hist @ scBuf sc) (log_section (log_of x) start ?off)" "start \<le> ?off"
        "prefix (m # rest) (filter (\<lambda>e. ?off \<le> smSequence e) (log_of x))"
        using assms(3) DSend Cons by (simp_all add: consumer_inv_def position_def task_inv_def)
      then obtain ys where f: "filter (\<lambda>e. ?off \<le> smSequence e) (log_of x) = m # rest @ ys" by (auto elim: prefixE)
      have "m \<in> set (filter (\<lambda>e. ?off \<le> smSequence e) (log_of x))" by (simp only: f list.set_intros(1))
      then have mn: "smSequence m < sqNextSeq (ssQ x)" using assms(1) by (simp add: stream_inv_def)
      have sorted: "sorted_wrt (<) (map smSequence (log_of x))"
        using assms(1) entries_sorted by (simp add: stream_inv_def)
      note nx = next_entry [OF sorted f mn c(2)]
      let ?sc = "sc\<lparr>scBuf := scBuf sc @ [as_delivered m]\<rparr>"
      have q': "stream_consumer ch q' = Some ?sc" "pc' = DSent (smSequence m) rest"
        using assms(2,4) DSend Cons True by (auto simp: deliverFromStorage_def)
      have "list_all2 same_message ((hist @ scBuf sc) @ [as_delivered m]) (log_section (log_of x) start (smSequence m + 1))"
        unfolding nx(1) using c(1) by (intro list_all2_appendI) simp_all
      moreover have "start \<le> smSequence m + 1"
        using c(2) nx(3) word_succ_less [OF less_not_max [OF mn]] by (meson le_less_trans less_imp_le order_trans)
      ultimately have "consumer_inv (log_of x) start hist (sqNextSeq (ssQ x)) (Some pc') ?sc"
        using nx(2,3) mn word_succ(2) [OF mn] by (simp add: consumer_inv_def position_def task_inv_def q'(2) prefix_def)
      then show ?thesis using q'(1) by blast
    qed
  qed
next
  case (DSent seq rest)
  then show ?thesis using assms(2-4)
    by (auto simp: deliverFromStorage_def consumer_inv_def position_def task_inv_def)
next
  case DDone
  then show ?thesis using assms(2-4) by (auto simp: deliverFromStorage_def)
qed

lemma CommitOffset_keeps:
  assumes "inv s" and "qok (sqName q)" and "CommitOffset grp offset q (Some (ops, s)) = (e, Some (ops', s'))"
  shows "inv s' \<and> entries s' (sqName q) = entries s (sqName q)"
proof -
  have sv: "soSaveConsumerOffset ops (sqName q) grp offset s = (s', e)"
    using assms(3) by (auto simp: CommitOffset_def split: prod.splits)
  show ?thesis
  proof (cases e)
    case None
    then show ?thesis using commit_offset [OF assms(1,2) sv [unfolded None]] assms(2) by blast
  next
    case (Some e')
    then show ?thesis using commit_offset_err [OF assms(1) sv [unfolded Some]] assms(1) by simp
  qed
qed

lemma step_inv:
  assumes "stream_step ops x ev y" and "stream_inv entries inv qok x" and "plain_event ev" and "sqNextSeq (ssQ x) + 1 \<noteq> 0"
  shows "stream_inv entries inv qok y \<and> sqName (ssQ y) = sqName (ssQ x)"
proof -
  have x: "inv (ssStore x)" "qok (sqName (ssQ x))" "\<forall>e \<in> set (log_of x). smSequence e < sqNextSeq (ssQ x)"
    "distinct (map scCh (sqConsumers (ssQ x)))" "distinct (map fst (ssTasks x))"
    using assms(2) by (simp_all add: stream_inv_def)
  show ?thesis
    using assms(1)
  proof cases
    case (publish msg res q' ops' s')
    show ?thesis
      using x(1-3) publish(3)
    proof (cases rule: sqPublish_cases)
      case (failed e)
      then show ?thesis using publish assms(2) by simp
    next
      case (appended e)
      then have "map scCh (sqConsumers q') = map scCh (sqConsumers (ssQ x))" by (simp add: comp_def)
      moreover have "\<forall>e \<in> set (entries s' (sqName (ssQ x))). smSequence e < sqNextSeq (ssQ x) + 1"
        using appended(5,6) x(3) word_succ_less [OF assms(4)] by (auto dest: less_trans)
      ultimately show ?thesis using publish(2) appended x by (simp add: stream_inv_def comp_def)
    qed
  next
    case (subscribe ch grp offset spawn q')
    then show ?thesis using x by (auto simp: stream_inv_def Subscribe_def Let_def)
  next
    case (receive ch m q')
    then show ?thesis using x sc_receive_cases [OF receive(3)] by (simp add: stream_inv_def)
  next
    case (task i ch pc stop pc' q')
    then show ?thesis using x deliver_frame [OF task(5)] map_of_list_update(2) [OF x(5) task(3,4)] by (simp add: stream_inv_def)
  next
    case (remove ch)
    then show ?thesis using x sqRemoveConsumer_frame(1-3) [where ch = ch and q = "ssQ x"] by (simp add: stream_inv_def)
  next
    case (commit grp offset e ops' s')
    then show ?thesis using CommitOffset_keeps [OF x(1,2) commit(3)] x by (simp add: stream_inv_def)
  qed (use assms(3) in simp_all)
qed

lemma step_consumer:
  assumes "stream_step ops x ev y" and "stream_inv entries inv qok x" and "plain_event ev" and "ev \<noteq> ERemove ch"
    and "sqNextSeq (ssQ x) + 1 \<noteq> 0" and "stream_consumer ch (ssQ x) = Some sc"
    and "consumer_inv (log_of x) start (received ch tr) (sqNextSeq (ssQ x)) (map_of (ssTasks x) ch) sc"
  shows "\<exists>sc'. stream_consumer ch (ssQ y) = Some sc'
    \<and> consumer_inv (log_of y) start (received ch (tr @ [ev])) (sqNextSeq (ssQ y)) (map_of (ssTasks y) ch) sc'"
proof -
  have x: "inv (ssStore x)" "qok (sqName (ssQ x))" "\<forall>e \<in> set (log_of x). smSequence e < sqNextSeq (ssQ x)"
    "distinct (map fst (ssTasks x))"
    using assms(2) by (simp_all add: stream_inv_def)
  show ?thesis
    using assms(1)
  proof cases
    case (publish msg res q' ops' s')
    show ?thesis
      using x(1-3) publish(3)
    proof (cases rule: sqPublish_cases)
      case (failed e)
      then show ?thesis using publish assms(6,7) by simp
    next
      case (appended e)
      let ?n = "sqNextSeq (ssQ x)" and ?m = "msg\<lparr>mSequence := sqNextSeq (ssQ x)\<rparr>"
      have sc': "stream_consumer ch q' = Some (notify ?n ?m sc)"
        using appended(4) assms(6) by (simp add: stream_consumer_def find_map_consumer)
      have "consumer_inv (log_of x @ [e]) start (received ch tr) (?n + 1) (map_of (ssTasks x) ch) (notify ?n ?m sc)"
        using consumer_inv_pushed [OF assms(7) _ x(3) assms(5) appended(6,7)]
          consumer_inv_skipped [OF assms(7,5) appended(6)] by (auto simp: notify_def)
      then show ?thesis using publish(1,2) appended sc' by simp
    qed
  next
    case (subscribe ch' grp offset spawn q')
    have "ch' \<noteq> ch" using subscribe(3) stream_consumer_ch [OF assms(6)] by auto
    then have "map_of (ssTasks y) ch = map_of (ssTasks x) ch" using subscribe(2) by (simp add: map_add_def split: option.splits)
    then show ?thesis
      using subscribe(1,2,5) stream_consumer_append [OF assms(6)] assms(7) by (auto simp: Subscribe_def Let_def)
  next
    case (receive ch' m q')
    note r = sc_receive_cases [OF receive(3)]
    show ?thesis
    proof (cases "ch' = ch")
      case True
      then have "scBuf sc = m # tl (scBuf sc)" "stream_consumer ch q' = Some (sc\<lparr>scBuf := tl (scBuf sc)\<rparr>)"
        using r(5) assms(6) by (auto simp: hd_Cons_tl)
      then show ?thesis using receive(1,2) r(1,2) True assms(7) by (auto simp: consumer_inv_def)
    next
      case False
      then show ?thesis using receive(1,2) r assms(6,7) by simp
    qed
  next
    case (task i ch' pc stop pc' q')
    note f = deliver_frame [OF task(5)]
    note u = map_of_list_update [OF x(4) task(3,4)]
    show ?thesis
    proof (cases "ch' = ch")
      case True
      have "map_of (ssTasks x) ch = Some pc" using map_of_task [OF x(4) task(3,4)] True by simp
      then show ?thesis
        using deliver_consumer [OF assms(2,6) _ task(5) [unfolded True]] assms(7) task(1,2) f u True by simp
    next
      case False
      then show ?thesis using task(1,2) f u assms(6,7) by simp
    qed
  next
    case (remove ch')
    then show ?thesis using sqRemoveConsumer_frame(1,2) [where ch = ch' and q = "ssQ x"]
        sqRemoveConsumer_frame(4) [where ch = ch' and q = "ssQ x" and ch' = ch] assms(4,6,7) by simp
  next
    case (commit grp offset e ops' s')
    then show ?thesis using CommitOffset_keeps [OF x(1,2) commit(3)] assms(6,7) by simp
  qed (use assms(3) in simp_all)
qed

section \<open>Runs\<close>

lemma step_sequence:
  assumes "stream_step ops x ev y" and "stream_inv entries inv qok x" and "sqNextSeq (ssQ x) + 1 \<noteq> 0"
  shows "unat (sqNextSeq (ssQ y)) \<le> unat (sqNextSeq (ssQ x)) + 1"
proof -
  have x: "inv (ssStore x)" "qok (sqName (ssQ x))" "\<forall>e \<in> set (log_of x). smSequence e < sqNextSeq (ssQ x)"
    using assms(2) by (simp_all add: stream_inv_def)
  show ?thesis
    using assms(1)
  proof cases
    case (publish msg res q' ops' s')
    show ?thesis
      using x publish(3)
    proof (cases rule: sqPublish_cases)
      case (appended e)
      then show ?thesis using publish(2) by (simp add: unat_word_ariths)
    qed (use publish in simp)
  next
    case (task i ch pc stop pc' q')
    then show ?thesis using deliver_frame(2) [OF task(5)] by simp
  next
    case (receive ch m q')
    then show ?thesis using sc_receive_cases(2) [OF receive(3)] by simp
  qed (auto simp: Subscribe_def Let_def sqRemoveConsumer_frame sqSeek_def split: option.splits)
qed

text \<open>A run that publishes less than the sequence numbers last keeps the invariant of the system and of
  a consumer that is not removed.\<close>

lemma run_consumer:
  assumes "stream_run ops x tr y" and "stream_inv entries inv qok x" and "list_all plain_event tr" and "ERemove ch \<notin> set tr"
    and "unat (sqNextSeq (ssQ x)) + length tr < 2 ^ 64" and "stream_consumer ch (ssQ x) = Some sc"
    and "consumer_inv (log_of x) start [] (sqNextSeq (ssQ x)) (map_of (ssTasks x) ch) sc"
  shows "stream_inv entries inv qok y \<and> unat (sqNextSeq (ssQ y)) \<le> unat (sqNextSeq (ssQ x)) + length tr
    \<and> (\<exists>sc'. stream_consumer ch (ssQ y) = Some sc'
        \<and> consumer_inv (log_of y) start (received ch tr) (sqNextSeq (ssQ y)) (map_of (ssTasks y) ch) sc')"
  using assms
proof (induction rule: stream_run.induct)
  case (stop x)
  then show ?case by (simp add: received_def)
next
  case (more x tr y ev z)
  from more obtain sc' where y: "stream_inv entries inv qok y" "unat (sqNextSeq (ssQ y)) \<le> unat (sqNextSeq (ssQ x)) + length tr"
    "stream_consumer ch (ssQ y) = Some sc'"
    "consumer_inv (log_of y) start (received ch tr) (sqNextSeq (ssQ y)) (map_of (ssTasks y) ch) sc'" by auto
  have n: "sqNextSeq (ssQ y) + 1 \<noteq> 0" using y(2) more.prems(4) by (intro succ_not_zero) simp
  have ev: "plain_event ev" "ev \<noteq> ERemove ch" using more.prems(2,3) by auto
  show ?case
    using step_inv [OF more.hyps(2) y(1) ev(1) n] step_sequence [OF more.hyps(2) y(1) n] y(2)
      step_consumer [OF more.hyps(2) y(1) ev n y(3,4)] by simp
qed

lemma Subscribe_consumer:
  assumes "ch \<notin> scCh ` set (sqConsumers (ssQ x))" and "ch \<notin> fst ` set (ssTasks x)" and "Subscribe grp offset ch (ssQ x) = (spawn, q')"
  shows "\<exists>sc. stream_consumer ch q' = Some sc \<and> sqNextSeq q' = sqNextSeq (ssQ x) \<and> sqName q' = sqName (ssQ x)
    \<and> consumer_inv es (if offset = 0 then sqNextSeq (ssQ x) else offset) [] (sqNextSeq (ssQ x))
        (map_of (ssTasks x @ (if spawn then [(ch, DTop)] else [])) ch) sc"
proof -
  let ?sc = "\<lparr>scGroup = grp, scCh = ch, scBuf = [], scOffset = (if offset = 0 then sqNextSeq (ssQ x) else offset)\<rparr>"
  have "find (\<lambda>c. scCh c = ch) (cs @ [?sc]) = Some ?sc" if "ch \<notin> scCh ` set cs" for cs
    using that by (induction cs) auto
  moreover have "map_of (ssTasks x) ch = None" using assms(2) by (simp add: map_of_eq_None_iff)
  ultimately show ?thesis
    using assms(1,3) by (auto simp: Subscribe_def Let_def stream_consumer_def consumer_inv_def position_def
        task_inv_def map_add_def)
qed

lemma stream_inv_New:
  assumes "inv s" and "qok name" and "soGetStreamSequence ops name s = (n, None)" and "n + 1 \<noteq> 0"
    and "\<forall>e \<in> set (entries s name). 0 < smSequence e"
  shows "stream_inv entries inv qok \<lparr>ssQ = NewStreamQueue name (Some (ops, s)), ssStore = s, ssTasks = []\<rparr>"
    and "sqNextSeq (NewStreamQueue name (Some (ops, s))) = n + 1"
proof -
  note n = sequence_ok [OF assms(1,2,3)]
  have q: "sqName (NewStreamQueue name (Some (ops, s))) = name" "sqConsumers (NewStreamQueue name (Some (ops, s))) = []"
    by (simp_all add: NewStreamQueue_def)
  show nx: "sqNextSeq (NewStreamQueue name (Some (ops, s))) = n + 1"
    using assms(3) by (auto simp: NewStreamQueue_def word_neq_0_conv [symmetric])
  have "smSequence e < n + 1" if "e \<in> set (entries s name)" for e
  proof -
    have ne: "entries s name \<noteq> []" using that by auto
    have "smSequence e \<le> n"
    proof (cases "entries s name" rule: rev_cases)
      case (snoc es l)
      then show ?thesis using that n ne entries_sorted [OF assms(1,2)] by (auto simp: sorted_wrt_append)
    qed (use ne in simp)
    then show ?thesis using word_succ_less [OF assms(4)] by (rule le_less_trans)
  qed
  then show "stream_inv entries inv qok \<lparr>ssQ = NewStreamQueue name (Some (ops, s)), ssStore = s, ssTasks = []\<rparr>"
    using assms(1,2) q nx by (simp add: stream_inv_def)
qed

end

section \<open>A consumer that fell behind\<close>

lemma step_stalled:
  assumes "stream_step ops x ev y" and "ev \<noteq> ERemove ch" and "ev \<noteq> ESeek ch" and "sqNextSeq (ssQ x) + 1 \<noteq> 0"
    and "stream_consumer ch (ssQ x) = Some sc" and "scOffset sc < sqNextSeq (ssQ x)"
    and "\<forall>pc. (ch, pc) \<in> set (ssTasks x) \<longrightarrow> pc = DDone"
  shows "(\<exists>sc'. stream_consumer ch (ssQ y) = Some sc' \<and> scOffset sc' = scOffset sc
      \<and> received ch (tr @ [ev]) @ scBuf sc' = received ch tr @ scBuf sc \<and> scOffset sc' < sqNextSeq (ssQ y))
    \<and> (\<forall>pc. (ch, pc) \<in> set (ssTasks y) \<longrightarrow> pc = DDone)
    \<and> unat (sqNextSeq (ssQ y)) \<le> unat (sqNextSeq (ssQ x)) + 1"
  using assms(1)
proof cases
  case (publish msg res q' ops' s')
  let ?n = "sqNextSeq (ssQ x)"
  have "q' = ssQ x \<or> q' = (ssQ x)\<lparr>sqNextSeq := ?n + 1, sqConsumers := map (notify ?n (msg\<lparr>mSequence := ?n\<rparr>)) (sqConsumers (ssQ x))\<rparr>"
    using publish(3) by (auto simp: sqPublish_def Let_def split: option.splits prod.splits)
  moreover have "stream_consumer ch ((ssQ x)\<lparr>sqNextSeq := ?n + 1, sqConsumers := map (notify ?n (msg\<lparr>mSequence := ?n\<rparr>)) (sqConsumers (ssQ x))\<rparr>)
      = Some sc"
    using assms(5,6) by (auto simp: stream_consumer_def find_map_consumer notify_def)
  ultimately show ?thesis
    using publish(1,2) assms(5-7) word_succ_less [OF assms(4)] by (auto simp: unat_word_ariths dest: less_trans)
next
  case (subscribe ch' grp offset spawn q')
  have "ch' \<noteq> ch" using subscribe(3) stream_consumer_ch [OF assms(5)] by auto
  then show ?thesis
    using subscribe(1,2,5) stream_consumer_append [OF assms(5)] assms(6,7) by (auto simp: Subscribe_def Let_def)
next
  case (receive ch' m q')
  note r = sc_receive_cases [OF receive(3)]
  show ?thesis
  proof (cases "ch' = ch")
    case True
    then have "scBuf sc = m # tl (scBuf sc)" "stream_consumer ch q' = Some (sc\<lparr>scBuf := tl (scBuf sc)\<rparr>)"
      using r(5) assms(5) by (auto simp: hd_Cons_tl)
    then show ?thesis using receive(1,2) r(2) True assms(6,7) by auto
  next
    case False
    then show ?thesis using receive(1,2) r assms(5-7) by simp
  qed
next
  case (task i ch' pc stop pc' q')
  note f = deliver_frame [OF task(5)]
  have mem: "(ch', pc) \<in> set (ssTasks x)" using task(3,4) by (metis nth_mem)
  have tasks: "\<forall>pc. (ch, pc) \<in> set ((ssTasks x)[i := (ch', pc')]) \<longrightarrow> pc = DDone" if "ch' = ch \<Longrightarrow> pc' = DDone"
    using assms(7) that set_update_subset_insert [of "ssTasks x" i "(ch', pc')"] by auto
  show ?thesis
  proof (cases "ch' = ch")
    case True
    then have "pc = DDone" using mem assms(7) by blast
    then have "pc' = DDone" "q' = ssQ x" using task(5) by (auto simp: deliverFromStorage_def)
    then show ?thesis using task(1,2) tasks assms(5,6) by simp
  next
    case False
    then show ?thesis using task(1,2) f tasks assms(5,6) by simp
  qed
next
  case (remove ch')
  then show ?thesis using sqRemoveConsumer_frame(1,2) [where ch = ch' and q = "ssQ x"]
      sqRemoveConsumer_frame(4) [where ch = ch' and q = "ssQ x" and ch' = ch] assms(2,5-7) by simp
next
  case (seek grp offset ch' q')
  then show ?thesis using assms(3,5-7) by (auto simp: sqSeek_def split: option.splits)
qed (use assms(5-7) in auto)

lemma run_stalled:
  assumes "stream_run ops x tr y" and "ERemove ch \<notin> set tr" and "ESeek ch \<notin> set tr"
    and "unat (sqNextSeq (ssQ x)) + length tr < 2 ^ 64"
    and "stream_consumer ch (ssQ x) = Some sc" and "scOffset sc < sqNextSeq (ssQ x)"
    and "\<forall>pc. (ch, pc) \<in> set (ssTasks x) \<longrightarrow> pc = DDone"
  shows "(\<exists>sc'. stream_consumer ch (ssQ y) = Some sc' \<and> scOffset sc' = scOffset sc
      \<and> received ch tr @ scBuf sc' = scBuf sc \<and> scOffset sc' < sqNextSeq (ssQ y))
    \<and> (\<forall>pc. (ch, pc) \<in> set (ssTasks y) \<longrightarrow> pc = DDone)
    \<and> unat (sqNextSeq (ssQ y)) \<le> unat (sqNextSeq (ssQ x)) + length tr"
  using assms
proof (induction rule: stream_run.induct)
  case (stop x)
  then show ?case by (simp add: received_def)
next
  case (more x tr y ev z)
  from more obtain sc' where y: "stream_consumer ch (ssQ y) = Some sc'" "scOffset sc' = scOffset sc"
    "received ch tr @ scBuf sc' = scBuf sc" "scOffset sc' < sqNextSeq (ssQ y)"
    "\<forall>pc. (ch, pc) \<in> set (ssTasks y) \<longrightarrow> pc = DDone"
    "unat (sqNextSeq (ssQ y)) \<le> unat (sqNextSeq (ssQ x)) + length tr" by auto
  have "sqNextSeq (ssQ y) + 1 \<noteq> 0" using y(6) more.prems(3) by (intro succ_not_zero) simp
  from step_stalled [OF more.hyps(2) _ _ this y(1,4,5), of tr] more.prems(1,2) y(2,3,6)
  show ?case by auto
qed

end
