(* ===== verification/Stream_Props.thy ===== *)
theory Stream_Props
  imports Stream_Laws Badger_Props
begin

text \<open>
  Properties of stream mode on top of the storage of \<open>badger.go\<close>, for any key-value store and JSON
  codec with the documented behaviour.
\<close>

abbreviation badger_stream_inv :: "'db kv \<Rightarrow> ('db \<Rightarrow> bool) \<Rightarrow> json_codec \<Rightarrow> 'db badger stream_sys \<Rightarrow> bool" where
  "badger_stream_inv kv ok js \<equiv> stream_inv (badger_entries kv js) (badger_inv kv ok js) name_ok"

section \<open>Consumers see the log\<close>

text \<open>C3. A stream consumer sees the log: subscribe at an offset and let publishers, other consumers, commits
  and the delivery goroutine run on in any order. What the consumer has received, followed by what
  is buffered for it, is then the section of the log from its offset on: every message once, in order,
  without a gap. The run may not remove or reposition this consumer or delete messages.\<close>

theorem stream_consumer_sees_log:
  assumes "badger_store kv ok js r" and "badger_stream_inv kv ok js x"
    and "ch \<notin> scCh ` set (sqConsumers (ssQ x))" and "ch \<notin> fst ` set (ssTasks x)" and "Subscribe grp offset ch (ssQ x) = (spawn, q')"
    and "stream_run (badger_stream_ops kv js) (x\<lparr>ssQ := q', ssTasks := ssTasks x @ (if spawn then [(ch, DTop)] else [])\<rparr>) tr y"
    and "list_all plain_event tr" and "ERemove ch \<notin> set tr" and "unat (sqNextSeq (ssQ x)) + length tr < 2 ^ 64"
  shows "\<exists>sc b. stream_consumer ch (ssQ y) = Some sc
    \<and> list_all2 same_message (received ch tr @ scBuf sc)
        (log_section (badger_entries kv js (ssStore y) (sqName (ssQ y)))
           (if offset = 0 then sqNextSeq (ssQ x) else offset) b)"
proof -
  let ?x = "x\<lparr>ssQ := q', ssTasks := ssTasks x @ (if spawn then [(ch, DTop)] else [])\<rparr>"
  note ss = badger_store.is_stream_store [OF assms(1)]
  from stream_store.Subscribe_consumer [OF ss assms(3-5), of "badger_entries kv js (ssStore x) (sqName (ssQ x))"]
  obtain sc where sc: "stream_consumer ch q' = Some sc" "sqNextSeq q' = sqNextSeq (ssQ x)" "sqName q' = sqName (ssQ x)"
    "consumer_inv (badger_entries kv js (ssStore x) (sqName (ssQ x))) (if offset = 0 then sqNextSeq (ssQ x) else offset) []
       (sqNextSeq (ssQ x)) (map_of (ssTasks x @ (if spawn then [(ch, DTop)] else [])) ch) sc" by blast
  have "\<exists>sc'. stream_consumer ch (ssQ y) = Some sc'
      \<and> consumer_inv (badger_entries kv js (ssStore y) (sqName (ssQ y))) (if offset = 0 then sqNextSeq (ssQ x) else offset)
          (received ch tr) (sqNextSeq (ssQ y)) (map_of (ssTasks y) ch) sc'"
    using stream_store.run_consumer [OF ss assms(6) Subscribe_inv [OF assms(2-5)] assms(7,8), of sc] assms(9) sc by simp
  then show ?thesis unfolding consumer_inv_def by blast
qed

definition stream_sample :: "nat \<Rightarrow> message" where
  "stream_sample k = \<lparr>mID = replicate k CHR ''x'', mQueue = ''q'', mPayload = [1, 2, 3], mHeaders = [], mAttempt = 0,
     mPublishedAt = 5, mVisibleAt = 5, mOrderingKey = [], mSequence = 0\<rparr>"

definition fresh_stream :: "mem_db badger stream_sys" where
  "fresh_stream = \<lparr>ssQ = NewStreamQueue ''q'' (Some (badger_stream_ops mem_kv ref_json, empty_badger)),
     ssStore = empty_badger, ssTasks = []\<rparr>"

lemma fresh_stream_simps [simp]:
  "sqNextSeq (ssQ fresh_stream) = 1" "sqName (ssQ fresh_stream) = ''q''" "sqConsumers (ssQ fresh_stream) = []"
  "ssStore fresh_stream = empty_badger" "ssTasks fresh_stream = []"
  by (simp_all add: fresh_stream_def NewStreamQueue_def badger_stream_ops_def GetStreamSequence_def kv_view_def
      mem_kv_def empty_badger_def empty_db_def)

lemma fresh_stream_tasks [simp]: "fresh_stream\<lparr>ssQ := q, ssTasks := []\<rparr> = fresh_stream\<lparr>ssQ := q\<rparr>"
  by (simp add: fresh_stream_def)

lemma fresh_stream_inv: "badger_stream_inv mem_kv mem_ok ref_json fresh_stream"
  by (simp add: stream_inv_def badger_entries_def) (simp add: empty_badger_def mem_kv_def empty_db_def)

definition tail_queue :: StreamQueue where
  "tail_queue = snd (Subscribe ''g'' 0 7 (ssQ fresh_stream))"

lemma publish_step:
  "\<exists>y. stream_step ops x (EPublish msg) y"
proof -
  obtain res q' ops' s' where "sqPublish msg (ssQ x) (Some (ops, ssStore x)) = (res, q', Some (ops', s'))"
    by (fastforce simp: sqPublish_def Let_def split: prod.splits option.splits)
  then show ?thesis by (blast intro: stream_step.publish)
qed

theorem stream_consumer_sees_log_witness:
  "\<exists>y sc b. stream_run (badger_stream_ops mem_kv ref_json) (fresh_stream\<lparr>ssQ := tail_queue\<rparr>) [EPublish (stream_sample 1)] y
    \<and> stream_consumer 7 (ssQ y) = Some sc
    \<and> list_all2 same_message (scBuf sc) (log_section (badger_entries mem_kv ref_json (ssStore y) (sqName (ssQ y))) 1 b)"
proof -
  let ?x = "fresh_stream\<lparr>ssQ := tail_queue\<rparr>"
  obtain y where "stream_step (badger_stream_ops mem_kv ref_json) ?x (EPublish (stream_sample 1)) y"
    using publish_step by blast
  then have run: "stream_run (badger_stream_ops mem_kv ref_json) ?x [EPublish (stream_sample 1)] y"
    using stream_run.more [OF stream_run.stop] by fastforce
  have "Subscribe ''g'' 0 7 (ssQ fresh_stream) = (False, tail_queue)" by (simp add: tail_queue_def Subscribe_def Let_def)
  from stream_consumer_sees_log [OF mb.badger_store_axioms fresh_stream_inv _ _ this, of "[EPublish (stream_sample 1)]" y] run
  show ?thesis by (simp add: plain_event_def received_def) blast
qed

section \<open>Publishing and restarting\<close>

text \<open>C23. A publish appends or does nothing: when it succeeds, the log has grown by the message, under the
  next sequence number, and nothing else has changed in it; when the storage fails, the error is returned
  and neither the log nor the counter has moved, so the number is used by the next publish.\<close>

theorem stream_publish_appends_or_fails:
  assumes "badger_store kv ok js r" and "badger_inv kv ok js s" and "name_ok (sqName q)"
    and "\<forall>e \<in> set (badger_entries kv js s (sqName q)). smSequence e < sqNextSeq q"
    and "sqPublish msg q (Some (badger_stream_ops kv js, s)) = (res, q', Some (ops', s'))"
  shows "(\<exists>e. res = (0, Some e) \<and> q' = q \<and> s' = s)
    \<or> (\<exists>m. res = (sqNextSeq q, None) \<and> sqNextSeq q' = sqNextSeq q + 1 \<and> badger_inv kv ok js s'
        \<and> badger_entries kv js s' (sqName q) = badger_entries kv js s (sqName q) @ [m]
        \<and> same_message (msg\<lparr>mSequence := sqNextSeq q\<rparr>) (as_delivered m))"
  by (rule stream_store.sqPublish_cases [OF badger_store.is_stream_store [OF assms(1)] assms(2-5)]) simp_all

lemma mem_publish:
  "\<exists>q' s'. sqPublish msg q (Some (badger_stream_ops mem_kv ref_json, empty_badger))
     = ((sqNextSeq q, None), q', Some (badger_stream_ops mem_kv ref_json, s'))"
proof -
  have "\<exists>s'. soSaveStreamMessage (badger_stream_ops mem_kv ref_json) name n m empty_badger = (s', None)" for name n m
    by (simp add: badger_stream_ops_def SaveStreamMessage_def ref_json_def kv_update_def mem_kv_def
        empty_badger_def empty_db_def with_db_def)
  then obtain s' where "soSaveStreamMessage (badger_stream_ops mem_kv ref_json) (sqName q) (sqNextSeq q)
      \<lparr>smMessage = msg\<lparr>mSequence := sqNextSeq q\<rparr>, smSequence = sqNextSeq q\<rparr> empty_badger = (s', None)" by blast
  then show ?thesis by (simp add: sqPublish_def Let_def)
qed

theorem stream_publish_appends_or_fails_witness:
  "\<exists>s' m. badger_entries mem_kv ref_json s' ''q'' = [m] \<and> same_message ((stream_sample 2)\<lparr>mSequence := 1\<rparr>) (as_delivered m)"
proof -
  let ?q = "ssQ fresh_stream" and ?ops = "badger_stream_ops mem_kv ref_json"
  obtain q' s' where p: "sqPublish (stream_sample 2) ?q (Some (?ops, empty_badger)) = ((1, None), q', Some (?ops, s'))"
    using mem_publish [of "stream_sample 2" ?q] by auto
  have "badger_entries mem_kv ref_json empty_badger ''q'' = []"
    by (simp add: badger_entries_def empty_badger_def mem_kv_def empty_db_def)
  with stream_publish_appends_or_fails [OF mb.badger_store_axioms, of empty_badger ?q "stream_sample 2" _ q' ?ops s'] p
  show ?thesis by (auto simp: name_ok_sample)
qed

text \<open>A restart continues the numbering: a stream queue that is created over stored messages assigns the
  number after the last stored one, so no stored message is overwritten, and it starts in a state from which
  every consumer sees the log. If the sequence cannot be read, it starts again at 1.\<close>

theorem restarted_stream_continues:
  assumes "badger_store kv ok js r" and "badger_inv kv ok js s" and "name_ok name" and "n + 1 \<noteq> 0"
    and "\<forall>e \<in> set (badger_entries kv js s name). 0 < smSequence e"
  shows "(GetStreamSequence kv name s = (n, None) \<longrightarrow>
      sqNextSeq (NewStreamQueue name (Some (badger_stream_ops kv js, s))) = n + 1
      \<and> badger_stream_inv kv ok js \<lparr>ssQ = NewStreamQueue name (Some (badger_stream_ops kv js, s)), ssStore = s, ssTasks = []\<rparr>)
    \<and> (GetStreamSequence kv name s = (n, Some e) \<longrightarrow>
      sqNextSeq (NewStreamQueue name (Some (badger_stream_ops kv js, s))) = 1)"
  using stream_store.stream_inv_New [OF badger_store.is_stream_store [OF assms(1)] assms(2,3) _ assms(4,5)]
  by (auto simp: badger_stream_ops_def NewStreamQueue_def)

theorem restarted_stream_continues_witness:
  "sqNextSeq (NewStreamQueue ''q'' (Some (badger_stream_ops mem_kv ref_json, empty_badger))) = 1"
proof -
  have "badger_entries mem_kv ref_json empty_badger ''q'' = []"
    by (simp add: badger_entries_def empty_badger_def mem_kv_def empty_db_def)
  moreover have "GetStreamSequence mem_kv ''q'' empty_badger = (0, None)"
    by (simp add: GetStreamSequence_def kv_view_def empty_badger_def mem_kv_def empty_db_def)
  ultimately show ?thesis
    using restarted_stream_continues [OF mb.badger_store_axioms empty_badger_inv name_ok_sample(1), of 0 ErrQueueFull] by simp
qed

text \<open>A committed offset is found again: after a successful commit, the group's offset is what was
  committed, also for a stream queue that was created anew over the same storage.\<close>

theorem committed_offset_found:
  assumes "badger_store kv ok js r" and "badger_inv kv ok js s" and "name_ok (sqName q)" and "sqName q' = sqName q"
    and "CommitOffset grp offset q (Some (badger_stream_ops kv js, s)) = (None, Some (ops', s'))"
    and "GetCommittedOffset grp q' (Some (badger_stream_ops kv js, s')) = (n, None)"
  shows "n = offset"
proof -
  note ss = badger_store.is_stream_store [OF assms(1)]
  have c: "soSaveConsumerOffset (badger_stream_ops kv js) (sqName q) grp offset s = (s', None)"
    using assms(5) by (auto simp: CommitOffset_def split: prod.splits)
  note k = stream_store.commit_offset [OF ss assms(2,3) c]
  have "soLoadConsumerOffset (badger_stream_ops kv js) (sqName q) grp s' = (n, None)"
    using assms(4,6) by (simp add: GetCommittedOffset_def)
  from stream_store.load_offset [OF ss _ assms(3) this] k show ?thesis by simp
qed

theorem committed_offset_found_witness:
  "\<exists>s'. CommitOffset ''g'' 41 (ssQ fresh_stream) (Some (badger_stream_ops mem_kv ref_json, empty_badger))
       = (None, Some (badger_stream_ops mem_kv ref_json, s'))
    \<and> (\<forall>n. GetCommittedOffset ''g'' (ssQ fresh_stream) (Some (badger_stream_ops mem_kv ref_json, s')) = (n, None) \<longrightarrow> n = 41)"
proof -
  obtain s' where "CommitOffset ''g'' 41 (ssQ fresh_stream) (Some (badger_stream_ops mem_kv ref_json, empty_badger))
       = (None, Some (badger_stream_ops mem_kv ref_json, s'))"
    by (simp add: CommitOffset_def badger_stream_ops_def SaveConsumerOffset_def kv_update_def mem_kv_def
        empty_badger_def empty_db_def with_db_def)
  with committed_offset_found [OF mb.badger_store_axioms empty_badger_inv, of "ssQ fresh_stream" "ssQ fresh_stream" "''g''" 41]
  show ?thesis by auto
qed

end
