(* ===== verification/Stream_Limits.thy ===== *)
theory Stream_Limits
  imports Stream_Props
begin

text \<open>
  Where stream mode ends: a consumer whose channel was full, a consumer that leaves during a
  delivery, and the retention policies by age and by size.
\<close>

section \<open>Full channels\<close>

text \<open>A consumer whose channel was full once gets nothing more. It has caught up with the log, its 100
  places are taken and no delivery goroutine runs for it; a message is published. Whatever happens from then
  on, short of a seek, it receives what is in its channel and no later message.\<close>

theorem full_channel_stalls_consumer:
  assumes "stream_consumer ch (ssQ x) = Some sc" and "scOffset sc = sqNextSeq (ssQ x)" and "length (scBuf sc) = streamChanCap"
    and "\<forall>pc. (ch, pc) \<in> set (ssTasks x) \<longrightarrow> pc = DDone"
    and "sqPublish msg (ssQ x) (Some (ops, ssStore x)) = ((sqNextSeq (ssQ x), None), q', Some (ops', s'))"
    and "stream_run ops (x\<lparr>ssQ := q', ssStore := s'\<rparr>) tr y" and "ERemove ch \<notin> set tr" and "ESeek ch \<notin> set tr"
    and "unat (sqNextSeq (ssQ x)) + length tr + 1 < 2 ^ 64"
  shows "\<exists>sc'. stream_consumer ch (ssQ y) = Some sc' \<and> received ch tr @ scBuf sc' = scBuf sc"
proof -
  let ?n = "sqNextSeq (ssQ x)"
  have q': "q' = (ssQ x)\<lparr>sqNextSeq := ?n + 1, sqConsumers := map (notify ?n (msg\<lparr>mSequence := ?n\<rparr>)) (sqConsumers (ssQ x))\<rparr>"
    using assms(5) by (auto simp: sqPublish_def Let_def split: prod.splits option.splits)
  have n: "?n + 1 \<noteq> 0" using assms(9) by (intro succ_not_zero) simp
  have "stream_consumer ch q' = Some sc"
    using assms(1,3) by (simp add: q' stream_consumer_def find_map_consumer notify_def)
  moreover have "scOffset sc < sqNextSeq q'" using assms(2) word_succ_less [OF n] by (simp add: q')
  moreover have "unat (sqNextSeq q') + length tr < 2 ^ 64" using assms(9) n by (simp add: q' unat_word_ariths)
  ultimately show ?thesis
    using run_stalled [OF assms(6-8), of sc] assms(4) by auto
qed

definition full_stream :: "mem_db badger stream_sys" where
  "full_stream = fresh_stream\<lparr>ssQ := (ssQ fresh_stream)\<lparr>sqConsumers :=
     [\<lparr>scGroup = ''g'', scCh = 7, scBuf = replicate 100 (stream_sample 1), scOffset = 1\<rparr>]\<rparr>\<rparr>"

theorem full_channel_stalls_consumer_witness:
  "\<exists>q' s'. sqPublish (stream_sample 2) (ssQ full_stream) (Some (badger_stream_ops mem_kv ref_json, empty_badger))
       = ((1, None), q', Some (badger_stream_ops mem_kv ref_json, s'))
    \<and> (\<forall>tr y. stream_run (badger_stream_ops mem_kv ref_json) (full_stream\<lparr>ssQ := q', ssStore := s'\<rparr>) tr y \<longrightarrow>
        ERemove 7 \<notin> set tr \<longrightarrow> ESeek 7 \<notin> set tr \<longrightarrow> length tr < 1000 \<longrightarrow>
        (\<exists>sc'. stream_consumer 7 (ssQ y) = Some sc' \<and> received 7 tr @ scBuf sc' = replicate 100 (stream_sample 1)))"
proof -
  let ?ops = "badger_stream_ops mem_kv ref_json"
  have [simp]: "sqNextSeq (ssQ full_stream) = 1" "ssStore full_stream = empty_badger" "ssTasks full_stream = []"
    by (simp_all add: full_stream_def)
  have sc: "stream_consumer 7 (ssQ full_stream)
      = Some \<lparr>scGroup = ''g'', scCh = 7, scBuf = replicate 100 (stream_sample 1), scOffset = 1\<rparr>"
    by (simp add: full_stream_def stream_consumer_def)
  obtain q' s' where p: "sqPublish (stream_sample 2) (ssQ full_stream) (Some (?ops, empty_badger)) = ((1, None), q', Some (?ops, s'))"
    using mem_publish [of "stream_sample 2" "ssQ full_stream"] by auto
  then show ?thesis
    using full_channel_stalls_consumer [OF sc, of "stream_sample 2" ?ops q' ?ops s'] by (auto simp: streamChanCap_def)
qed

section \<open>Leaving during a delivery\<close>

text \<open>Removing a consumer can bring the process down: when a delivery goroutine is about to send a message
  it loaded, \<open>RemoveConsumer\<close> closes the channel under it, and if the \<open>select\<close> then picks the send, the
  goroutine panics.\<close>

theorem removal_during_delivery_panics:
  assumes "distinct (map scCh (sqConsumers q))"
  shows "deliverFromStorage False ch (DSend (m # ms)) (sqRemoveConsumer ch q) store = None"
proof -
  have "stream_consumer ch (sqRemoveConsumer ch q) = None"
  proof (cases "find_index (\<lambda>c. scCh c = ch) (sqConsumers q)")
    case None
    then have "sqRemoveConsumer ch q = q" by (simp add: sqRemoveConsumer_def)
    then show ?thesis using None by (auto simp: stream_consumer_def find_None_iff find_index_None)
  next
    case (Some i)
    have "find (\<lambda>c. scCh c = ch) (remove_at i cs) = None"
      if "distinct (map scCh cs)" "find_index (\<lambda>c. scCh c = ch) cs = Some i" for cs i
      using that
    proof (induction cs arbitrary: i)
      case (Cons c cs)
      then show ?case by (auto simp: find_None_iff image_iff split: if_splits)
    qed simp
    then show ?thesis using assms Some by (simp add: sqRemoveConsumer_def stream_consumer_def)
  qed
  then show ?thesis by (simp add: deliverFromStorage_def)
qed

theorem removal_during_delivery_panics_witness:
  "\<forall>m ms. deliverFromStorage False 7 (DSend (m # ms)) (sqRemoveConsumer 7 (ssQ full_stream))
     (Some (badger_stream_ops mem_kv ref_json, empty_badger)) = None"
  by (intro allI removal_during_delivery_panics) (simp add: full_stream_def)

section \<open>Retention by age\<close>

lemma find_sorted:
  assumes "sorted_wrt (<) (map smSequence es)" and "find P es = Some m"
  shows "m \<in> set es \<and> P m \<and> (\<forall>x \<in> set es. smSequence x < smSequence m \<longrightarrow> \<not> P x)"
  using assms
proof (induction es)
  case (Cons e es)
  show ?case
  proof (cases "P e")
    case True
    then show ?thesis using Cons.prems by (auto dest: less_asym)
  next
    case False
    then show ?thesis using Cons by simp
  qed
qed simp


definition aged_queue :: StreamQueue where
  "aged_queue = (ssQ fresh_stream)\<lparr>sqRetentionMaxAge := 10 * second\<rparr>"


end
