(* ===== verification/Stream_Size.thy ===== *)
theory Stream_Size
  imports Stream_Limits
begin

text \<open>
  Retention by size. The scan goes backwards through the log in batches of 100, computing the start
  of a batch in unsigned arithmetic.
\<close>

section \<open>A stream storage in memory\<close>

text \<open>One stream in memory: the entries and the committed offsets.\<close>

type_synonym list_log = "StreamMessage list \<times> (string, u64) gomap"

definition list_stream :: "list_log stream_ops" where
  "list_stream =
     \<lparr>soSaveStreamMessage = (\<lambda>q n m s. ((fst s @ [m], snd s), None)),
      soLoadStreamMessages = (\<lambda>q n limit s. (take limit (filter (\<lambda>e. n \<le> smSequence e) (fst s)), None)),
      soSaveConsumerOffset = (\<lambda>q g n s. ((fst s, gm_set (snd s) g n), None)),
      soLoadConsumerOffset = (\<lambda>q g s. (case gm_get (snd s) g of None \<Rightarrow> 0 | Some n \<Rightarrow> n, None)),
      soLoadAllConsumerOffsets = (\<lambda>q s. (snd s, None)),
      soGetStreamSequence = (\<lambda>q s. (if fst s = [] then 0 else smSequence (last (fst s)), None)),
      soDeleteStreamMessagesBefore = (\<lambda>q n s. ((filter (\<lambda>e. n \<le> smSequence e) (fst s), snd s), None)),
      soGetStreamMessageByTimestamp = (\<lambda>q ts s.
        (case find (\<lambda>e. ts \<le> unix_milli (mPublishedAt (smMessage e))) (fst s) of None \<Rightarrow> 0 | Some e \<Rightarrow> smSequence e, None)),
      soGetStreamStats = (\<lambda>q s. if fst s = [] then (0, 0, None) else (smSequence (hd (fst s)), smSequence (last (fst s)), None))\<rparr>"

interpretation ls: stream_store list_stream "\<lambda>s q. fst s" "\<lambda>s q g. if q = ''q'' then gm_get (snd s) g else None"
  "\<lambda>s. sorted_wrt (<) (map smSequence (fst s))" "\<lambda>q. q = ''q''"
  by unfold_locales
    (auto simp: list_stream_def sorted_wrt_append same_entry_def sorted_wrt_filter sorted_wrt_map fun_eq_iff split: if_splits option.splits)

section \<open>Small streams\<close>

lemma unat_of_small: "v < 2 ^ 64 \<Longrightarrow> unat (of_nat v :: u64) = v"
  by (simp add: unat_of_nat)

lemma size_scan_skip:
  assumes "seq - of_nat streamBatchSize + 1 = start" and "\<not> seq < oldest" and "\<not> start \<le> oldest"
    and "soLoadStreamMessages ops name start streamBatchSize s = ([], None)"
  shows "size_scan (Suc n) ops name maxBytes oldest seq t s = size_scan n ops name maxBytes oldest (start - 1) t s"
  unfolding size_scan.simps assms(1) Let_def using assms(2-4) by (auto dest: less_imp_le)

lemma size_scan_far:
  assumes "\<forall>start. 100 \<le> start \<longrightarrow> soLoadStreamMessages ops name start streamBatchSize s = ([], None)"
    and "oldest \<le> 100" and "100 * n + 200 \<le> v" and "v < 2 ^ 64"
  shows "size_scan n ops name maxBytes oldest (of_nat v) t s = None"
  using assms(3,4)
proof (induction n arbitrary: v)
  case (Suc n)
  define start :: u64 where "start = of_nat (v - 99)"
  have v: "unat (of_nat v :: u64) = v" "unat start = v - 99"
    unfolding start_def by (rule unat_of_small, use Suc.prems in linarith)+
  have start: "(of_nat v :: u64) - of_nat streamBatchSize + 1 = start"
    using Suc.prems by (simp add: start_def streamBatchSize_def of_nat_diff)
  have old: "unat oldest \<le> 100" using assms(2) by (simp add: word_le_nat_alt)
  then have "\<not> of_nat v < oldest" "\<not> start \<le> oldest" "100 \<le> start"
    using v Suc.prems by (simp_all add: word_less_nat_alt word_le_nat_alt)
  moreover have "start - 1 = of_nat (v - 100)" using Suc.prems by (simp add: start_def of_nat_diff)
  moreover have "size_scan n ops name maxBytes oldest (of_nat (v - 100)) t s = None"
    using Suc.prems by (intro Suc.IH) auto
  ultimately show ?case
    using size_scan_skip [where ops = ops and name = name and s = s and oldest = oldest, OF start] assms(1) by (simp del: size_scan.simps)
qed simp

text \<open>C37. Retention by size does not come to an end on a small stream: while the newest sequence number is
  below 99, the start of the first batch wraps around to the top of the 64-bit range, and the scan walks down
  from there. It is not done after \<open>10 ^ 17\<close> reads of the database.\<close>

theorem size_retention_runs_away:
  assumes "badger_store kv ok js r" and "badger_inv kv ok js s" and "name_ok (sqName q)" and "0 < sqRetentionMaxBytes q"
    and "GetStreamStats kv (sqName q) s = (oldest, newest, None)" and "0 < oldest" and "newest < 99"
    and "\<forall>start. snd (LoadStreamMessages kv js (sqName q) start streamBatchSize s) = None"
    and "fuel \<le> 10 ^ 17"
  shows "size_retention fuel q (badger_stream_ops kv js) s = None"
proof (cases fuel)
  case 0
  then show ?thesis using assms(4-6) by (simp add: size_retention_def badger_stream_ops_def)
next
  case (Suc n)
  let ?ops = "badger_stream_ops kv js" and ?es = "badger_entries kv js s (sqName q)"
  note ss = badger_store.is_stream_store [OF assms(1)]
  have st: "soGetStreamStats ?ops (sqName q) s = (oldest, newest, None)" using assms(5) by (simp add: badger_stream_ops_def)
  have ends: "?es \<noteq> []" "oldest = smSequence (hd ?es)" "newest = smSequence (last ?es)"
    using stream_store.stats_ok [OF ss assms(2,3) st] assms(6) by (auto split: if_splits)
  have sorted: "sorted_wrt (<) (map smSequence ?es)" by (rule stream_store.entries_sorted [OF ss assms(2,3)])
  have below: "smSequence e \<le> newest" if "e \<in> set ?es" for e
    using that sorted ends(3) by (cases ?es rule: rev_cases) (auto simp: sorted_wrt_append)
  have old: "oldest \<le> newest" using below [of "hd ?es"] ends by simp
  have far: "soLoadStreamMessages ?ops (sqName q) start streamBatchSize s = ([], None)" if "100 \<le> start" for start
  proof -
    obtain ms where l: "soLoadStreamMessages ?ops (sqName q) start streamBatchSize s = (ms, None)"
      using assms(8) [rule_format, of start] unfolding badger_stream_ops_def stream_ops.simps by (metis prod.collapse)
    have "\<not> start \<le> smSequence e" if "e \<in> set ?es" for e
      using below [OF that] assms(7) \<open>100 \<le> start\<close> by (simp add: word_le_nat_alt word_less_nat_alt)
    then have "filter (\<lambda>e. start \<le> smSequence e) ?es = []" by (simp add: filter_empty_conv)
    then show ?thesis using stream_store.load_stream [OF ss assms(2,3) l] l by simp
  qed
  have n99: "unat newest < 99" using assms(7) by (simp add: word_less_nat_alt)
  let ?v = "2 ^ 64 + unat newest - 100"
  define start :: u64 where "start = of_nat (?v + 1)"
  have "(of_nat (?v + 1) :: u64) = of_nat (2 ^ 64 + unat newest) - 99" by (simp add: of_nat_diff)
  then have first: "newest - of_nat streamBatchSize + 1 = start" by (simp add: start_def streamBatchSize_def)
  have v: "unat start = ?v + 1" unfolding start_def using n99 by (intro unat_of_small) simp
  have again: "start - 1 = of_nat ?v" by (simp add: start_def of_nat_diff)
  have "size_scan n ?ops (sqName q) (sqRetentionMaxBytes q) oldest (of_nat ?v) 0 s = None"
    using far old assms(7,9) Suc n99 by (intro size_scan_far) (auto simp: word_le_nat_alt word_less_nat_alt)
  moreover have "100 \<le> start" "\<not> start \<le> oldest" "\<not> newest < oldest"
    using v old n99 by (simp_all add: word_less_nat_alt word_le_nat_alt)
  ultimately have "size_scan fuel ?ops (sqName q) (sqRetentionMaxBytes q) oldest newest 0 s = None"
    using size_scan_skip [where ops = ?ops and name = "sqName q" and s = s and oldest = oldest, OF first] far again unfolding Suc by (simp del: size_scan.simps)
  then show ?thesis using assms(4,6) st by (simp add: size_retention_def)
qed

definition small_badger :: "mem_db badger" where
  "small_badger = fst (SaveStreamMessage mem_kv ref_json ''q'' 1 \<lparr>smMessage = stream_sample 1, smSequence = 1\<rparr> empty_badger)"

definition sized_queue :: StreamQueue where
  "sized_queue = (ssQ fresh_stream)\<lparr>sqNextSeq := 2, sqRetentionMaxBytes := 1000\<rparr>"

theorem size_retention_runs_away_witness:
  "size_retention (10 ^ 17) sized_queue (badger_stream_ops mem_kv ref_json) small_badger = None"
proof -
  have saved: "SaveStreamMessage mem_kv ref_json ''q'' 1 \<lparr>smMessage = stream_sample 1, smSequence = 1\<rparr> empty_badger = (small_badger, None)"
    unfolding small_badger_def by (simp add: SaveStreamMessage_def ref_json_def kv_update_def mem_kv_def empty_badger_def empty_db_def with_db_def)
  have opened: "kvOpen mem_kv (bsDB small_badger) = None" by code_simp
  have "badger_inv mem_kv mem_ok ref_json small_badger"
    using mb.SaveStreamMessage_ok [OF empty_badger_inv name_ok_sample(1), of "\<lparr>smMessage = stream_sample 1, smSequence = 1\<rparr>" small_badger] saved
    by (simp add: badger_entries_def empty_badger_def mem_kv_def empty_db_def)
  moreover have "GetStreamStats mem_kv ''q'' small_badger = (1, 1, None)" by code_simp
  moreover have "snd (LoadStreamMessages mem_kv ref_json ''q'' start streamBatchSize small_badger) = None" for start
    using calculation(1) opened by (intro mb.LoadStreamMessages_total) simp_all
  ultimately show ?thesis
    using size_retention_runs_away [OF mb.badger_store_axioms, of small_badger sized_queue 1 1 "10 ^ 17"]
    by (simp add: sized_queue_def)
qed

section \<open>Streams that are not a multiple of the batch size\<close>

definition overlap_log :: "StreamMessage list" where
  "overlap_log = map (\<lambda>k. \<lparr>smMessage = (stream_sample 1)\<lparr>mPayload := [7]\<rparr>, smSequence = 1000 + of_nat k\<rparr>) [0..<150]"

text \<open>Retention by size can delete messages of a stream that is within its limit. The last batch of the
  scan starts at the oldest message and is again 100 messages long, so messages that were counted already are
  counted twice: a stream of 150 messages of one byte, limited to 160 bytes, loses its oldest 40 messages.\<close>

theorem size_retention_counts_twice:
  "sum_list (map (\<lambda>e. length (mPayload (smMessage e))) overlap_log) = 150
   \<and> map_option (\<lambda>(s, e). (map smSequence (fst s) = map smSequence (drop 40 overlap_log), e))
       (size_retention 2 (sized_queue\<lparr>sqRetentionMaxBytes := 160\<rparr>) list_stream (overlap_log, [])) = Some (True, None)"
  by code_simp

end
