(* ===== verification/Queue_Content.thy ===== *)
theory Queue_Content
  imports Queues
begin

text \<open>
  What a queue operation does to the messages it does not add or remove: delivery changes the
  attempt count and the visibility time and nothing else. The predicate \<open>P\<close> stands for anything
  that such a change preserves.
\<close>

definition timeouts :: "Queue \<Rightarrow> duration list" where
  "timeouts q = map cVisibilityTimeout (qConsumers q)"

lemma gm_set_subset: "set (gm_set m k v) \<subseteq> insert (k, v) (set m)"
  by (induction m) auto

lemma gm_del_subset: "set (gm_del m k) \<subseteq> set m"
  by (auto simp: AList.delete_eq)

definition content_ok :: "(message \<Rightarrow> bool) \<Rightarrow> (duration \<Rightarrow> bool) \<Rightarrow> Queue \<Rightarrow> bool" where
  "content_ok P T q \<longleftrightarrow> (\<forall>m \<in> set (qMessages q). P m)
     \<and> (\<forall>(k, m) \<in> set (qInFlight q). P m \<and> mID m = k)
     \<and> (\<forall>t \<in> set (timeouts q). T t) \<and> qGroups q = []"

definition delivers :: "(message \<Rightarrow> bool) \<Rightarrow> (duration \<Rightarrow> bool) \<Rightarrow> time \<Rightarrow> bool" where
  \<comment> \<open>a delivery at time \<open>now\<close> preserves \<open>P\<close>\<close>
  "delivers P T now \<longleftrightarrow> (\<forall>m t k. P m \<longrightarrow> T t \<longrightarrow> P (m\<lparr>mVisibleAt := now + t, mAttempt := k\<rparr>))"

lemma timeouts_simps [simp]:
  "timeouts (q\<lparr>qMessages := ms\<rparr>) = timeouts q" "timeouts (q\<lparr>qInFlight := fl\<rparr>) = timeouts q"
  "timeouts (q\<lparr>qKeyAssignments := ka\<rparr>) = timeouts q" "timeouts (q\<lparr>qGroups := gs\<rparr>) = timeouts q"
  "timeouts (q\<lparr>qNextIdx := i\<rparr>) = timeouts q"
  by (simp_all add: timeouts_def)

lemma timeouts_send_to [simp]: "timeouts (send_to idx msg q) = timeouts q"
  by (cases "idx < length (qConsumers q)") (simp_all add: timeouts_def send_to_def Let_def map_update list_update_same_conv list_update_beyond)

definition same_content :: "Queue \<Rightarrow> Queue \<Rightarrow> bool" where
  "same_content q q' \<longleftrightarrow> qMessages q' = qMessages q \<and> qInFlight q' = qInFlight q \<and> qGroups q' = qGroups q
     \<and> timeouts q' = timeouts q"

lemma same_content_send: "same_content q (send_to idx msg q)"
  by (simp add: same_content_def) (simp add: send_to_def Let_def)

lemma timeout_in: "idx < length (qConsumers q) \<Longrightarrow> cVisibilityTimeout (qConsumers q ! idx) \<in> set (timeouts q)"
  by (simp add: timeouts_def)

lemma rr_loop_content:
  assumes "rr_loop k j msg now q = (msg', d, q1)" and "k = 0 \<or> qConsumers q \<noteq> []"
  shows "same_content q q1 \<and> (msg' = msg \<or> (\<exists>t \<in> set (timeouts q). msg' = msg\<lparr>mVisibleAt := now + t\<rparr>))"
  using assms
proof (induction k arbitrary: j)
  case 0
  then show ?case by (simp add: same_content_def)
next
  case (Suc k)
  let ?idx = "(qNextIdx q + j) mod length (qConsumers q)"
  have idx: "?idx < length (qConsumers q)" using Suc.prems(2) by simp
  show ?case
  proof (cases "cBuf (qConsumers q ! ?idx) = []")
    case True
    have "same_content q ((send_to ?idx msg q)\<lparr>qNextIdx := i\<rparr>)" for i
      using same_content_send [of q ?idx msg] by (simp add: same_content_def timeouts_def)
    then show ?thesis using Suc.prems(1) True timeout_in [OF idx] by (auto simp: Let_def)
  next
    case False
    then show ?thesis using Suc by (simp add: Let_def)
  qed
qed

lemma deliverOrdered_content:
  assumes "deliverOrdered msg now q = Some (msg', d, q1)"
  shows "same_content q q1 \<and> (msg' = msg \<or> (\<exists>t \<in> set (timeouts q). msg' = msg\<lparr>mVisibleAt := now + t\<rparr>))"
proof -
  obtain idx q0 where i: "idx < length (qConsumers q0)" "same_content q q0" "qConsumers q0 = qConsumers q"
    and r: "(if cBuf (qConsumers q0 ! idx) = [] then Some (msg\<lparr>mVisibleAt := now + cVisibilityTimeout (qConsumers q0 ! idx)\<rparr>, True, send_to idx msg q0)
       else Some (msg, False, q0)) = Some (msg', d, q1)"
  proof (cases "gm_get (qKeyAssignments q) (mOrderingKey msg)")
    case (Some ch)
    with assms obtain i where "find_index (\<lambda>c. cCh c = ch) (qConsumers q) = Some i"
      by (cases "find_index (\<lambda>c. cCh c = ch) (qConsumers q)") (auto simp: deliverOrdered_def)
    with assms Some show ?thesis
      by (intro that [of i q]) (auto simp: deliverOrdered_def same_content_def Let_def dest: find_index_Some)
  next
    case None
    let ?i = "nat (uint (fnv32a (bytes_of (mOrderingKey msg))) mod int (length (qConsumers q)))"
    let ?q = "q\<lparr>qKeyAssignments := gm_set (qKeyAssignments q) (mOrderingKey msg) (cCh (qConsumers q ! ?i))\<rparr>"
    have "qConsumers q \<noteq> []" using assms None by (auto simp: deliverOrdered_def)
    with assms None show ?thesis
      by (intro that [of ?i ?q]) (auto simp: deliverOrdered_def same_content_def timeouts_def Let_def)
  qed
  have "same_content q (send_to idx msg q0)" using i(2) same_content_send [of q0 idx msg] by (simp add: same_content_def)
  moreover have "timeouts q0 = timeouts q" using i(2) by (simp add: same_content_def)
  ultimately show ?thesis using r i(2) timeout_in [OF i(1)] by (auto split: if_splits)
qed

lemma deliver_head_content:
  assumes "deliver_head msg now q = Some (msg', d, q1)"
  shows "same_content q q1 \<and> (msg' = msg \<or> (\<exists>t \<in> set (timeouts q). msg' = msg\<lparr>mVisibleAt := now + t\<rparr>))"
  using assms deliverOrdered_content rr_loop_content [of "length (qConsumers q)" 0 msg now q msg' d q1]
  by (auto simp: deliver_head_def deliverRoundRobin_def split: if_splits)

lemma tryDeliver_loop_content:
  assumes "tryDeliver_loop now q = Some q'" and "content_ok P T q" and "delivers P T now"
    and "\<And>m k. P m \<Longrightarrow> P (m\<lparr>mAttempt := k\<rparr>)"
  shows "content_ok P T q' \<and> timeouts q' = timeouts q"
  using assms(1-3)
proof (induction now q rule: tryDeliver_loop.induct)
  case (1 now q)
  show ?case
  proof (cases "qMessages q")
    case Nil
    then show ?thesis using 1(2,3) by (simp add: tryDeliver_loop.simps)
  next
    case (Cons msg rest)
    show ?thesis
    proof (cases "mVisibleAt msg > now")
      case True
      then show ?thesis using 1(2,3) Cons by (simp add: tryDeliver_loop.simps)
    next
      case False
      then obtain msg' d q1 where h: "deliver_head msg now q = Some (msg', d, q1)"
        using 1(2) Cons by (subst (asm) tryDeliver_loop.simps) (auto split: option.splits)
      note c = deliver_head_content [OF h]
      have q1: "content_ok P T q1" "timeouts q1 = timeouts q" using c 1(3) by (auto simp: content_ok_def same_content_def)
      show ?thesis
      proof (cases d)
        case d: False
        then show ?thesis using 1(2) Cons False h q1 by (subst (asm) tryDeliver_loop.simps) simp
      next
        case d: True
        let ?q = "q1\<lparr>qMessages := rest, qInFlight := gm_set (qInFlight q1) (mID msg') (msg'\<lparr>mAttempt := mAttempt msg' + 1\<rparr>)\<rparr>"
        have "P (msg'\<lparr>mAttempt := mAttempt msg' + 1\<rparr>)"
        proof -
          have m: "P msg" using 1(3) Cons by (simp add: content_ok_def)
          from c show ?thesis
          proof (elim conjE disjE bexE)
            fix t assume "t \<in> set (timeouts q)" "msg' = msg\<lparr>mVisibleAt := now + t\<rparr>"
            then show ?thesis using m 1(3,4) unfolding delivers_def content_ok_def by auto
          qed (use m assms(4) in simp)
        qed
        then have "content_ok P T ?q"
          using q1(1) Cons c gm_set_subset [where m = "qInFlight q1" and k = "mID msg'" and v = "msg'\<lparr>mAttempt := mAttempt msg' + 1\<rparr>"]
          by (auto simp: content_ok_def same_content_def)
        moreover have "timeouts ?q = timeouts q" using q1(2) by simp
        moreover have "tryDeliver_loop now ?q = Some q'"
          using 1(2) Cons False h d by (subst (asm) tryDeliver_loop.simps) simp
        ultimately show ?thesis using 1(1) [OF Cons False h refl refl] 1(4) d by simp
      qed
    qed
  qed
qed

lemma tryDeliver_content:
  assumes "tryDeliver now q = Some q'" and "content_ok P T q" and "delivers P T now" and "\<And>m k. P m \<Longrightarrow> P (m\<lparr>mAttempt := k\<rparr>)"
  shows "content_ok P T q' \<and> timeouts q' = timeouts q"
  using assms tryDeliver_loop_content [OF _ assms(2-4)] by (auto simp: tryDeliver_def split: if_splits)

section \<open>Operations\<close>

lemma no_groups_order: "orders_ok ro \<Longrightarrow> roGroups ro [] = []"
  using range_order_length [of "roGroups ro" "[]"] by (simp add: orders_ok_def)

locale content =
  fixes P :: "message \<Rightarrow> bool" and T :: "duration \<Rightarrow> bool" and clock :: "time \<Rightarrow> bool"
  assumes delivers: "clock now \<Longrightarrow> delivers P T now"
    and attempt: "P m \<Longrightarrow> P (m\<lparr>mAttempt := k\<rparr>)"
    and visible: "P m \<Longrightarrow> clock now \<Longrightarrow> P (m\<lparr>mVisibleAt := now\<rparr>)"
begin

lemma deliver: "tryDeliver now q = Some q' \<Longrightarrow> content_ok P T q \<Longrightarrow> clock now \<Longrightarrow> content_ok P T q'"
  using tryDeliver_content [of now q q' P T] delivers attempt by blast

lemma EnqueueDirect_content:
  assumes "EnqueueDirect ro msg now q = Some q'" and "content_ok P T q" and "P msg" and "clock now" and "orders_ok ro"
  shows "content_ok P T q'"
proof -
  have c: "content_ok P T (q\<lparr>qMessages := qMessages q @ [msg]\<rparr>)" using assms(2,3) by (auto simp: content_ok_def)
  obtain q1 gs where q1: "tryDeliver now (q\<lparr>qMessages := qMessages q @ [msg]\<rparr>) = Some q1"
    "fan_out msg now (roGroups ro (qGroups q1)) (qGroups q1) = Some gs" "q' = q1\<lparr>qGroups := gs\<rparr>"
    using assms(1) unfolding EnqueueDirect_def by (auto split: bind_splits)
  have k: "content_ok P T q1" by (rule deliver [OF q1(1) c assms(4)])
  have "roGroups ro [] = []" using assms(5) range_order_length [of "roGroups ro" "[]"] by (simp add: orders_ok_def)
  with k q1 show ?thesis by (auto simp: content_ok_def)
qed

lemma Enqueue_content:
  assumes "Enqueue ro msg now q = Some (err, q')" and "content_ok P T q" and "P msg" and "clock now" and "orders_ok ro"
  shows "content_ok P T q'"
proof (cases "qMaxSize q > 0 \<and> int (length (qMessages q)) \<ge> qMaxSize q")
  case True
  then show ?thesis using assms by (simp add: Enqueue_def)
next
  case False
  then have "EnqueueDirect ro msg now q = Some q'"
    using assms(1) by (auto simp: Enqueue_def EnqueueDirect_def split: bind_splits)
  then show ?thesis using EnqueueDirect_content assms(2-5) by blast
qed

lemma Dequeue_content:
  assumes "Dequeue ch timeout now q = Some q'" and "content_ok P T q" and "T timeout" and "clock now"
  shows "content_ok P T q'"
proof -
  have "content_ok P T (q\<lparr>qConsumers := qConsumers q @ [\<lparr>cCh = ch, cBuf = [], cVisibilityTimeout = timeout\<rparr>]\<rparr>)"
    using assms(2,3) by (auto simp: content_ok_def timeouts_def)
  then show ?thesis using deliver assms(1,4) by (simp add: Dequeue_def)
qed

lemma in_flight_ok: "content_ok P T q \<Longrightarrow> gm_get (qInFlight q) k = Some m \<Longrightarrow> P m \<and> mID m = k"
  by (auto simp: content_ok_def dest: map_of_SomeD)

lemma content_del: "content_ok P T q \<Longrightarrow> content_ok P T (q\<lparr>qInFlight := gm_del (qInFlight q) k\<rparr>)"
  using gm_del_subset [where m = "qInFlight q" and k = k] by (auto simp: content_ok_def)

lemma ack_content:
  assumes "ackWithHook h k now q s = Some (res, q', s')" and "content_ok P T q" and "clock now"
  shows "content_ok P T q'"
  using assms deliver [OF _ content_del [OF assms(2)] assms(3)]
  by (auto simp: ackWithHook_def split: option.splits prod.splits bind_splits)

lemma nack_content:
  assumes "nackWithHooks h1 h2 k rq now q s = Some ((res, err), q', s')" and "content_ok P T q" and "clock now"
  shows "content_ok P T q' \<and> (\<forall>m. nrMessage res = Some m \<longrightarrow> P m \<and> mID m = k)"
proof (cases "gm_get (qInFlight q) k")
  case None
  then show ?thesis using assms by (auto simp: nackWithHooks_def nack_result_defs)
next
  case (Some msg)
  note m = in_flight_ok [OF assms(2) Some]
  let ?msg = "msg\<lparr>mVisibleAt := now\<rparr>"
  have v: "P ?msg" using visible m assms(3) by blast
  then have c: "content_ok P T (q\<lparr>qInFlight := gm_del (qInFlight q) k, qMessages := qMessages q @ [?msg]\<rparr>)"
    using assms(2) gm_del_subset [where m = "qInFlight q" and k = k] by (auto simp: content_ok_def)
  note d = deliver [OF _ c assms(3)]
  show ?thesis
    using assms(1,2) Some m v d content_del [OF assms(2), of k]
    unfolding nackWithHooks_def nack_result_defs Let_def
    by (auto split: if_splits prod.splits option.splits bind_splits)
qed

lemma receive_content: "content_ok P T q \<Longrightarrow> content_ok P T (snd (receive ch q))"
  by (auto simp: receive_def content_ok_def timeouts_def split: option.splits list.splits
      dest!: find_index_Some set_update_subset_insert [THEN subsetD])

lemma RemoveConsumer_content: "content_ok P T q \<Longrightarrow> content_ok P T (RemoveConsumer ch q)"
  by (auto simp: RemoveConsumer_def content_ok_def timeouts_def remove_at_def split: option.splits
      dest: in_set_takeD in_set_dropD)

lemma ExtendVisibility_content:
  assumes "content_ok P T q" and "T extension" and "clock now"
  shows "content_ok P T (snd (ExtendVisibility k extension now q))"
proof (cases "gm_get (qInFlight q) k")
  case None
  then show ?thesis using assms(1) by (simp add: ExtendVisibility_def)
next
  case (Some m)
  have "P (m\<lparr>mVisibleAt := now + extension, mAttempt := mAttempt m\<rparr>)"
    using in_flight_ok [OF assms(1) Some] delivers [OF assms(3)] assms(2) unfolding delivers_def by blast
  then show ?thesis
    using Some assms(1) in_flight_ok [OF assms(1) Some]
      gm_set_subset [where m = "qInFlight q" and k = k and v = "m\<lparr>mVisibleAt := now + extension\<rparr>"]
    by (auto simp: ExtendVisibility_def content_ok_def)
qed

lemma Remove_content: "content_ok P T q \<Longrightarrow> content_ok P T (snd (Remove k q))"
  using content_del [of q k]
  by (auto simp: Remove_def remove_at_def content_ok_def split: option.splits dest: in_set_takeD in_set_dropD)

lemma Purge_content: "content_ok P T q \<Longrightarrow> content_ok P T (snd (Purge q))"
  by (simp add: Purge_def content_ok_def)

lemma requeue_fold_content:
  assumes "\<forall>m \<in> set msgs. P m" and "\<forall>(k, m) \<in> set infl. P m \<and> mID m = k" and "\<forall>(k, m) \<in> set xs. P m"
    and "clock now" and "foldl (requeue_entry p (\<lambda>msg. msg\<lparr>mVisibleAt := now\<rparr>)) (infl, msgs) xs = (infl', msgs')"
  shows "(\<forall>m \<in> set msgs'. P m) \<and> (\<forall>(k, m) \<in> set infl'. P m \<and> mID m = k)"
  using assms
proof (induction xs arbitrary: infl msgs)
  case Nil
  then show ?case by simp
next
  case (Cons x xs)
  obtain k m where x: "x = (k, m)" by (cases x)
  obtain infl1 msgs1 where e: "requeue_entry p (\<lambda>msg. msg\<lparr>mVisibleAt := now\<rparr>) (infl, msgs) (k, m) = (infl1, msgs1)"
    by (cases "requeue_entry p (\<lambda>msg. msg\<lparr>mVisibleAt := now\<rparr>) (infl, msgs) (k, m)")
  have v: "P (m\<lparr>mVisibleAt := now\<rparr>)" using Cons.prems(3,4) visible x by simp
  have s: "set infl1 \<subseteq> set infl" "set msgs1 \<subseteq> insert (m\<lparr>mVisibleAt := now\<rparr>) (set msgs)"
    using e gm_del_subset [where m = infl and k = k] unfolding requeue_entry_def fst_conv snd_conv
    by (simp_all split: if_splits) auto
  have "\<forall>m \<in> set msgs1. P m" "\<forall>(k, m) \<in> set infl1. P m \<and> mID m = k"
    using s v Cons.prems(1,2) by blast+
  from Cons.IH [OF this _ Cons.prems(4)] Cons.prems(3,5) e x show ?case by simp
qed

lemma requeue_expired_content:
  assumes "content_ok P T q" and "clock now" and "orders_ok ro"
  shows "content_ok P T (requeue_expired ro now q)"
proof -
  have "set (roInFlight ro (qInFlight q)) = set (qInFlight q)"
    using assms(3) range_order_set by (auto simp: orders_ok_def)
  then show ?thesis
    using assms(1,2) requeue_fold_content [of "qMessages q" "qInFlight q" "roInFlight ro (qInFlight q)" now]
    by (auto simp: content_ok_def requeue_expired_def split: prod.splits)
qed

lemma RequeueExpired_content:
  assumes "RequeueExpired ro now q = Some q'" and "content_ok P T q" and "clock now" and "orders_ok ro"
  shows "content_ok P T q'"
  using assms(1) deliver [OF _ requeue_expired_content [OF assms(2-4)] assms(3)] no_groups_order [OF assms(4)]
  by (auto simp: RequeueExpired_def content_ok_def split: bind_splits)

lemma ReapDeadGroupMembers_content:
  assumes "ReapDeadGroupMembers ro now q = Some (dead, q')" and "content_ok P T q" and "orders_ok ro"
  shows "q' = q"
  using assms no_groups_order [OF assms(3)] by (auto simp: ReapDeadGroupMembers_def content_ok_def)

end

end
