(* ===== verification/Batcher.thy ===== *)
theory Batcher
  imports Badger_Store
begin

text \<open>
  The write batcher of \<open>internal/storage/batcher.go\<close>. Callers queue writes in a channel, the
  background goroutine collects them and flushes them as one BadgerDB \<open>WriteBatch\<close>, and each
  caller waits for the outcome of its flush. The \<open>WriteBatch\<close> of the database library is a parameter:
  \<open>Set\<close> may already write to the database, since the library splits large batches.

  A state holds what is shared (the channel, the flags) and the local variables of the goroutine
  (the batch, whether its timer runs). \<open>wbAnswers\<close> lists what was sent on the error channels of the
  requests, oldest first. A \<open>select\<close> with several ready cases may take any of them.
\<close>

record ('db, 'w) batch_lib =
  blNew :: "'db \<Rightarrow> 'w"
  blSet :: "string \<Rightarrow> bytes \<Rightarrow> 'db \<times> 'w \<Rightarrow> ('db \<times> 'w) \<times> error option"
  blFlush :: "'db \<times> 'w \<Rightarrow> 'db \<times> error option"
  blCancel :: "'db \<times> 'w \<Rightarrow> 'db"

record writeRequest =
  wrKey :: string
  wrData :: bytes
  wrErr :: nat  \<comment> \<open>the channel on which the caller waits\<close>

record 'db writeBatcher =
  wbDB :: 'db
  wbMaxSize :: nat
  wbInbox :: "writeRequest list"
  wbInboxClosed :: bool
  wbDone :: bool
  wbBatch :: "writeRequest list"
  wbTimer :: bool
  wbExited :: bool
  wbAnswers :: "(nat \<times> error option) list"

definition newWriteBatcher :: "'db \<Rightarrow> nat \<Rightarrow> 'db writeBatcher" where
  "newWriteBatcher db maxSize =
     \<lparr>wbDB = db, wbMaxSize = maxSize, wbInbox = [], wbInboxClosed = False, wbDone = False, wbBatch = [],
      wbTimer = False, wbExited = False, wbAnswers = []\<rparr>"

definition write_request :: "header_order \<Rightarrow> nat \<Rightarrow> message \<Rightarrow> writeRequest" where
  "write_request r ch msg = \<lparr>wrKey = msgKey (mQueue msg) (mID msg), wrData = encodeMessage r msg, wrErr = ch\<rparr>"

datatype submit_outcome = SQueued | SClosed | SBlocked

definition submit :: "bool \<Rightarrow> writeRequest \<Rightarrow> 'db writeBatcher \<Rightarrow> (submit_outcome \<times> 'db writeBatcher) go" where
  \<comment> \<open>\<open>pick\<close> is the choice of the \<open>select\<close> when both cases are ready; a send on a closed channel panics\<close>
  "submit pick req b =
     (if (wbInboxClosed b \<or> length (wbInbox b) < 2 * wbMaxSize b) \<and> (pick \<or> \<not> wbDone b)
      then if wbInboxClosed b then None else Some (SQueued, b\<lparr>wbInbox := wbInbox b @ [req]\<rparr>)
      else if wbDone b then Some (SClosed, b)
      else Some (SBlocked, b))"

fun set_all :: "('db, 'w) batch_lib \<Rightarrow> writeRequest list \<Rightarrow> 'db \<times> 'w \<Rightarrow> ('db \<times> 'w) \<times> error option" where
  "set_all lib [] st = (st, None)"
| "set_all lib (req # reqs) st =
     (case blSet lib (wrKey req) (wrData req) st of
        (st', Some err) \<Rightarrow> (st', Some err)
      | (st', None) \<Rightarrow> set_all lib reqs st')"

definition write_batch :: "('db, 'w) batch_lib \<Rightarrow> writeRequest list \<Rightarrow> 'db \<Rightarrow> 'db \<times> error option" where
  "write_batch lib batch db =
     (case set_all lib batch (db, blNew lib db) of
        (st, None) \<Rightarrow> blFlush lib st
      | (st, Some err) \<Rightarrow> (blCancel lib st, Some err))"

definition wbFlush :: "('db, 'w) batch_lib \<Rightarrow> writeRequest list \<Rightarrow> 'db writeBatcher \<Rightarrow> 'db writeBatcher" where
  "wbFlush lib batch b =
     (case write_batch lib batch (wbDB b) of
        (db, batchErr) \<Rightarrow>
          b\<lparr>wbDB := db, wbAnswers := wbAnswers b @ map (\<lambda>req. (wrErr req, batchErr)) batch\<rparr>)"

definition flush_pending :: "('db, 'w) batch_lib \<Rightarrow> 'db writeBatcher \<Rightarrow> 'db writeBatcher" where
  \<comment> \<open>\<open>if len(batch) > 0 { b.flush(batch); batch = batch[:0] }\<close>\<close>
  "flush_pending lib b = (if wbBatch b \<noteq> [] then (wbFlush lib (wbBatch b) b)\<lparr>wbBatch := []\<rparr> else b)"

text \<open>One iteration of \<open>loop\<close> for each case of its \<open>select\<close>; \<open>None\<close> when the case is not ready.\<close>

definition loop_recv :: "('db, 'w) batch_lib \<Rightarrow> 'db writeBatcher \<Rightarrow> 'db writeBatcher option" where
  "loop_recv lib b =
     (if wbExited b then None
      else case wbInbox b of
        [] \<Rightarrow> if wbInboxClosed b then Some ((flush_pending lib b)\<lparr>wbExited := True\<rparr>) else None
      | req # rest \<Rightarrow>
          (let b1 = b\<lparr>wbInbox := rest, wbTimer := (wbBatch b = [] \<or> wbTimer b), wbBatch := wbBatch b @ [req]\<rparr>
           in Some (if length (wbBatch b1) \<ge> wbMaxSize b1 then flush_pending lib (b1\<lparr>wbTimer := False\<rparr>) else b1)))"

definition loop_tick :: "('db, 'w) batch_lib \<Rightarrow> 'db writeBatcher \<Rightarrow> 'db writeBatcher option" where
  "loop_tick lib b =
     (if wbExited b \<or> \<not> wbTimer b then None else Some (flush_pending lib (b\<lparr>wbTimer := False\<rparr>)))"

definition loop_done :: "('db, 'w) batch_lib \<Rightarrow> 'db writeBatcher \<Rightarrow> 'db writeBatcher option" where
  "loop_done lib b =
     (if wbExited b \<or> \<not> wbDone b then None
      else Some ((flush_pending lib (b\<lparr>wbInboxClosed := True, wbBatch := wbBatch b @ wbInbox b, wbInbox := []\<rparr>))
             \<lparr>wbExited := True\<rparr>))"

definition wbClose :: "'db writeBatcher \<Rightarrow> 'db writeBatcher go" where
  \<comment> \<open>\<open>close(b.done)\<close>, which panics when it is closed; the wait for the goroutine is the caller's\<close>
  "wbClose b = (if wbDone b then None else Some (b\<lparr>wbDone := True\<rparr>))"

section \<open>Runs\<close>

datatype batch_event = BSubmit writeRequest | BLoop | BClose

inductive batch_step :: "('db, 'w) batch_lib \<Rightarrow> 'db writeBatcher \<Rightarrow> batch_event \<Rightarrow> 'db writeBatcher \<Rightarrow> bool"
  for lib where
  submit: "submit pick req b = Some (SQueued, b') \<Longrightarrow>
      wrErr req \<notin> fst ` set (wbAnswers b) \<union> wrErr ` set (wbBatch b @ wbInbox b) \<Longrightarrow> batch_step lib b (BSubmit req) b'"
| recv: "loop_recv lib b = Some b' \<Longrightarrow> batch_step lib b BLoop b'"
| tick: "loop_tick lib b = Some b' \<Longrightarrow> batch_step lib b BLoop b'"
| drain: "loop_done lib b = Some b' \<Longrightarrow> batch_step lib b BLoop b'"
| close: "wbClose b = Some b' \<Longrightarrow> batch_step lib b BClose b'"

inductive batch_run :: "('db, 'w) batch_lib \<Rightarrow> 'db writeBatcher \<Rightarrow> batch_event list \<Rightarrow> 'db writeBatcher \<Rightarrow> bool"
  for lib where
  start: "batch_run lib b [] b"
| step: "batch_run lib b es b' \<Longrightarrow> batch_step lib b' e b'' \<Longrightarrow> batch_run lib b (es @ [e]) b''"

fun submitted :: "batch_event list \<Rightarrow> writeRequest list" where
  "submitted [] = []"
| "submitted (BSubmit req # es) = req # submitted es"
| "submitted (_ # es) = submitted es"

lemma submitted_append [simp]: "submitted (es @ fs) = submitted es @ submitted fs"
  by (induction es rule: submitted.induct) simp_all

section \<open>Where a request is\<close>

text \<open>Requests are answered in the order they were queued: the answered ones, the batch and the channel
  are together the queued requests in order.\<close>

definition waiting :: "'db writeBatcher \<Rightarrow> writeRequest list" where
  "waiting b = wbBatch b @ wbInbox b"

definition ids :: "'db writeBatcher \<Rightarrow> nat list" where
  "ids b = map fst (wbAnswers b) @ map wrErr (waiting b)"

lemma flush_simps [simp]:
  "wbInbox (flush_pending lib b) = wbInbox b" "wbBatch (flush_pending lib b) = []"
  "wbInboxClosed (flush_pending lib b) = wbInboxClosed b" "wbExited (flush_pending lib b) = wbExited b"
  "wbDone (flush_pending lib b) = wbDone b"
  by (simp_all add: flush_pending_def wbFlush_def split: prod.splits)

lemma waiting_upd [simp]:
  "waiting (b\<lparr>wbExited := x\<rparr>) = waiting b" "waiting (b\<lparr>wbTimer := x\<rparr>) = waiting b"
  "waiting (b\<lparr>wbDone := x\<rparr>) = waiting b" "waiting (b\<lparr>wbInboxClosed := x\<rparr>) = waiting b"
  by (simp_all add: waiting_def)

lemma ids_upd [simp]:
  "ids (b\<lparr>wbExited := x\<rparr>) = ids b" "ids (b\<lparr>wbTimer := x\<rparr>) = ids b"
  "ids (b\<lparr>wbDone := x\<rparr>) = ids b" "ids (b\<lparr>wbInboxClosed := x\<rparr>) = ids b"
  by (simp_all add: ids_def)

lemma ids_flush [simp]: "ids (flush_pending lib b) = ids b"
  by (simp add: ids_def waiting_def flush_pending_def wbFlush_def comp_def split: prod.splits)

text \<open>What a case of the loop does to the batch and the channel before it flushes.\<close>

lemma loop_cases:
  assumes "loop_recv lib b = Some b' \<or> loop_tick lib b = Some b' \<or> loop_done lib b = Some b'"
  obtains b1 b2 where "waiting b1 = waiting b" "wbAnswers b1 = wbAnswers b" "wbDB b1 = wbDB b"
    "b2 = flush_pending lib b1 \<or> b2 = b1" "waiting b' = waiting b2" "wbAnswers b' = wbAnswers b2" "wbDB b' = wbDB b2"
    "\<not> wbExited b" "wbExited b' \<longrightarrow> wbInboxClosed b' \<and> waiting b' = []" "wbInboxClosed b' \<longrightarrow> wbInboxClosed b \<or> wbExited b'"
proof -
  let ?grow = "\<lambda>req rest. b\<lparr>wbInbox := rest, wbTimer := (wbBatch b = [] \<or> wbTimer b), wbBatch := wbBatch b @ [req]\<rparr>"
  consider (recv) req rest where "\<not> wbExited b" "wbInbox b = req # rest"
      "b' = (if length (wbBatch b) + 1 \<ge> wbMaxSize b then flush_pending lib ((?grow req rest)\<lparr>wbTimer := False\<rparr>) else ?grow req rest)"
    | (closed) "\<not> wbExited b" "wbInbox b = []" "wbInboxClosed b" "b' = (flush_pending lib b)\<lparr>wbExited := True\<rparr>"
    | (tick) "\<not> wbExited b" "b' = flush_pending lib (b\<lparr>wbTimer := False\<rparr>)"
    | (drain) "\<not> wbExited b" "b' = (flush_pending lib (b\<lparr>wbInboxClosed := True, wbBatch := wbBatch b @ wbInbox b, wbInbox := []\<rparr>))\<lparr>wbExited := True\<rparr>"
    using assms by (auto simp: loop_recv_def loop_tick_def loop_done_def Let_def split: if_splits list.splits)
  then show thesis
  proof cases
    case recv
    let ?b1 = "if length (wbBatch b) + 1 \<ge> wbMaxSize b then (?grow req rest)\<lparr>wbTimer := False\<rparr> else ?grow req rest"
    show ?thesis by (rule that [of ?b1 b']) (use recv in \<open>auto simp: waiting_def\<close>)
  next
    case closed
    show ?thesis by (rule that [of b "flush_pending lib b"]) (use closed in \<open>simp_all add: waiting_def\<close>)
  next
    case tick
    show ?thesis by (rule that [of "b\<lparr>wbTimer := False\<rparr>" b']) (use tick in simp_all)
  next
    case drain
    let ?b1 = "b\<lparr>wbInboxClosed := True, wbBatch := wbBatch b @ wbInbox b, wbInbox := []\<rparr>"
    show ?thesis by (rule that [of ?b1 "flush_pending lib ?b1"]) (use drain in \<open>simp_all add: waiting_def\<close>)
  qed
qed

lemma batch_step_cases:
  assumes "batch_step lib b e b'"
  obtains (queue) req where "e = BSubmit req" "b' = b\<lparr>wbInbox := wbInbox b @ [req]\<rparr>" "\<not> wbInboxClosed b" "wrErr req \<notin> set (ids b)"
    | (loop) "e = BLoop" "loop_recv lib b = Some b' \<or> loop_tick lib b = Some b' \<or> loop_done lib b = Some b'"
    | (close) "e = BClose" "b' = b\<lparr>wbDone := True\<rparr>"
  using assms
proof cases
  case (submit pick req)
  then show ?thesis
    by (intro queue [of req]) (auto simp: submit_def ids_def waiting_def image_Un split: if_splits)
next
  case close
  then show ?thesis by (intro that(3)) (auto simp: wbClose_def split: if_splits)
qed (auto intro: loop)

definition batch_inv :: "batch_event list \<Rightarrow> 'db writeBatcher \<Rightarrow> bool" where
  "batch_inv es b \<longleftrightarrow> ids b = map wrErr (submitted es) \<and> distinct (ids b)
     \<and> (wbExited b \<longleftrightarrow> wbInboxClosed b) \<and> (wbExited b \<longrightarrow> waiting b = [])"

lemma batch_step_inv:
  assumes "batch_step lib b e b'" and "batch_inv es b"
  shows "batch_inv (es @ [e]) b'"
  using assms(1)
proof (cases rule: batch_step_cases)
  case (queue req)
  have "ids b' = ids b @ [wrErr req]" by (simp add: queue ids_def waiting_def)
  then show ?thesis using assms(2) queue by (auto simp: batch_inv_def waiting_def)
next
  case loop
  from loop(2) obtain b1 b2 where c: "waiting b1 = waiting b" "wbAnswers b1 = wbAnswers b"
    "b2 = flush_pending lib b1 \<or> b2 = b1" "waiting b' = waiting b2" "wbAnswers b' = wbAnswers b2"
    "\<not> wbExited b" "wbExited b' \<longrightarrow> wbInboxClosed b' \<and> waiting b' = []" "wbInboxClosed b' \<longrightarrow> wbInboxClosed b \<or> wbExited b'"
    by (rule loop_cases) blast
  have "ids b' = ids b2" "ids b1 = ids b" using c(1,2,4,5) by (simp_all add: ids_def)
  then have "ids b' = ids b" using c(3) by auto
  then show ?thesis using assms(2) loop(1) c(6-8) by (auto simp: batch_inv_def)
next
  case close
  then show ?thesis using assms(2) by (auto simp: batch_inv_def)
qed

lemma batch_run_inv: "batch_run lib (newWriteBatcher db n) es b \<Longrightarrow> batch_inv es b"
proof (induction "newWriteBatcher db n" es b rule: batch_run.induct)
  case start
  then show ?case by (simp add: batch_inv_def ids_def waiting_def newWriteBatcher_def)
next
  case (step es b' e b'')
  then show ?case using batch_step_inv by blast
qed

section \<open>What the library promises\<close>

text \<open>Of one request: nothing else that waits has its key, and an answer without error means it is stored.\<close>

definition stored_inv :: "('db \<Rightarrow> string \<Rightarrow> bytes option) \<Rightarrow> writeRequest \<Rightarrow> 'db writeBatcher \<Rightarrow> bool" where
  "stored_inv content r b \<longleftrightarrow> (\<forall>r' \<in> set (waiting b). wrKey r' = wrKey r \<or> wrErr r' = wrErr r \<longrightarrow> r' = r)
     \<and> distinct (ids b) \<and> ((wrErr r, None) \<in> set (wbAnswers b) \<longrightarrow> content (wbDB b) (wrKey r) = Some (wrData r))"

locale batch_writes =
  fixes lib :: "('db, 'w) batch_lib" and content :: "'db \<Rightarrow> string \<Rightarrow> bytes option"
  assumes flush_ok: "write_batch lib batch db = (db', None) \<Longrightarrow>
      content db' = apply_writes (map (\<lambda>req. (wrKey req, Some (wrData req))) batch) (content db)"
    and others_kept: "write_batch lib batch db = (db', e) \<Longrightarrow> k \<notin> wrKey ` set batch \<Longrightarrow> content db' k = content db k"
begin

lemma written_last: "wrKey r \<in> wrKey ` set batch \<Longrightarrow> \<forall>r' \<in> set batch. wrKey r' = wrKey r \<longrightarrow> r' = r \<Longrightarrow>
    apply_writes (map (\<lambda>req. (wrKey req, Some (wrData req))) batch) m (wrKey r) = Some (wrData r)"
proof (induction batch arbitrary: m rule: rev_induct)
  case (snoc x xs)
  have split: "apply_writes (ws @ [(k, v)]) m = (apply_writes ws m)(k := v)" for ws k v and m :: "string \<Rightarrow> bytes option"
    by (induction ws arbitrary: m) auto
  show ?case
  proof (cases "wrKey x = wrKey r")
    case True
    then show ?thesis using snoc.prems(2) by (simp add: split)
  next
    case False
    then show ?thesis using snoc by (simp add: split)
  qed
qed simp

lemma stored_flush:
  assumes "stored_inv content r b"
  shows "stored_inv content r (flush_pending lib b)"
proof (cases "wbBatch b = []")
  case True
  then show ?thesis using assms by (simp add: flush_pending_def)
next
  case False
  obtain db' e where w: "write_batch lib (wbBatch b) (wbDB b) = (db', e)" by fastforce
  have b': "wbDB (flush_pending lib b) = db'"
    "wbAnswers (flush_pending lib b) = wbAnswers b @ map (\<lambda>req. (wrErr req, e)) (wbBatch b)"
    using w False by (simp_all add: flush_pending_def wbFlush_def)
  have uniq: "\<forall>r' \<in> set (wbBatch b). wrKey r' = wrKey r \<or> wrErr r' = wrErr r \<longrightarrow> r' = r"
    using assms by (simp add: stored_inv_def waiting_def)
  have "content db' (wrKey r) = Some (wrData r)" if "(wrErr r, None) \<in> set (wbAnswers (flush_pending lib b))"
  proof (cases "r \<in> set (wbBatch b)")
    case True
    then have "wrErr r \<notin> fst ` set (wbAnswers b)" using assms by (auto simp: stored_inv_def ids_def waiting_def)
    then have "e = None" using that b'(2) by (auto intro: rev_image_eqI)
    then show ?thesis using flush_ok [OF w [unfolded \<open>e = None\<close>]] written_last [of r "wbBatch b"] uniq True by simp
  next
    case False
    then have "(wrErr r, None) \<in> set (wbAnswers b)" using that uniq b'(2) by auto
    moreover have "wrKey r \<notin> wrKey ` set (wbBatch b)" using uniq False by auto
    ultimately show ?thesis using others_kept [OF w] assms by (simp add: stored_inv_def)
  qed
  then show ?thesis using assms b'(1) by (auto simp: stored_inv_def waiting_def)
qed

lemma stored_step:
  assumes "batch_step lib b e b'" and "stored_inv content r b" and "distinct (ids b')"
    and "\<forall>r' \<in> set (submitted [e]). wrKey r' = wrKey r \<or> wrErr r' = wrErr r \<longrightarrow> r' = r"
  shows "stored_inv content r b'"
  using assms(1)
proof (cases rule: batch_step_cases)
  case (queue req)
  then show ?thesis using assms(2-4) by (auto simp: stored_inv_def waiting_def)
next
  case loop
  from loop(2) obtain b1 b2 where c: "waiting b1 = waiting b" "wbAnswers b1 = wbAnswers b" "wbDB b1 = wbDB b"
    "b2 = flush_pending lib b1 \<or> b2 = b1" "waiting b' = waiting b2" "wbAnswers b' = wbAnswers b2" "wbDB b' = wbDB b2"
    by (rule loop_cases) blast
  have "stored_inv content r b1" using assms(2) c(1-3) by (simp add: stored_inv_def ids_def)
  then have "stored_inv content r b2" using stored_flush c(4) by blast
  then show ?thesis using c(5-7) by (simp add: stored_inv_def ids_def)
next
  case close
  then show ?thesis using assms(2) by (simp add: stored_inv_def)
qed

lemma run_stored:
  assumes "batch_run lib (newWriteBatcher db n) es b"
    and "\<forall>r' \<in> set (submitted es). wrKey r' = wrKey r \<or> wrErr r' = wrErr r \<longrightarrow> r' = r"
  shows "stored_inv content r b"
  using assms
proof (induction "newWriteBatcher db n" es b rule: batch_run.induct)
  case start
  then show ?case by (simp add: stored_inv_def ids_def waiting_def newWriteBatcher_def)
next
  case (step es b' e b'')
  have "batch_inv (es @ [e]) b''" using batch_run_inv [OF batch_run.step [OF step(1,3)]] .
  then have "distinct (ids b'')" unfolding batch_inv_def by blast
  then show ?case using stored_step [OF step(3)] step(2,4) by simp
qed

end

section \<open>An in-memory library\<close>

text \<open>A batch that keeps its writes until the flush.\<close>

definition mem_batch :: "(mem_db, (string \<times> bytes option) list) batch_lib" where
  "mem_batch = \<lparr>blNew = (\<lambda>db. []), blSet = (\<lambda>k v (db, ws). ((db, ws @ [(k, Some v)]), None)),
     blFlush = (\<lambda>(db, ws). if mdClosed db then (db, Some (ErrStorage ''closed''))
       else (db\<lparr>mdItems := map (\<lambda>k. (k, the (apply_writes ws (map_of (mdItems db)) k)))
              (sort (remdups (map fst ws @ map fst (mdItems db))))\<rparr>, None)),
     blCancel = fst\<rparr>"

definition mem_content :: "mem_db \<Rightarrow> string \<Rightarrow> bytes option" where
  "mem_content db = map_of (mdItems db)"

lemma set_all_mem: "set_all mem_batch batch (db, ws) = ((db, ws @ map (\<lambda>r. (wrKey r, Some (wrData r))) batch), None)"
  by (induction batch arbitrary: ws) (simp_all add: mem_batch_def)

lemma apply_writes_keys:
  "apply_writes (map (\<lambda>r. (wrKey r, Some (wrData r))) batch) m k \<noteq> None \<longleftrightarrow> k \<in> wrKey ` set batch \<or> m k \<noteq> None"
  by (induction batch arbitrary: m) auto

lemma apply_writes_other:
  "k \<notin> wrKey ` set batch \<Longrightarrow> apply_writes (map (\<lambda>r. (wrKey r, Some (wrData r))) batch) m k = m k"
  by (induction batch arbitrary: m) auto

lemma write_batch_mem:
  "write_batch mem_batch batch db =
     (if mdClosed db then (db, Some (ErrStorage ''closed''))
      else (db\<lparr>mdItems := map (\<lambda>k. (k, the (apply_writes (map (\<lambda>r. (wrKey r, Some (wrData r))) batch) (map_of (mdItems db)) k)))
              (sort (remdups (map wrKey batch @ map fst (mdItems db))))\<rparr>, None))"
  by (simp add: write_batch_def set_all_mem) (simp add: mem_batch_def comp_def)

lemma map_of_tabulate: "map_of (map (\<lambda>k. (k, f k)) ks) k = (if k \<in> set ks then Some (f k) else None)"
  by (induction ks) auto

interpretation mem_writes: batch_writes mem_batch mem_content
proof
  fix batch :: "writeRequest list" and db db' :: mem_db and e :: "error option" and k :: string
  let ?ws = "map (\<lambda>req. (wrKey req, Some (wrData req))) batch"
  have ok: "mem_content db1 = apply_writes ?ws (mem_content db)" if w: "write_batch mem_batch batch db = (db1, None)" for db1
  proof
    fix k
    let ?v = "apply_writes ?ws (map_of (mdItems db)) k"
    have "?v \<noteq> None \<longleftrightarrow> k \<in> wrKey ` set batch \<union> fst ` set (mdItems db)"
      using apply_writes_keys [of batch "map_of (mdItems db)" k] by (simp add: map_of_eq_None_iff)
    moreover have "mem_content db1 k = (if k \<in> wrKey ` set batch \<union> fst ` set (mdItems db) then Some (the ?v) else None)"
      using w unfolding write_batch_mem mem_content_def by (cases "mdClosed db") (clarsimp simp: map_of_tabulate)+
    ultimately show "mem_content db1 k = apply_writes ?ws (mem_content db) k"
      unfolding mem_content_def by (cases ?v) auto
  qed
  then show "write_batch mem_batch batch db = (db', None) \<Longrightarrow> mem_content db' = apply_writes ?ws (mem_content db)" .
  assume w: "write_batch mem_batch batch db = (db', e)" and k: "k \<notin> wrKey ` set batch"
  show "mem_content db' k = mem_content db k"
  proof (cases e)
    case None
    then show ?thesis using ok [of db'] w apply_writes_other [OF k] by simp
  next
    case (Some x)
    then have "db' = db" using w by (simp add: write_batch_mem split: if_splits)
    then show ?thesis by simp
  qed
qed

section \<open>Properties\<close>

text \<open>C8. A batched write that is reported as done is stored: whatever the callers, the timer and the shutdown do,
  once a caller has received no error for its message, the database holds that message, encoded, under its
  key. The request must be the only one of the run for its key.\<close>

theorem batched_write_is_stored:
  assumes "batch_writes lib content" and "batch_run lib (newWriteBatcher db n) es b"
    and "\<forall>r' \<in> set (submitted es). wrKey r' = msgKey (mQueue msg) (mID msg) \<or> wrErr r' = ch \<longrightarrow> r' = write_request r ch msg"
    and "(ch, None) \<in> set (wbAnswers b)"
  shows "content (wbDB b) (msgKey (mQueue msg) (mID msg)) = Some (encodeMessage r msg)"
proof -
  have f: "wrKey (write_request r ch msg) = msgKey (mQueue msg) (mID msg)" "wrErr (write_request r ch msg) = ch"
    "wrData (write_request r ch msg) = encodeMessage r msg" by (simp_all add: write_request_def)
  have "stored_inv content (write_request r ch msg) b"
    by (rule batch_writes.run_stored [OF assms(1,2)]) (use assms(3) in \<open>unfold f\<close>)
  then show ?thesis using assms(4) unfolding stored_inv_def f by blast
qed

definition batch_sample :: "string \<Rightarrow> message" where
  "batch_sample i = \<lparr>mID = i, mQueue = ''q'', mPayload = [1], mHeaders = [], mAttempt = 0, mPublishedAt = 0,
     mVisibleAt = 0, mOrderingKey = [], mSequence = 0\<rparr>"

definition batch_one :: "mem_db writeBatcher" where
  "batch_one = (newWriteBatcher empty_db 1)\<lparr>wbInbox := [write_request rev 7 (batch_sample ''x'')]\<rparr>"

lemma batch_one_run:
  "batch_run mem_batch (newWriteBatcher empty_db 1) [BSubmit (write_request rev 7 (batch_sample ''x'')), BLoop]
     (the (loop_recv mem_batch batch_one))"
proof -
  have "submit True (write_request rev 7 (batch_sample ''x'')) (newWriteBatcher empty_db 1) = Some (SQueued, batch_one)"
    by (simp add: submit_def batch_one_def newWriteBatcher_def)
  then have "batch_step mem_batch (newWriteBatcher empty_db 1) (BSubmit (write_request rev 7 (batch_sample ''x''))) batch_one"
    by (rule batch_step.submit) (simp add: newWriteBatcher_def)
  moreover have "loop_recv mem_batch batch_one = Some (the (loop_recv mem_batch batch_one))"
    by (simp add: loop_recv_def batch_one_def newWriteBatcher_def)
  ultimately show ?thesis
    using batch_run.step [OF batch_run.step [OF batch_run.start], of mem_batch _ _ _ BLoop] batch_step.recv by force
qed

theorem batched_write_is_stored_witness:
  "mem_content (wbDB (the (loop_recv mem_batch batch_one))) ''msg:q:x'' = Some (encodeMessage rev (batch_sample ''x''))"
proof -
  have "(7, None) \<in> set (wbAnswers (the (loop_recv mem_batch batch_one)))" by code_simp
  from batched_write_is_stored [OF mem_writes.batch_writes_axioms batch_one_run, of "batch_sample ''x''" 7 rev] this
  show ?thesis by (simp add: batch_sample_def msgKey_def msgPrefix_def)
qed

text \<open>C26. Nobody waits for ever on a batcher that is closed: once \<open>close\<close> was called, either the goroutine has left, or
  it can leave at once, and when it has, every request that was ever queued has been answered, exactly once and
  in the order of queueing, and no further request can be queued.\<close>

theorem closed_batcher_answers_everyone:
  assumes "batch_run lib (newWriteBatcher db n) es b" and "wbDone b"
  shows "\<exists>b'. (if wbExited b then b' = b else loop_done lib b = Some b')
    \<and> map fst (wbAnswers b') = map wrErr (submitted es) \<and> distinct (map fst (wbAnswers b'))
    \<and> (\<forall>pick req b''. submit pick req b' \<noteq> Some (SQueued, b''))"
proof -
  note inv = batch_run_inv [OF assms(1)]
  obtain b' where b': "if wbExited b then b' = b else loop_done lib b = Some b'" 
    using assms(2) unfolding loop_done_def by (cases "wbExited b") simp_all
  have k: "batch_inv es b' \<and> wbExited b'"
  proof (cases "wbExited b")
    case True
    then show ?thesis using inv b' by simp
  next
    case False
    then have "batch_inv (es @ [BLoop]) b'" "wbExited b'"
      using b' batch_step_inv [OF batch_step.drain [of lib b b'] inv] assms(2) by (auto simp: loop_done_def)
    then show ?thesis by (auto simp: batch_inv_def)
  qed
  then have "map fst (wbAnswers b') = map wrErr (submitted es)" "distinct (map fst (wbAnswers b'))" "wbInboxClosed b'"
    unfolding batch_inv_def ids_def by auto
  then show ?thesis using b' by (intro exI [of _ b']) (auto simp: submit_def split: if_splits)
qed

theorem closed_batcher_answers_everyone_witness:
  "map fst (wbAnswers (the (loop_done mem_batch (batch_one\<lparr>wbDone := True\<rparr>)))) = [7]"
proof -
  have "batch_step mem_batch (newWriteBatcher empty_db 1) (BSubmit (write_request rev 7 (batch_sample ''x''))) batch_one"
    by (rule batch_step.submit [of True]) (simp_all add: submit_def batch_one_def newWriteBatcher_def)
  moreover have "batch_step mem_batch batch_one BClose (batch_one\<lparr>wbDone := True\<rparr>)"
    by (rule batch_step.close) (simp add: wbClose_def batch_one_def newWriteBatcher_def)
  ultimately have "batch_run mem_batch (newWriteBatcher empty_db 1)
      [BSubmit (write_request rev 7 (batch_sample ''x'')), BClose] (batch_one\<lparr>wbDone := True\<rparr>)"
    using batch_run.step [OF batch_run.step [OF batch_run.start], of mem_batch _ _ _ BClose] by force
  from closed_batcher_answers_everyone [OF this] show ?thesis
    by (auto simp: write_request_def batch_one_def newWriteBatcher_def)
qed

text \<open>A \<open>submit\<close> that reaches its \<open>select\<close> after the goroutine has closed the channel has two ready cases, and the
  send among them panics.\<close>

lemma submit_after_close_may_panic:
  "wbInboxClosed b \<Longrightarrow> submit True req b = None \<and> (wbDone b \<longrightarrow> submit False req b = Some (SClosed, b))"
  by (simp add: submit_def)

end
