(* ===== verification/Dedup.thy ===== *)
theory Dedup
  imports Broker_Types
begin

text \<open>
  Publish deduplication, \<open>internal/broker/dedup.go\<close>: a map from idempotency keys to the instant
  they expire at. \<open>Check\<close> is one step under the lock; the cleaner goroutine calls \<open>cleanup\<close> at
  unspecified moments, so it is a step of its own.
\<close>

definition DefaultIdempotencyTTL :: duration where "DefaultIdempotencyTTL = 5 * 60 * second"
definition MaxIdempotencyKeys :: nat where "MaxIdempotencyKeys = 100000"

record IdempotencyTracker =
  itKeys :: "(string, time) gomap"
  itTTL :: duration
  itStopped :: bool

definition NewIdempotencyTracker :: "duration \<Rightarrow> IdempotencyTracker" where
  "NewIdempotencyTracker ttl =
     (let ttl = (if ttl \<le> 0 then DefaultIdempotencyTTL else ttl)
      in \<lparr>itKeys = [], itTTL = ttl, itStopped = False\<rparr>)"

definition cleanupLocked :: "time \<Rightarrow> IdempotencyTracker \<Rightarrow> IdempotencyTracker" where
  \<comment> \<open>deleting entries while ranging over a map visits every entry that is not deleted\<close>
  "cleanupLocked now t = t\<lparr>itKeys := filter (\<lambda>(key, expiry). \<not> now > expiry) (itKeys t)\<rparr>"

definition Check :: "string \<Rightarrow> time \<Rightarrow> IdempotencyTracker \<Rightarrow> error option \<times> IdempotencyTracker" where
  "Check key now t =
     (if key = [] then (None, t)
      else if (case gm_get (itKeys t) key of Some expiry \<Rightarrow> now < expiry | None \<Rightarrow> False)
      then (Some (ErrDuplicateMessage key), t)
      else (let t' = (if length (itKeys t) \<ge> MaxIdempotencyKeys then cleanupLocked now t else t)
            in (None, t'\<lparr>itKeys := gm_set (itKeys t') key (now + itTTL t')\<rparr>)))"

definition cleanup :: "time \<Rightarrow> IdempotencyTracker \<Rightarrow> IdempotencyTracker" where
  "cleanup now t = cleanupLocked now t"

definition it_Close :: "IdempotencyTracker \<Rightarrow> IdempotencyTracker" where
  "it_Close t = t\<lparr>itStopped := True\<rparr>"

definition it_Len :: "IdempotencyTracker \<Rightarrow> nat" where
  "it_Len t = length (itKeys t)"

section \<open>The tracker remembers\<close>

text \<open>What the tracker does between two checks of one key: checks of any keys and cleanups.\<close>

datatype tracker_op = TCheck string | TCleanup

definition tstep :: "time \<times> tracker_op \<Rightarrow> IdempotencyTracker \<Rightarrow> IdempotencyTracker" where
  "tstep op t =
     (case snd op of TCheck key \<Rightarrow> snd (Check key (fst op) t) | TCleanup \<Rightarrow> cleanup (fst op) t)"

definition tracker_wf :: "IdempotencyTracker \<Rightarrow> bool" where
  "tracker_wf t \<longleftrightarrow> gm_wf (itKeys t) \<and> 0 < itTTL t"

definition remembers :: "string \<Rightarrow> time \<Rightarrow> IdempotencyTracker \<Rightarrow> bool" where
  "remembers key deadline t \<longleftrightarrow> (\<exists>expiry. gm_get (itKeys t) key = Some expiry \<and> deadline \<le> expiry)"

lemma gm_get_filter:
  assumes "gm_wf m"
  shows "gm_get (filter (\<lambda>(k, v). P k v) m) key
     = (case gm_get m key of None \<Rightarrow> None | Some v \<Rightarrow> if P key v then Some v else None)"
  using assms by (induction m) (auto split: option.splits dest: map_of_SomeD simp: rev_image_eqI)

lemma cleanup_get:
  "tracker_wf t \<Longrightarrow> gm_get (itKeys (cleanupLocked now t)) key
     = (case gm_get (itKeys t) key of None \<Rightarrow> None | Some e \<Rightarrow> if now > e then None else Some e)"
  by (simp add: cleanupLocked_def tracker_wf_def gm_get_filter split: option.splits)

lemma tracker_wf_cleanup: "tracker_wf t \<Longrightarrow> tracker_wf (cleanupLocked now t)"
  by (simp add: cleanupLocked_def tracker_wf_def distinct_map_filter)

lemma tracker_wf_Check: "tracker_wf t \<Longrightarrow> tracker_wf (snd (Check key now t))"
  using tracker_wf_cleanup [of t now]
  by (auto simp: Check_def tracker_wf_def Let_def split: option.splits)

lemma tracker_wf_New: "tracker_wf (NewIdempotencyTracker ttl)"
  by (simp add: NewIdempotencyTracker_def tracker_wf_def DefaultIdempotencyTTL_def second_def)

lemma tstep_wf: "tracker_wf t \<Longrightarrow> tracker_wf (tstep op t)"
  by (simp add: tstep_def tracker_wf_Check tracker_wf_cleanup cleanup_def split: tracker_op.splits)

lemma Check_remembers:
  assumes "tracker_wf t" and "remembers key deadline t" and "now < deadline"
  shows "remembers key deadline (snd (Check key' now t))"
proof -
  obtain e where e: "gm_get (itKeys t) key = Some e" "deadline \<le> e" using assms(2) by (auto simp: remembers_def)
  have keep: "gm_get (itKeys (cleanupLocked now t)) key = Some e"
    using cleanup_get [OF assms(1), of now key] e assms(3) by simp
  show ?thesis
  proof (cases "key' = key")
    case True
    then show ?thesis using e assms(3) by (auto simp: Check_def remembers_def)
  next
    case False
    then show ?thesis
      using e keep by (simp add: Check_def remembers_def Let_def split: option.splits)
  qed
qed

lemma tstep_remembers:
  assumes "tracker_wf t" and "remembers key deadline t" and "fst op < deadline"
  shows "remembers key deadline (tstep op t)"
proof (cases "snd op")
  case (TCheck key')
  with assms Check_remembers show ?thesis by (simp add: tstep_def)
next
  case TCleanup
  with assms show ?thesis
    by (auto simp: tstep_def remembers_def cleanup_def cleanup_get)
qed

lemma foldl_tstep_remembers:
  assumes "tracker_wf t" and "remembers key deadline t" and "\<forall>op \<in> set ops. fst op < deadline"
  shows "remembers key deadline (foldl (\<lambda>t op. tstep op t) t ops)"
  using assms by (induction ops arbitrary: t) (simp_all add: tstep_wf tstep_remembers)

lemma Check_accepts:
  assumes "tracker_wf t" and "Check key now t = (None, t')" and "key \<noteq> []"
  shows "tracker_wf t'" and "remembers key (now + itTTL t) t'"
proof -
  show "tracker_wf t'" using tracker_wf_Check [OF assms(1), of key now] assms(2) by simp
  show "remembers key (now + itTTL t) t'"
    using assms(2,3) by (auto simp: Check_def remembers_def Let_def cleanupLocked_def split: option.splits if_splits)
qed

section \<open>Properties\<close>

text \<open>C17. A duplicate is refused for as long as the key lives: once a key was accepted, every later check of
  it before the time to live has passed is refused, whatever other checks and cleanups happened in between;
  the empty key is never refused.\<close>

theorem duplicate_refused_within_ttl:
  assumes "tracker_wf t" and "Check key now t = (None, t1)" and "key \<noteq> []"
    and "\<forall>op \<in> set ops. fst op < now + itTTL t" and "now' < now + itTTL t"
  shows "fst (Check key now' (foldl (\<lambda>t op. tstep op t) t1 ops)) = Some (ErrDuplicateMessage key)
     \<and> fst (Check [] now' t) = None"
proof -
  have "remembers key (now + itTTL t) (foldl (\<lambda>t op. tstep op t) t1 ops)"
    using assms Check_accepts [OF assms(1,2,3)] by (intro foldl_tstep_remembers)
  with assms(3,5) show ?thesis by (auto simp: remembers_def Check_def)
qed

theorem duplicate_refused_within_ttl_witness:
  "fst (Check ''k'' 50 (foldl (\<lambda>t op. tstep op t) (snd (Check ''k'' 1 (NewIdempotencyTracker 100)))
      [(2, TCheck ''other''), (40, TCleanup)])) = Some (ErrDuplicateMessage ''k'')"
  using duplicate_refused_within_ttl [OF tracker_wf_New [of 100], of "''k''" 1
      "snd (Check ''k'' 1 (NewIdempotencyTracker 100))" "[(2, TCheck ''other''), (40, TCleanup)]" 50]
  by (simp add: Check_def NewIdempotencyTracker_def MaxIdempotencyKeys_def)

end
