(* ===== verification/Broker.thy ===== *)
theory Broker
  imports Queues Dedup Stream_Queue "HOL-Library.List_Lexorder" "HOL-Library.Char_ord"
begin

text \<open>
  The broker of \<open>internal/broker/broker.go\<close>: the queues and the stream queues by name, the storage,
  the deduplication tracker and the memory guard. What a call draws from outside is its environment:
  the clock, a fresh identifier, a fresh channel and the orders in which it ranges over maps. The
  periodic goroutines are steps of their own.

  A queue is reached through its name. A Go method on a nil queue panics as soon as it takes the
  lock, which is what \<open>on_queue\<close> does when the name is not there.
\<close>

record env =
  eNow :: time
  eULID :: string
  eChan :: nat
  eOrders :: range_orders
  eQueues :: "(string \<times> Queue) list \<Rightarrow> (string \<times> Queue) list"
  eStreams :: "(string \<times> StreamQueue) list \<Rightarrow> (string \<times> StreamQueue) list"
  eConfigs :: "(string \<times> QueueConfig) list \<Rightarrow> (string \<times> QueueConfig) list"

definition env_ok :: "env \<Rightarrow> bool" where
  "env_ok e \<longleftrightarrow> orders_ok (eOrders e) \<and> range_order (eQueues e) \<and> range_order (eStreams e) \<and> range_order (eConfigs e)"

type_synonym 's store = "('s storage_ops \<times> 's) option"

record 's Broker =
  bQueues :: "(string, Queue) gomap"
  bStreamQueues :: "(string, StreamQueue) gomap"
  bStorage :: "'s store"
  bDedup :: "IdempotencyTracker option"
  bMemoryLimit :: u64
  bCachedAlloc :: u64
  bStartedAt :: time
  bDone :: bool

definition DefaultMemoryLimit :: u64 where "DefaultMemoryLimit = 400 * 1024 * 1024"
definition LargeMessageThreshold :: nat where "LargeMessageThreshold = 64 * 1024"

type_synonym 's BrokerOption = "'s Broker \<Rightarrow> 's Broker"

definition WithStorage :: "'s storage_ops \<Rightarrow> 's \<Rightarrow> 's BrokerOption" where
  "WithStorage ops s b = b\<lparr>bStorage := Some (ops, s)\<rparr>"

definition WithMemoryLimit :: "u64 \<Rightarrow> 's BrokerOption" where
  "WithMemoryLimit limit b = b\<lparr>bMemoryLimit := limit\<rparr>"

definition NewBroker :: "'s BrokerOption list \<Rightarrow> time \<Rightarrow> 's Broker" where
  "NewBroker opts now =
     foldl (\<lambda>b opt. opt b)
       \<lparr>bQueues = [], bStreamQueues = [], bStorage = None,
        bDedup = Some (NewIdempotencyTracker DefaultIdempotencyTTL),
        bMemoryLimit = DefaultMemoryLimit, bCachedAlloc = 0, bStartedAt = now, bDone = False\<rparr> opts"

section \<open>Memory pressure\<close>

definition CheckMemoryPressure :: "'s Broker \<Rightarrow> error option" where
  "CheckMemoryPressure b =
     (if bMemoryLimit b = 0 then None
      else if bCachedAlloc b > bMemoryLimit b then Some ErrMemoryPressure
      else None)"

definition CheckMemoryPressureEager :: "'s Broker \<Rightarrow> error option" where
  "CheckMemoryPressureEager b = CheckMemoryPressure b"

definition memoryMonitor_tick :: "u64 \<Rightarrow> 's Broker \<Rightarrow> 's Broker" where
  \<comment> \<open>\<open>alloc\<close> is what \<open>ReadMemStats\<close> reported\<close>
  "memoryMonitor_tick alloc b = b\<lparr>bCachedAlloc := alloc\<rparr>"

section \<open>The storage\<close>

definition store_call :: "('s storage_ops \<Rightarrow> 's effect) \<Rightarrow> 's store \<Rightarrow> 's store \<times> error option" where
  \<comment> \<open>\<open>if b.storage != nil { err = b.storage.f(...) }\<close>\<close>
  "store_call f st =
     (case st of
        None \<Rightarrow> (None, None)
      | Some (ops, s) \<Rightarrow> (case f ops s of (s', e) \<Rightarrow> (Some (ops, s'), e)))"

definition on_storage :: "('s storage_ops \<Rightarrow> 's effect) \<Rightarrow> 's Broker \<Rightarrow> 's Broker \<times> error option" where
  "on_storage f b = (case store_call f (bStorage b) of (st, e) \<Rightarrow> (b\<lparr>bStorage := st\<rparr>, e))"

definition stream_handle :: "'s Broker \<Rightarrow> 's stream_handle" where
  \<comment> \<open>the type assertion of the storage to \<open>StreamStorage\<close>\<close>
  "stream_handle b =
     (case bStorage b of None \<Rightarrow> None | Some (ops, s) \<Rightarrow> map_option (\<lambda>so. (so, s)) (soStream ops))"

definition put_handle :: "'s stream_handle \<Rightarrow> 's Broker \<Rightarrow> 's Broker" where
  "put_handle h b =
     (case (h, bStorage b) of
        (Some (_, s'), Some (ops, _)) \<Rightarrow> b\<lparr>bStorage := Some (ops, s')\<rparr>
      | _ \<Rightarrow> b)"

section \<open>Queues by name\<close>

definition on_queue :: "string \<Rightarrow> (Queue \<Rightarrow> ('a \<times> Queue) go) \<Rightarrow> 's Broker \<Rightarrow> ('a \<times> 's Broker) go" where
  "on_queue name f b =
     (case gm_get (bQueues b) name of
        None \<Rightarrow> None
      | Some q \<Rightarrow> map_option (\<lambda>(a, q'). (a, b\<lparr>bQueues := gm_set (bQueues b) name q'\<rparr>)) (f q))"

definition default_config :: "Queue \<Rightarrow> QueueConfig" where
  "default_config q = zero_config\<lparr>qcMaxSize := qMaxSize q, qcMaxRetries := uint (qMaxRetries q),
     qcFailurePolicy := qFailurePolicy q\<rparr>"

definition GetOrCreateQueueWithError :: "string \<Rightarrow> 's Broker \<Rightarrow> error option \<times> 's Broker" where
  "GetOrCreateQueueWithError name b =
     (case gm_get (bQueues b) name of
        Some q \<Rightarrow> (None, b)
      | None \<Rightarrow>
          (let q = NewQueue name
           in case on_storage (\<lambda>ops. soSaveQueue ops name (default_config q)) b of
                (b1, Some e) \<Rightarrow> (Some e, b1)
              | (b1, None) \<Rightarrow> (None, b1\<lparr>bQueues := gm_set (bQueues b1) name q\<rparr>)))"

definition GetOrCreateQueue :: "string \<Rightarrow> 's Broker \<Rightarrow> 's Broker" where
  \<comment> \<open>the error is dropped; the queue is nil then\<close>
  "GetOrCreateQueue name b = snd (GetOrCreateQueueWithError name b)"

definition GetOrCreateStreamQueueWithError :: "string \<Rightarrow> 's Broker \<Rightarrow> error option \<times> 's Broker" where
  "GetOrCreateStreamQueueWithError name b =
     (case gm_get (bStreamQueues b) name of
        Some sq \<Rightarrow> (None, b)
      | None \<Rightarrow>
          (let sq = NewStreamQueue name (stream_handle b)
           in case on_storage (\<lambda>ops. soSaveQueue ops name (zero_config\<lparr>qcMode := QueueModeStream\<rparr>)) b of
                (b1, Some e) \<Rightarrow> (Some e, b1)
              | (b1, None) \<Rightarrow> (None, b1\<lparr>bStreamQueues := gm_set (bStreamQueues b1) name sq\<rparr>)))"

definition GetOrCreateStreamQueue :: "string \<Rightarrow> 's Broker \<Rightarrow> 's Broker" where
  "GetOrCreateStreamQueue name b = snd (GetOrCreateStreamQueueWithError name b)"

definition GetStreamQueue :: "string \<Rightarrow> 's Broker \<Rightarrow> StreamQueue option" where
  "GetStreamQueue name b = gm_get (bStreamQueues b) name"

definition IsStreamQueue :: "string \<Rightarrow> 's Broker \<Rightarrow> bool" where
  "IsStreamQueue name b \<longleftrightarrow> gm_get (bStreamQueues b) name \<noteq> None"

definition GetQueue :: "string \<Rightarrow> 's Broker \<Rightarrow> Queue option" where
  "GetQueue name b = gm_get (bQueues b) name"

definition ListQueues :: "env \<Rightarrow> 's Broker \<Rightarrow> string list" where
  "ListQueues e b = sort (map fst (eQueues e (bQueues b)) @ map fst (eStreams e (bStreamQueues b)))"

section \<open>Periodic work\<close>

fun reap_queues :: "env \<Rightarrow> (string \<times> Queue) list \<Rightarrow> (string, Queue) gomap \<Rightarrow> (string, Queue) gomap go" where
  "reap_queues e [] qs = Some qs"
| "reap_queues e ((name, q) # rest) qs = do {
     q1 \<leftarrow> RequeueExpired (eOrders e) (eNow e) q;
     (dead, q2) \<leftarrow> ReapDeadGroupMembers (eOrders e) (eNow e) q1;
     reap_queues e rest (gm_set qs name q2)
   }"

definition reaper_tick :: "env \<Rightarrow> 's Broker \<Rightarrow> 's Broker go" where
  "reaper_tick e b =
     map_option (\<lambda>qs. b\<lparr>bQueues := qs\<rparr>) (reap_queues e (eQueues e (bQueues b)) (bQueues b))"

fun retain_streams :: "nat \<Rightarrow> env \<Rightarrow> (string \<times> StreamQueue) list \<Rightarrow> 's Broker \<Rightarrow> 's Broker option" where
  \<comment> \<open>the errors of \<open>RunRetention\<close> are dropped; \<open>None\<close> when a scan is not done after \<open>fuel\<close> iterations\<close>
  "retain_streams fuel e [] b = Some b"
| "retain_streams fuel e ((name, sq) # rest) b = do {
     (err, h) \<leftarrow> RunRetention fuel (eNow e) sq (stream_handle b);
     retain_streams fuel e rest (put_handle h b)
   }"

definition retention_tick :: "nat \<Rightarrow> env \<Rightarrow> 's Broker \<Rightarrow> 's Broker option" where
  "retention_tick fuel e b = retain_streams fuel e (eStreams e (bStreamQueues b)) b"

section \<open>Start and stop\<close>

definition bClose :: "'s Broker \<Rightarrow> 's Broker go" where
  \<comment> \<open>closing a closed channel panics\<close>
  "bClose b = (if bDone b then None else Some (b\<lparr>bDone := True, bDedup := map_option it_Close (bDedup b)\<rparr>))"

definition ResetForRestore :: "'s Broker \<Rightarrow> 's Broker" where
  "ResetForRestore b = b\<lparr>bQueues := [], bStreamQueues := []\<rparr>"

definition Storage :: "'s Broker \<Rightarrow> 's store" where
  "Storage b = bStorage b"

definition load_message :: "message \<Rightarrow> message" where
  \<comment> \<open>the fields that are copied from a stored message\<close>
  "load_message sm = sm\<lparr>mSequence := 0\<rparr>"

fun enqueue_all :: "env \<Rightarrow> string \<Rightarrow> message list \<Rightarrow> 's Broker \<Rightarrow> 's Broker go" where
  "enqueue_all e name [] b = Some b"
| "enqueue_all e name (sm # sms) b = do {
     (_, b1) \<leftarrow> on_queue name (\<lambda>q. map_option (Pair ()) (EnqueueDirect (eOrders e) (load_message sm) (eNow e) q)) b;
     enqueue_all e name sms b1
   }"

definition set_queue :: "bool \<Rightarrow> string \<Rightarrow> (Queue \<Rightarrow> Queue) \<Rightarrow> 's Broker \<Rightarrow> 's Broker go" where
  \<comment> \<open>\<open>if cond { q.SetX(...) }\<close>\<close>
  "set_queue cond name f b = (if cond then map_option snd (on_queue name (\<lambda>q. Some ((), f q)) b) else Some b)"

definition load_queue :: "env \<Rightarrow> string \<Rightarrow> QueueConfig \<Rightarrow> 's Broker \<Rightarrow> (error option \<times> 's Broker) go" where
  \<comment> \<open>the body of the loop for a queue in queue mode\<close>
  "load_queue e name cfg b =
     (case bStorage b of
        None \<Rightarrow> Some (None, b)
      | Some (ops, s) \<Rightarrow>
          (case soLoadMessages ops name s of
             (_, Some err) \<Rightarrow> Some (Some err, b)
           | (storedMsgs, None) \<Rightarrow> do {
               let b1 = GetOrCreateQueue name b;
               b2 \<leftarrow> set_queue (qcMaxSizeSet cfg \<or> qcMaxSize cfg \<noteq> 0) name (SetMaxSize (qcMaxSize cfg)) b1;
               b3 \<leftarrow> set_queue (qcMaxRetries cfg \<noteq> 0) name (SetMaxRetries (of_int (qcMaxRetries cfg))) b2;
               b4 \<leftarrow> set_queue (qcFailurePolicy cfg \<noteq> []) name (SetFailurePolicy (qcFailurePolicy cfg)) b3;
               b5 \<leftarrow> enqueue_all e name storedMsgs b4;
               Some (None, b5)
             }))"

definition load_stream_queue :: "string \<Rightarrow> QueueConfig \<Rightarrow> 's Broker \<Rightarrow> 's Broker go" where
  "load_stream_queue name cfg b =
     (let b1 = GetOrCreateStreamQueue name b
      in if qcRetentionMaxAge cfg > 0 \<or> qcRetentionMaxBytes cfg > 0
         then map_option (\<lambda>sq. b1\<lparr>bStreamQueues := gm_set (bStreamQueues b1) name
                (SetRetention (qcRetentionMaxAge cfg * second) (qcRetentionMaxBytes cfg) sq)\<rparr>)
              (gm_get (bStreamQueues b1) name)
         else Some b1)"

fun load_queues :: "env \<Rightarrow> (string \<times> QueueConfig) list \<Rightarrow> 's Broker \<Rightarrow> (error option \<times> 's Broker) go" where
  "load_queues e [] b = Some (None, b)"
| "load_queues e ((name, cfg) # rest) b =
     (if qcMode cfg = QueueModeStream
      then do { b1 \<leftarrow> load_stream_queue name cfg b; load_queues e rest b1 }
      else do {
        (err, b1) \<leftarrow> load_queue e name cfg b;
        (case err of Some er \<Rightarrow> Some (Some er, b1) | None \<Rightarrow> load_queues e rest b1)
      })"

definition LoadFromStorage :: "env \<Rightarrow> 's Broker \<Rightarrow> (error option \<times> 's Broker) go" where
  "LoadFromStorage e b =
     (case bStorage b of
        None \<Rightarrow> Some (None, b)
      | Some (ops, s) \<Rightarrow>
          (case soLoadQueues ops s of
             (_, Some err) \<Rightarrow> Some (Some err, b)
           | (queues, None) \<Rightarrow> load_queues e (eConfigs e queues) b))"

end
