(* ===== verification/Handlers.thy ===== *)
theory Handlers
  imports Broker
begin

text \<open>
  The request handlers of \<open>internal/broker/handlers.go\<close> and the dead-letter operations of
  \<open>dlq.go\<close>. A request is the record of the fields that the handlers read. A handler runs its calls
  one after the other; the whole run is one step.
\<close>

record PublishRequest =
  prQueue :: string
  prPayload :: bytes
  prHeaders :: "(string, string) gomap"
  prMessageId :: string
  prIdempotencyKey :: string
  prOrderingKey :: string

record ConsumeRequest =
  crQueue :: string
  crVisibilityTimeout :: u32
  crGroup :: string

record NackRequest =
  nkMessageId :: string
  nkRequeue :: bool

datatype SeekPosition = SEEK_BEGINNING | SEEK_END | SEEK_OFFSET | SEEK_TIMESTAMP | SEEK_UNKNOWN int

record SeekRequest =
  skQueue :: string
  skGroup :: string
  skPosition :: SeekPosition
  skOffset :: u64
  skTimestamp :: int

definition defaultVisibilityTimeout :: duration where "defaultVisibilityTimeout = 30 * second"

section \<open>Publishing\<close>

definition check_memory :: "nat \<Rightarrow> 's Broker \<Rightarrow> error option" where
  "check_memory payloadSize b =
     (if payloadSize > LargeMessageThreshold then CheckMemoryPressureEager b else CheckMemoryPressure b)"

lemma check_memory_code [code]:
  "check_memory payloadSize b =
     (if int payloadSize > 64 * 1024 then CheckMemoryPressureEager b else CheckMemoryPressure b)"
  by (simp add: check_memory_def LargeMessageThreshold_def)

definition check_dedup :: "string \<Rightarrow> time \<Rightarrow> 's Broker \<Rightarrow> error option \<times> 's Broker" where
  "check_dedup key now b =
     (case bDedup b of
        None \<Rightarrow> (None, b)
      | Some t \<Rightarrow> (case Check key now t of (err, t') \<Rightarrow> (err, b\<lparr>bDedup := Some t'\<rparr>)))"

definition published_message :: "env \<Rightarrow> PublishRequest \<Rightarrow> message" where
  "published_message e req =
     \<lparr>mID = (if prMessageId req = [] then eULID e else prMessageId req), mQueue = prQueue req,
      mPayload = prPayload req, mHeaders = prHeaders req, mAttempt = 0, mPublishedAt = eNow e,
      mVisibleAt = eNow e, mOrderingKey = prOrderingKey req, mSequence = 0\<rparr>"

definition save_and_enqueue :: "env \<Rightarrow> message \<Rightarrow> 's Broker \<Rightarrow> ((error + string) \<times> 's Broker) go" where
  \<comment> \<open>\<open>HandlePublish\<close> from the storage on: a full queue undoes the save\<close>
  "save_and_enqueue e msg b =
     (case on_storage (\<lambda>ops. soSaveMessage ops msg) b of
        (b1, Some err) \<Rightarrow> Some (Inl err, b1)
      | (b1, None) \<Rightarrow> do {
          (err, b2) \<leftarrow> on_queue (mQueue msg) (Enqueue (eOrders e) msg (eNow e)) b1;
          (case err of
             None \<Rightarrow> Some (Inr (mID msg), b2)
           | Some er \<Rightarrow>
               (case on_storage (\<lambda>ops. soDeleteMessage ops (mQueue msg) (mID msg)) b2 of
                  (b3, Some rbErr) \<Rightarrow> Some (Inl (ErrJoin er rbErr), b3)
                | (b3, None) \<Rightarrow> Some (Inl er, b3)))
        })"

definition HandlePublish :: "env \<Rightarrow> PublishRequest \<Rightarrow> 's Broker \<Rightarrow> ((error + string) \<times> 's Broker) go" where
  "HandlePublish e req b =
     (case check_memory (length (prPayload req)) b of
        Some err \<Rightarrow> Some (Inl err, b)
      | None \<Rightarrow>
          (case check_dedup (prIdempotencyKey req) (eNow e) b of
             (Some err, b1) \<Rightarrow> Some (Inl err, b1)
           | (None, b1) \<Rightarrow>
               (case GetOrCreateQueueWithError (prQueue req) b1 of
                  (Some err, b2) \<Rightarrow> Some (Inl err, b2)
                | (None, b2) \<Rightarrow> save_and_enqueue e (published_message e req) b2)))"

section \<open>Consuming\<close>

definition HandleConsume :: "env \<Rightarrow> ConsumeRequest \<Rightarrow> string \<Rightarrow> 's Broker \<Rightarrow> (nat \<times> 's Broker) go" where
  "HandleConsume e req memberID b =
     (let timeout = (if crVisibilityTimeout req > 0 then uint (crVisibilityTimeout req) * second
                     else defaultVisibilityTimeout);
          b1 = GetOrCreateQueue (crQueue req) b
      in if crGroup req = []
         then map_option (\<lambda>(_, b2). (eChan e, b2))
                (on_queue (crQueue req) (\<lambda>q. map_option (Pair ()) (Dequeue (eChan e) timeout (eNow e) q)) b1)
         else map_option (\<lambda>(_, b2). (eChan e, b2))
                (on_queue (crQueue req)
                   (\<lambda>q. case GetOrCreateGroup (crGroup req) q of
                      (g, q1) \<Rightarrow> map_option (\<lambda>g'. ((), q1\<lparr>qGroups := gm_set (qGroups q1) (crGroup req) g'\<rparr>))
                                   (AddMember memberID timeout (eNow e) g)) b1))"

definition delete_hook :: "string \<Rightarrow> string \<Rightarrow> 's store hook" where
  \<comment> \<open>\<open>deleteStored\<close> and \<open>deleteDropped\<close>\<close>
  "delete_hook queue i = Some (\<lambda>_. store_call (\<lambda>ops. soDeleteMessage ops queue i))"

definition persist_hook :: "'s store hook" where
  "persist_hook = Some (\<lambda>msg. store_call (\<lambda>ops. soSaveMessage ops msg))"

definition put_queue :: "string \<Rightarrow> Queue \<Rightarrow> 's store \<Rightarrow> 's Broker \<Rightarrow> 's Broker" where
  "put_queue name q st b = b\<lparr>bQueues := gm_set (bQueues b) name q, bStorage := st\<rparr>"

definition HandleAck :: "env \<Rightarrow> string \<Rightarrow> string \<Rightarrow> string \<Rightarrow> 's Broker \<Rightarrow> ((bool \<times> error option) \<times> 's Broker) go" where
  "HandleAck e messageId queueName groupName b =
     (case GetQueue queueName b of
        None \<Rightarrow> Some ((False, None), b)
      | Some q \<Rightarrow>
          if groupName \<noteq> [] then
            (case GetGroup groupName q of
               None \<Rightarrow> Some ((False, None), b)
             | Some g \<Rightarrow> do {
                 (res, g', st) \<leftarrow> gAckWithHook (delete_hook queueName messageId) messageId (eNow e) g (bStorage b);
                 Some (res, put_queue queueName (q\<lparr>qGroups := gm_set (qGroups q) groupName g'\<rparr>) st b)
               })
          else do {
            (res, q', st) \<leftarrow> ackWithHook (delete_hook queueName messageId) messageId (eNow e) q (bStorage b);
            Some (res, put_queue queueName q' st b)
          })"

definition enqueued :: "message \<Rightarrow> error option \<Rightarrow> Queue \<Rightarrow> message" where
  \<comment> \<open>what the caller's pointer refers to after \<open>Enqueue\<close>: the queue has changed the message exactly
    when it delivered it, and then no message is pending any more\<close>
  "enqueued msg err q =
     (if err = None \<and> qMessages q = [] then (case gm_get (qInFlight q) (mID msg) of Some m \<Rightarrow> m | None \<Rightarrow> msg) else msg)"

definition move_to_dlq :: "env \<Rightarrow> string \<Rightarrow> message \<Rightarrow> 's Broker \<Rightarrow> 's Broker go" where
  "move_to_dlq e queueName msg b =
     (let dlqName = DLQName queueName;
          b1 = GetOrCreateQueue dlqName b;
          msg1 = msg\<lparr>mQueue := dlqName, mVisibleAt := eNow e\<rparr>
      in do {
        (msg2, b2) \<leftarrow> on_queue dlqName
          (\<lambda>q. map_option (\<lambda>(err, q'). (enqueued msg1 err q', q')) (Enqueue (eOrders e) msg1 (eNow e) q)) b1;
        let b3 = fst (on_storage (\<lambda>ops. soDeleteMessage ops queueName (mID msg2)) b2);
        Some (fst (on_storage (\<lambda>ops. soSaveMessage ops msg2) b3))
      })"

definition finish_nack :: "env \<Rightarrow> string \<Rightarrow> NackResult \<times> error option \<Rightarrow> 's Broker
    \<Rightarrow> ((bool \<times> error option) \<times> 's Broker) go" where
  \<comment> \<open>the end of \<open>HandleNack\<close>, alike for queues and groups\<close>
  "finish_nack e queueName res b =
     (case res of
        (_, Some err) \<Rightarrow> Some ((False, Some err), b)
      | (result, None) \<Rightarrow>
          if \<not> nrFound result then Some ((False, None), b)
          else (case (nrToDLQ result, nrMessage result) of
                  (True, Some msg) \<Rightarrow> map_option (\<lambda>b'. ((True, None), b')) (move_to_dlq e queueName msg b)
                | _ \<Rightarrow> Some ((True, None), b)))"

definition HandleNack :: "env \<Rightarrow> NackRequest \<Rightarrow> string \<Rightarrow> string \<Rightarrow> 's Broker
    \<Rightarrow> ((bool \<times> error option) \<times> 's Broker) go" where
  "HandleNack e req queueName groupName b =
     (case GetQueue queueName b of
        None \<Rightarrow> Some ((False, None), b)
      | Some q \<Rightarrow>
          if groupName \<noteq> [] then
            (case GetGroup groupName q of
               None \<Rightarrow> Some ((False, None), b)
             | Some g \<Rightarrow> do {
                 (res, g', st) \<leftarrow> gNackWithHooks (delete_hook queueName (nkMessageId req)) (nkMessageId req) (nkRequeue req)
                   (qMaxRetries q) (qFailurePolicy q) (eNow e) g (bStorage b);
                 finish_nack e queueName res (put_queue queueName (q\<lparr>qGroups := gm_set (qGroups q) groupName g'\<rparr>) st b)
               })
          else do {
            (res, q', st) \<leftarrow> nackWithHooks (delete_hook queueName (nkMessageId req)) persist_hook (nkMessageId req)
              (nkRequeue req) (eNow e) q (bStorage b);
            finish_nack e queueName res (put_queue queueName q' st b)
          })"

definition HandleExtendVisibility :: "env \<Rightarrow> string \<Rightarrow> u32 \<Rightarrow> string \<Rightarrow> 's Broker \<Rightarrow> (time \<times> bool) \<times> 's Broker" where
  "HandleExtendVisibility e messageId extensionSeconds queueName b =
     (case GetQueue queueName b of
        None \<Rightarrow> ((zero_time, False), b)
      | Some q \<Rightarrow>
          (case ExtendVisibility messageId (uint extensionSeconds * second) (eNow e) q of
             (newVisibleAt, q') \<Rightarrow>
               ((if newVisibleAt = zero_time then (zero_time, False) else (newVisibleAt, True)),
                b\<lparr>bQueues := gm_set (bQueues b) queueName q'\<rparr>)))"

definition HandleHeartbeat :: "env \<Rightarrow> string \<Rightarrow> string \<Rightarrow> string \<Rightarrow> 's Broker \<Rightarrow> bool \<times> 's Broker" where
  "HandleHeartbeat e queueName groupName memberID b =
     (case GetQueue queueName b of
        None \<Rightarrow> (False, b)
      | Some q \<Rightarrow>
          (case GetGroup groupName q of
             None \<Rightarrow> (False, b)
           | Some g \<Rightarrow>
               (case Heartbeat memberID (eNow e) g of
                  (ok, g') \<Rightarrow> (ok, b\<lparr>bQueues := gm_set (bQueues b) queueName (q\<lparr>qGroups := gm_set (qGroups q) groupName g'\<rparr>)\<rparr>))))"

definition leave_group :: "env \<Rightarrow> string \<Rightarrow> string \<Rightarrow> ConsumerGroup \<Rightarrow> Queue \<Rightarrow> Queue go" where
  \<comment> \<open>\<open>if g.RemoveMember(memberID) { q.RemoveGroup(groupName) }\<close>\<close>
  "leave_group e groupName memberID g q =
     map_option (\<lambda>(empty, g'). let q1 = q\<lparr>qGroups := gm_set (qGroups q) groupName g'\<rparr>
                   in if empty then RemoveGroup groupName q1 else q1)
       (RemoveMember (roEntries (eOrders e)) memberID (eNow e) g)"

definition HandleUnsubscribe :: "env \<Rightarrow> string \<Rightarrow> string \<Rightarrow> string \<Rightarrow> nat option \<Rightarrow> 's Broker \<Rightarrow> (bool \<times> 's Broker) go" where
  "HandleUnsubscribe e queueName groupName memberID msgCh b =
     (case GetQueue queueName b of
        None \<Rightarrow> Some (False, b)
      | Some q \<Rightarrow>
          if groupName \<noteq> [] then
            (case GetGroup groupName q of
               None \<Rightarrow> Some (False, b)
             | Some g \<Rightarrow> map_option (\<lambda>q'. (True, b\<lparr>bQueues := gm_set (bQueues b) queueName q'\<rparr>)) (leave_group e groupName memberID g q))
          else (case msgCh of
                  Some ch \<Rightarrow> Some (True, b\<lparr>bQueues := gm_set (bQueues b) queueName (RemoveConsumer ch q)\<rparr>)
                | None \<Rightarrow> Some (False, b)))"

section \<open>Wire messages\<close>

record ProtoMessage =
  pmMessageId :: string
  pmQueue :: string
  pmPayload :: bytes
  pmHeaders :: "(string, string) gomap"
  pmAttempt :: u32
  pmPublishedAt :: int
  pmOrderingKey :: string

definition MessageToProto :: "message \<Rightarrow> ProtoMessage" where
  "MessageToProto msg =
     \<lparr>pmMessageId = mID msg, pmQueue = mQueue msg, pmPayload = mPayload msg, pmHeaders = mHeaders msg,
      pmAttempt = mAttempt msg, pmPublishedAt = unix_milli (mPublishedAt msg), pmOrderingKey = mOrderingKey msg\<rparr>"

record ProtoStreamMessage =
  psMessageId :: string
  psQueue :: string
  psPayload :: bytes
  psHeaders :: "(string, string) gomap"
  psSequence :: u64
  psPublishedAt :: int

definition StreamMessageToProto :: "message \<Rightarrow> ProtoStreamMessage" where
  "StreamMessageToProto msg =
     \<lparr>psMessageId = mID msg, psQueue = mQueue msg, psPayload = mPayload msg, psHeaders = mHeaders msg,
      psSequence = mSequence msg, psPublishedAt = unix_milli (mPublishedAt msg)\<rparr>"

section \<open>Streams\<close>

definition stream_message :: "env \<Rightarrow> PublishRequest \<Rightarrow> message" where
  \<comment> \<open>without a visibility time and without the ordering key\<close>
  "stream_message e req = (published_message e req)\<lparr>mVisibleAt := zero_time, mOrderingKey := []\<rparr>"

definition HandleStreamPublish :: "env \<Rightarrow> PublishRequest \<Rightarrow> 's Broker \<Rightarrow> ((error + string \<times> u64) \<times> 's Broker) go" where
  "HandleStreamPublish e req b =
     (case check_memory (length (prPayload req)) b of
        Some err \<Rightarrow> Some (Inl err, b)
      | None \<Rightarrow>
          (case check_dedup (prIdempotencyKey req) (eNow e) b of
             (Some err, b1) \<Rightarrow> Some (Inl err, b1)
           | (None, b1) \<Rightarrow>
               (case GetOrCreateStreamQueueWithError (prQueue req) b1 of
                  (Some err, b2) \<Rightarrow> Some (Inl err, b2)
                | (None, b2) \<Rightarrow>
                    (case GetStreamQueue (prQueue req) b2 of
                       None \<Rightarrow> None
                     | Some sq \<Rightarrow>
                         (case sqPublish (stream_message e req) sq (stream_handle b2) of
                            ((seq, err), sq', h) \<Rightarrow>
                              (let b3 = put_handle h (b2\<lparr>bStreamQueues := gm_set (bStreamQueues b2) (prQueue req) sq'\<rparr>)
                               in case err of
                                    Some er \<Rightarrow> Some (Inl er, b3)
                                  | None \<Rightarrow> Some (Inr (mID (stream_message e req), seq), b3)))))))"

definition seek_offset :: "SeekRequest \<Rightarrow> StreamQueue \<Rightarrow> 's stream_handle \<Rightarrow> error + u64" where
  "seek_offset req sq h =
     (case skPosition req of
        SEEK_BEGINNING \<Rightarrow> Inr 1
      | SEEK_END \<Rightarrow> Inr (NextSequence sq)
      | SEEK_OFFSET \<Rightarrow> Inr (skOffset req)
      | SEEK_TIMESTAMP \<Rightarrow>
          (case h of
             None \<Rightarrow> Inr 0
           | Some (ops, s) \<Rightarrow>
               (case soGetStreamMessageByTimestamp ops (sqName sq) (skTimestamp req) s of
                  (_, Some err) \<Rightarrow> Inl err
                | (ts, None) \<Rightarrow> Inr (if ts = 0 then NextSequence sq else ts)))
      | SEEK_UNKNOWN _ \<Rightarrow> Inr 0)"

definition HandleSeek :: "SeekRequest \<Rightarrow> 's Broker \<Rightarrow> ((error + u64) \<times> nat option) \<times> 's Broker" where
  \<comment> \<open>also says for which consumer channel a delivery goroutine starts\<close>
  "HandleSeek req b =
     (case GetStreamQueue (skQueue req) b of
        None \<Rightarrow> ((Inl ErrQueueFull, None), b)
      | Some sq \<Rightarrow>
          (case seek_offset req sq (stream_handle b) of
             Inl err \<Rightarrow> ((Inl err, None), b)
           | Inr offset \<Rightarrow>
               (case sqSeek (skGroup req) offset sq of
                  (spawn, sq') \<Rightarrow>
                    ((Inr offset, spawn), b\<lparr>bStreamQueues := gm_set (bStreamQueues b) (skQueue req) sq'\<rparr>))))"

definition HandleCommitOffset :: "string \<Rightarrow> string \<Rightarrow> u64 \<Rightarrow> 's Broker \<Rightarrow> error option \<times> 's Broker" where
  "HandleCommitOffset queueName grp offset b =
     (case GetStreamQueue queueName b of
        None \<Rightarrow> (Some ErrQueueFull, b)
      | Some sq \<Rightarrow> (case CommitOffset grp offset sq (stream_handle b) of (err, h) \<Rightarrow> (err, put_handle h b)))"

section \<open>Dead letters\<close>

definition PurgeQueue :: "string \<Rightarrow> 's Broker \<Rightarrow> ((nat \<times> error option) \<times> 's Broker) go" where
  "PurgeQueue name b =
     (case GetQueue name b of
        None \<Rightarrow> Some ((0, None), b)
      | Some q \<Rightarrow>
          (case bStorage b of
             None \<Rightarrow> (case Purge q of (n, q') \<Rightarrow> Some ((n, None), put_queue name q' None b))
           | Some (ops, s) \<Rightarrow> do {
               (s', err) \<leftarrow> soDeleteQueueMessages ops name s;
               (case err of
                  Some er \<Rightarrow> Some ((0, Some er), b\<lparr>bStorage := Some (ops, s')\<rparr>)
                | None \<Rightarrow> (case Purge q of (n, q') \<Rightarrow> Some ((n, None), put_queue name q' (Some (ops, s')) b)))
             }))"

definition retry_store :: "string \<Rightarrow> string \<Rightarrow> message \<Rightarrow> message \<Rightarrow> 's Broker \<Rightarrow> error option \<times> 's Broker" where
  \<comment> \<open>the durable half of one retry: save the copy, delete the dead letter, undo the first when the second fails\<close>
  "retry_store name dlqName msg msgCopy b =
     (case on_storage (\<lambda>ops. soSaveMessage ops msgCopy) b of
        (b1, Some err) \<Rightarrow> (Some err, b1)
      | (b1, None) \<Rightarrow>
          (case on_storage (\<lambda>ops. soDeleteMessage ops dlqName (mID msg)) b1 of
             (b2, None) \<Rightarrow> (None, b2)
           | (b2, Some err) \<Rightarrow>
               (case on_storage (\<lambda>ops. soDeleteMessage ops name (mID msgCopy)) b2 of
                  (b3, Some rbErr) \<Rightarrow> (Some (ErrRollback ''delete'' err rbErr), b3)
                | (b3, None) \<Rightarrow> (Some err, b3))))"

definition retry_undo :: "string \<Rightarrow> message \<Rightarrow> message \<Rightarrow> error \<Rightarrow> 's Broker \<Rightarrow> error \<times> 's Broker" where
  \<comment> \<open>the queue refused the copy: the dead letter is saved again, then the copy deleted\<close>
  "retry_undo name msg msgCopy err b =
     (case on_storage (\<lambda>ops. soSaveMessage ops msg) b of
        (b1, Some rbErr) \<Rightarrow> (ErrRollback ''restore'' err rbErr, b1)
      | (b1, None) \<Rightarrow>
          (case on_storage (\<lambda>ops. soDeleteMessage ops name (mID msgCopy)) b1 of
             (b2, Some rbErr) \<Rightarrow> (ErrRollback ''rollback'' err rbErr, b2)
           | (b2, None) \<Rightarrow> (err, b2)))"

fun retry_loop :: "env \<Rightarrow> string \<Rightarrow> message list \<Rightarrow> nat \<Rightarrow> 's Broker \<Rightarrow> ((nat \<times> error option) \<times> 's Broker) go" where
  \<comment> \<open>over the pending dead letters, which leave their queue one by one\<close>
  "retry_loop e name [] retried b = Some ((retried, None), b)"
| "retry_loop e name (msg # msgs) retried b =
     (let dlqName = DLQName name;
          msgCopy = msg\<lparr>mQueue := name, mAttempt := 0, mVisibleAt := eNow e\<rparr>
      in case retry_store name dlqName msg msgCopy b of
           (Some err, b1) \<Rightarrow> Some ((retried, Some err), b1)
         | (None, b1) \<Rightarrow> do {
             (err, b2) \<leftarrow> on_queue name (Enqueue (eOrders e) msgCopy (eNow e)) b1;
             (case err of
                Some er \<Rightarrow> (case retry_undo name msg msgCopy er b2 of (er', b3) \<Rightarrow> Some ((retried, Some er'), b3))
              | None \<Rightarrow> do {
                  (_, b3) \<leftarrow> on_queue dlqName (\<lambda>q. Some ((), q\<lparr>qMessages := msgs\<rparr>)) b2;
                  retry_loop e name msgs (retried + 1) b3
                })
           })"

definition RetryDLQ :: "env \<Rightarrow> string \<Rightarrow> 's Broker \<Rightarrow> ((nat \<times> error option) \<times> 's Broker) go" where
  "RetryDLQ e name b =
     (case GetQueue (DLQName name) b of
        None \<Rightarrow> Some ((0, None), b)
      | Some dlq \<Rightarrow> retry_loop e name (qMessages dlq) 0 (GetOrCreateQueue name b))"

end
