(* ===== verification/Call.thy ===== *)
theory Call
  imports Handlers Queue_Content
begin

text \<open>
  Request and reply, \<open>internal/broker/call.go\<close>. A connection that makes calls owns a reply queue and a
  \<open>CallManager\<close>, which maps the correlation id of each call in progress to the channel its caller waits
  on. A reply channel has room for one message and is closed after at most one send.

  \<open>Call\<close> blocks, so it is split where it waits: \<open>call_start\<close> runs up to the wait, \<open>call_finish\<close> is the
  wake-up by a reply, by the closing of the channel or by the timeout.
\<close>

definition ReplyQueuePrefix :: string where "ReplyQueuePrefix = ''_reply.''"
definition DefaultCallTimeout :: duration where "DefaultCallTimeout = 30 * second"
definition replyQueueSize :: int where "replyQueueSize = 1000"
definition millisecond :: duration where "millisecond = 1000000"

record reply_chan =
  rcBuf :: "message option"
  rcClosed :: bool

record CallManager =
  cmPending :: "(string, nat) gomap option"  \<comment> \<open>\<open>None\<close> is the nil map after \<open>Close\<close>\<close>
  cmChans :: "(nat, reply_chan) gomap"
  cmReplyQ :: string
  cmConsumer :: nat
  cmDone :: bool

record CallRequest =
  caQueue :: string
  caPayload :: bytes
  caHeaders :: "(string, string) gomap"
  caTimeoutMs :: u32

record CallResponse =
  csPayload :: bytes
  csHeaders :: "(string, string) gomap"

definition NewCallManager :: "env \<Rightarrow> string \<Rightarrow> 's Broker \<Rightarrow> (CallManager \<times> 's Broker) go" where
  "NewCallManager e connID b =
     (let replyQ = ReplyQueuePrefix @ connID;
          b1 = GetOrCreateQueue replyQ b
      in map_option (\<lambda>(_, b2). (\<lparr>cmPending = Some [], cmChans = [], cmReplyQ = replyQ, cmConsumer = eChan e, cmDone = False\<rparr>, b2))
           (on_queue replyQ (\<lambda>q. map_option (Pair ())
              (Dequeue (eChan e) (60 * second) (eNow e) (SetMaxSize replyQueueSize q))) b1))"

definition pending :: "CallManager \<Rightarrow> (string, nat) gomap" where
  "pending cm = (case cmPending cm of None \<Rightarrow> [] | Some m \<Rightarrow> m)"

definition correlation_id :: "message \<Rightarrow> string" where
  "correlation_id msg = (case gm_get (mHeaders msg) ''correlation_id'' of None \<Rightarrow> [] | Some c \<Rightarrow> c)"

definition send_reply :: "nat \<Rightarrow> message \<Rightarrow> CallManager \<Rightarrow> CallManager go" where
  \<comment> \<open>the non-blocking send and the \<open>close\<close>; both panic on a closed channel\<close>
  "send_reply ch msg cm =
     (case gm_get (cmChans cm) ch of
        None \<Rightarrow> None
      | Some c \<Rightarrow>
          if rcClosed c then None
          else Some (cm\<lparr>cmChans := gm_set (cmChans cm) ch
                 \<lparr>rcBuf = (if rcBuf c = None then Some msg else rcBuf c), rcClosed = True\<rparr>\<rparr>))"

definition handleReply :: "env \<Rightarrow> message \<Rightarrow> CallManager \<Rightarrow> 's Broker \<Rightarrow> (CallManager \<times> 's Broker) go" where
  "handleReply e msg cm b =
     (if correlation_id msg = [] then Some (cm, b)
      else do {
        cm' \<leftarrow> (case gm_get (pending cm) (correlation_id msg) of
                  None \<Rightarrow> Some cm
                | Some ch \<Rightarrow> send_reply ch msg (cm\<lparr>cmPending := map_option (\<lambda>m. gm_del m (correlation_id msg)) (cmPending cm)\<rparr>));
        (case GetQueue (cmReplyQ cm) b of
           None \<Rightarrow> Some (cm', b)
         | Some q \<Rightarrow> do {
             (ok, q') \<leftarrow> Ack (mID msg) (eNow e) q;
             Some (cm', b\<lparr>bQueues := gm_set (bQueues b) (cmReplyQ cm) q'\<rparr>)
           })
      })"

definition call_timeout :: "CallRequest \<Rightarrow> duration" where
  "call_timeout req = (if caTimeoutMs req > 0 then uint (caTimeoutMs req) * millisecond else DefaultCallTimeout)"

definition call_request :: "string \<Rightarrow> CallRequest \<Rightarrow> CallManager \<Rightarrow> PublishRequest" where
  \<comment> \<open>the headers are a copy of the caller's with the two routing headers set over them\<close>
  "call_request correlationID req cm =
     \<lparr>prQueue = caQueue req, prPayload = caPayload req,
      prHeaders = gm_set (gm_set (caHeaders req) ''reply_to'' (cmReplyQ cm)) ''correlation_id'' correlationID,
      prMessageId = [], prIdempotencyKey = [], prOrderingKey = []\<rparr>"

definition drop_pending :: "string \<Rightarrow> CallManager \<Rightarrow> CallManager" where
  \<comment> \<open>the deferred \<open>delete(cm.pending, correlationID)\<close>, which a nil map allows\<close>
  "drop_pending correlationID cm = cm\<lparr>cmPending := map_option (\<lambda>m. gm_del m correlationID) (cmPending cm)\<rparr>"

definition call_start :: "env \<Rightarrow> string \<Rightarrow> nat \<Rightarrow> CallRequest \<Rightarrow> CallManager \<Rightarrow> 's Broker
    \<Rightarrow> (error option \<times> CallManager \<times> 's Broker) go" where
  \<comment> \<open>up to the wait; \<open>correlationID\<close> and \<open>replyCh\<close> are fresh. Writing to the nil map panics.\<close>
  "call_start e correlationID replyCh req cm b =
     (case cmPending cm of
        None \<Rightarrow> None
      | Some m \<Rightarrow> do {
          let cm1 = cm\<lparr>cmPending := Some (gm_set m correlationID replyCh),
                       cmChans := gm_set (cmChans cm) replyCh \<lparr>rcBuf = None, rcClosed = False\<rparr>\<rparr>;
          (res, b') \<leftarrow> HandlePublish e (call_request correlationID req cm1) b;
          (case res of
             Inl err \<Rightarrow> Some (Some err, drop_pending correlationID cm1, b')
           | Inr _ \<Rightarrow> Some (None, cm1, b'))
        })"

datatype wakeup = WReply | WTimeout

definition call_finish :: "wakeup \<Rightarrow> string \<Rightarrow> nat \<Rightarrow> CallManager \<Rightarrow> ((error + CallResponse) \<times> CallManager) option go" where
  \<comment> \<open>\<open>Some None\<close>: not ready, the call goes on waiting. A receive from a channel that was closed without a
    message gives a nil reply, whose fields the code reads.\<close>
  "call_finish w correlationID replyCh cm =
     (case w of
        WTimeout \<Rightarrow> Some (Some (Inl ErrCallTimeout, drop_pending correlationID cm))
      | WReply \<Rightarrow>
          (case gm_get (cmChans cm) replyCh of
             None \<Rightarrow> Some None
           | Some c \<Rightarrow>
               (case rcBuf c of
                  Some reply \<Rightarrow>
                    Some (Some (Inr \<lparr>csPayload = mPayload reply, csHeaders = mHeaders reply\<rparr>,
                      drop_pending correlationID (cm\<lparr>cmChans := gm_set (cmChans cm) replyCh (c\<lparr>rcBuf := None\<rparr>)\<rparr>)))
                | None \<Rightarrow> if rcClosed c then None else Some None)))"

definition close_chan :: "(nat, reply_chan) gomap \<Rightarrow> nat \<Rightarrow> (nat, reply_chan) gomap" where
  "close_chan chans ch = gm_set chans ch (case gm_get chans ch of
     None \<Rightarrow> \<lparr>rcBuf = None, rcClosed = True\<rparr> | Some c \<Rightarrow> c\<lparr>rcClosed := True\<rparr>)"

definition cmClose :: "CallManager \<Rightarrow> CallManager go" where
  "cmClose cm =
     (if cmDone cm then None
      else Some (cm\<lparr>cmDone := True, cmChans := foldl close_chan (cmChans cm) (map snd (pending cm)), cmPending := None\<rparr>))"

definition ReplyQueue :: "CallManager \<Rightarrow> string" where
  "ReplyQueue cm = cmReplyQ cm"

section \<open>Runs of a call manager\<close>

text \<open>
  The events of one manager: a call starts, a reply arrives on its queue, a call wakes up, the connection
  closes. A run keeps the calls that wait, and what each finished call returned together with the reply
  messages that had arrived by then.
\<close>

record 's call_sys =
  cyManager :: CallManager
  cyBroker :: "'s Broker"
  cyWaiting :: "(string \<times> nat) list"
  cyReplies :: "message list"
  cyReturned :: "(string \<times> (error + CallResponse)) list"

inductive call_step :: "'s call_sys \<Rightarrow> 's call_sys \<Rightarrow> bool" where
  start: "call_start e c ch req (cyManager y) (cyBroker y) = Some (err, cm, b) \<Longrightarrow>
      ch \<notin> snd ` set (cyWaiting y) \<union> snd ` set (pending (cyManager y)) \<Longrightarrow>
      call_step y (y\<lparr>cyManager := cm, cyBroker := b,
        cyWaiting := (if err = None then (c, ch) # cyWaiting y else cyWaiting y)\<rparr>)"
| reply: "handleReply e msg (cyManager y) (cyBroker y) = Some (cm, b) \<Longrightarrow>
      call_step y (y\<lparr>cyManager := cm, cyBroker := b, cyReplies := msg # cyReplies y\<rparr>)"
| wake: "(c, ch) \<in> set (cyWaiting y) \<Longrightarrow> call_finish w c ch (cyManager y) = Some (Some (res, cm)) \<Longrightarrow>
      call_step y (y\<lparr>cyManager := cm, cyWaiting := filter (\<lambda>x. x \<noteq> (c, ch)) (cyWaiting y),
        cyReturned := (c, res) # cyReturned y\<rparr>)"
| close: "cmClose (cyManager y) = Some cm \<Longrightarrow> call_step y (y\<lparr>cyManager := cm\<rparr>)"

definition answers :: "message list \<Rightarrow> string \<Rightarrow> CallResponse \<Rightarrow> bool" where
  "answers msgs c resp \<longleftrightarrow> (\<exists>m \<in> set msgs. correlation_id m = c \<and> csPayload resp = mPayload m \<and> csHeaders resp = mHeaders m)"

text \<open>Three facts hold in every state: a pending channel is waited on only by the call it was made for; a reply in
  the channel of a waiting call carries its correlation id; what was returned answers the call.\<close>

definition pend_ok :: "(string \<times> nat) set \<Rightarrow> (string \<times> nat) set \<Rightarrow> bool" where
  "pend_ok P W \<longleftrightarrow> (\<forall>c ch c'. (c, ch) \<in> P \<longrightarrow> (c', ch) \<in> W \<longrightarrow> c' = c)"

definition buf_ok :: "(string \<times> nat) set \<Rightarrow> (nat, reply_chan) gomap \<Rightarrow> message set \<Rightarrow> bool" where
  "buf_ok W chans R \<longleftrightarrow> (\<forall>c ch rc m. (c, ch) \<in> W \<longrightarrow> gm_get chans ch = Some rc \<longrightarrow> rcBuf rc = Some m \<longrightarrow>
     m \<in> R \<and> correlation_id m = c)"

definition ret_ok :: "(string \<times> (error + CallResponse)) set \<Rightarrow> message list \<Rightarrow> bool" where
  "ret_ok X msgs \<longleftrightarrow> (\<forall>c resp. (c, Inr resp) \<in> X \<longrightarrow> answers msgs c resp)"

definition call_inv :: "'s call_sys \<Rightarrow> bool" where
  "call_inv y \<longleftrightarrow> pend_ok (set (pending (cyManager y))) (set (cyWaiting y))
     \<and> buf_ok (set (cyWaiting y)) (cmChans (cyManager y)) (set (cyReplies y))
     \<and> ret_ok (set (cyReturned y)) (cyReplies y)"

lemma pend_ok_mono: "pend_ok P W \<Longrightarrow> P' \<subseteq> P \<Longrightarrow> W' \<subseteq> W \<Longrightarrow> pend_ok P' W'"
  unfolding pend_ok_def by blast

lemma buf_ok_mono: "buf_ok W chans R \<Longrightarrow> W' \<subseteq> W \<Longrightarrow> R \<subseteq> R' \<Longrightarrow> buf_ok W' chans R'"
  unfolding buf_ok_def by blast

lemma pend_ok_insert:
  "pend_ok P W \<Longrightarrow> \<forall>x. (x, ch) \<notin> P \<Longrightarrow> \<forall>x. (x, ch) \<notin> W \<Longrightarrow> pend_ok (insert (c, ch) P) (insert (c, ch) W)"
  unfolding pend_ok_def by blast

lemma buf_ok_insert:
  assumes "buf_ok W chans R" and "\<forall>x. (x, ch) \<notin> W"
  shows "buf_ok (insert (c, ch) W) (gm_set chans ch \<lparr>rcBuf = None, rcClosed = z\<rparr>) R"
  unfolding buf_ok_def
proof (intro allI impI)
  fix c' ch' rc m
  assume w: "(c', ch') \<in> insert (c, ch) W" and g: "gm_get (gm_set chans ch \<lparr>rcBuf = None, rcClosed = z\<rparr>) ch' = Some rc" "rcBuf rc = Some m"
  from g have "ch' \<noteq> ch" by auto
  with w g have "(c', ch') \<in> W" "gm_get chans ch' = Some rc" by simp_all
  then show "m \<in> R \<and> correlation_id m = c'" using assms(1) g(2) unfolding buf_ok_def by blast
qed

lemma buf_ok_reply:
  assumes "buf_ok W chans R" and "\<forall>c'. (c', ch) \<in> W \<longrightarrow> c' = correlation_id msg" and "gm_get chans ch = Some rc"
  shows "buf_ok W (gm_set chans ch \<lparr>rcBuf = (if rcBuf rc = None then Some msg else rcBuf rc), rcClosed = True\<rparr>) (insert msg R)"
  unfolding buf_ok_def
proof (intro allI impI)
  fix c' ch' rc' m
  assume w: "(c', ch') \<in> W" and g: "gm_get (gm_set chans ch \<lparr>rcBuf = (if rcBuf rc = None then Some msg else rcBuf rc), rcClosed = True\<rparr>) ch' = Some rc'"
    and m: "rcBuf rc' = Some m"
  show "m \<in> insert msg R \<and> correlation_id m = c'"
  proof (cases "ch' = ch \<and> rcBuf rc = None")
    case True
    then show ?thesis using g m w assms(2) by auto
  next
    case False
    then have "\<exists>rc0. gm_get chans ch' = Some rc0 \<and> rcBuf rc0 = Some m" using g m assms(3) by (auto split: if_splits)
    then show ?thesis using assms(1) w unfolding buf_ok_def by blast
  qed
qed

lemma close_chan_buf:
  "gm_get (foldl close_chan chans cs) ch = Some rc \<Longrightarrow> rcBuf rc = Some m \<Longrightarrow>
     \<exists>rc0. gm_get chans ch = Some rc0 \<and> rcBuf rc0 = Some m"
proof (induction cs arbitrary: chans)
  case (Cons c cs)
  then obtain rc1 where "gm_get (close_chan chans c) ch = Some rc1" "rcBuf rc1 = Some m" by fastforce
  then show ?case by (cases "ch = c"; cases "gm_get chans c") (auto simp: close_chan_def)
qed simp

lemma pending_drop: "set (pending (drop_pending c cm)) \<subseteq> set (pending cm)"
  by (auto simp: pending_def drop_pending_def AList.delete_eq split: option.splits)

lemma answers_mono: "answers ms c resp \<Longrightarrow> set ms \<subseteq> set ms' \<Longrightarrow> answers ms' c resp"
  by (auto simp: answers_def)

lemma call_inv_start:
  assumes "call_inv y" and "call_start e c ch req (cyManager y) (cyBroker y) = Some (err, cm, b)"
    and "ch \<notin> snd ` set (cyWaiting y) \<union> snd ` set (pending (cyManager y))"
  shows "call_inv (y\<lparr>cyManager := cm, cyBroker := b, cyWaiting := (if err = None then (c, ch) # cyWaiting y else cyWaiting y)\<rparr>)"
proof -
  from assms(2) obtain m where m: "cmPending (cyManager y) = Some m" by (cases "cmPending (cyManager y)") (auto simp: call_start_def)
  let ?cm1 = "(cyManager y)\<lparr>cmPending := Some (gm_set m c ch),
    cmChans := gm_set (cmChans (cyManager y)) ch \<lparr>rcBuf = None, rcClosed = False\<rparr>\<rparr>"
  have cm: "cm = ?cm1 \<or> cm = drop_pending c ?cm1"
    using assms(2) m by (auto simp: call_start_def Let_def split: bind_splits sum.splits prod.splits)
  have "set (pending ?cm1) \<subseteq> insert (c, ch) (set (pending (cyManager y)))"
    using gm_set_subset [where m = m and k = c and v = ch] m by (simp add: pending_def)
  then have p: "set (pending cm) \<subseteq> insert (c, ch) (set (pending (cyManager y)))" using cm pending_drop by blast
  have chans: "cmChans cm = cmChans ?cm1" using cm by (auto simp: drop_pending_def)
  let ?W = "insert (c, ch) (set (cyWaiting y))"
  have inv: "pend_ok (set (pending (cyManager y))) (set (cyWaiting y))" "ret_ok (set (cyReturned y)) (cyReplies y)"
    "buf_ok (set (cyWaiting y)) (cmChans (cyManager y)) (set (cyReplies y))" using assms(1) by (simp_all add: call_inv_def)
  have fresh: "\<forall>x. (x, ch) \<notin> set (pending (cyManager y))" "\<forall>x. (x, ch) \<notin> set (cyWaiting y)"
    using assms(3) by (auto simp: image_iff)
  let ?W' = "set (if err = None then (c, ch) # cyWaiting y else cyWaiting y)"
  have W: "?W' \<subseteq> ?W" by auto
  have "pend_ok (set (pending cm)) ?W'" by (rule pend_ok_mono [OF pend_ok_insert [OF inv(1) fresh] p W])
  moreover have "buf_ok ?W' (cmChans cm) (set (cyReplies y))"
    using buf_ok_mono [OF buf_ok_insert [OF inv(3) fresh(2)] W order_refl] chans by simp
  ultimately show ?thesis using inv(2) by (simp add: call_inv_def)
qed

lemma call_inv_reply:
  assumes "call_inv y" and "handleReply e msg (cyManager y) (cyBroker y) = Some (cm, b)"
  shows "call_inv (y\<lparr>cyManager := cm, cyBroker := b, cyReplies := msg # cyReplies y\<rparr>)"
proof -
  let ?cm = "cyManager y"
  have inv: "pend_ok (set (pending ?cm)) (set (cyWaiting y))" "ret_ok (set (cyReturned y)) (cyReplies y)"
    "buf_ok (set (cyWaiting y)) (cmChans ?cm) (set (cyReplies y))" using assms(1) by (simp_all add: call_inv_def)
  have ret: "ret_ok (set (cyReturned y)) (msg # cyReplies y)"
    using inv(2) unfolding ret_ok_def answers_def by fastforce
  have "(pending cm = pending ?cm \<and> cmChans cm = cmChans ?cm) \<or>
    (\<exists>ch rc. (correlation_id msg, ch) \<in> set (pending ?cm) \<and> set (pending cm) \<subseteq> set (pending ?cm) \<and>
       gm_get (cmChans ?cm) ch = Some rc \<and>
       cmChans cm = gm_set (cmChans ?cm) ch \<lparr>rcBuf = (if rcBuf rc = None then Some msg else rcBuf rc), rcClosed = True\<rparr>)"
  proof (cases "correlation_id msg = [] \<or> gm_get (pending ?cm) (correlation_id msg) = None")
    case True
    then have "cm = ?cm"
      using assms(2) by (auto simp: handleReply_def split: if_splits option.splits bind_splits)
    then show ?thesis by simp
  next
    case False
    then obtain ch where ch: "gm_get (pending ?cm) (correlation_id msg) = Some ch" by blast
    let ?cm1 = "drop_pending (correlation_id msg) ?cm"
    have "send_reply ch msg ?cm1 = Some cm"
      using assms(2) False ch by (auto simp: handleReply_def drop_pending_def split: option.splits bind_splits)
    then obtain rc where "gm_get (cmChans ?cm) ch = Some rc" "pending cm = pending ?cm1"
      "cmChans cm = gm_set (cmChans ?cm) ch \<lparr>rcBuf = (if rcBuf rc = None then Some msg else rcBuf rc), rcClosed = True\<rparr>"
      by (auto simp: send_reply_def drop_pending_def pending_def split: option.splits if_splits)
    then show ?thesis using pending_drop map_of_SomeD [OF ch] by metis
  qed
  then show ?thesis
  proof (elim disjE exE conjE)
    assume "pending cm = pending ?cm" "cmChans cm = cmChans ?cm"
    then show ?thesis using inv ret buf_ok_mono [OF inv(3) order_refl] by (simp add: call_inv_def subset_insertI)
  next
    fix ch rc
    assume p: "(correlation_id msg, ch) \<in> set (pending ?cm)" "set (pending cm) \<subseteq> set (pending ?cm)"
      and g: "gm_get (cmChans ?cm) ch = Some rc"
      and c: "cmChans cm = gm_set (cmChans ?cm) ch \<lparr>rcBuf = (if rcBuf rc = None then Some msg else rcBuf rc), rcClosed = True\<rparr>"
    have "\<forall>c'. (c', ch) \<in> set (cyWaiting y) \<longrightarrow> c' = correlation_id msg"
      using inv(1) p(1) unfolding pend_ok_def by blast
    then have "buf_ok (set (cyWaiting y)) (cmChans cm) (set (msg # cyReplies y))"
      using buf_ok_reply [OF inv(3) _ g] unfolding c by simp
    then show ?thesis
      using pend_ok_mono [OF inv(1) p(2) order_refl] ret by (simp add: call_inv_def)
  qed
qed

lemma call_inv_wake:
  assumes "call_inv y" and "(c, ch) \<in> set (cyWaiting y)" and "call_finish w c ch (cyManager y) = Some (Some (res, cm))"
  shows "call_inv (y\<lparr>cyManager := cm, cyWaiting := filter (\<lambda>x. x \<noteq> (c, ch)) (cyWaiting y), cyReturned := (c, res) # cyReturned y\<rparr>)"
proof -
  let ?cm = "cyManager y"
  have "set (pending cm) \<subseteq> set (pending ?cm) \<and> (\<forall>ch' rc m. gm_get (cmChans cm) ch' = Some rc \<longrightarrow> rcBuf rc = Some m \<longrightarrow>
      gm_get (cmChans ?cm) ch' = Some rc) \<and> (\<forall>resp. res = Inr resp \<longrightarrow> answers (cyReplies y) c resp)"
  proof (cases w)
    case WTimeout
    then show ?thesis using assms(3) pending_drop [of c ?cm] by (auto simp: call_finish_def drop_pending_def)
  next
    case WReply
    then obtain rc m where r: "gm_get (cmChans ?cm) ch = Some rc" "rcBuf rc = Some m"
      and res: "res = Inr \<lparr>csPayload = mPayload m, csHeaders = mHeaders m\<rparr>"
      and cm: "cm = drop_pending c (?cm\<lparr>cmChans := gm_set (cmChans ?cm) ch (rc\<lparr>rcBuf := None\<rparr>)\<rparr>)"
      using assms(3) by (auto simp: call_finish_def split: option.splits if_splits)
    have "m \<in> set (cyReplies y) \<and> correlation_id m = c"
      using assms(1,2) r unfolding call_inv_def buf_ok_def by blast
    moreover have "set (pending cm) \<subseteq> set (pending ?cm)"
      using pending_drop [of c "?cm\<lparr>cmChans := gm_set (cmChans ?cm) ch (rc\<lparr>rcBuf := None\<rparr>)\<rparr>"] by (simp add: cm pending_def)
    ultimately show ?thesis by (auto simp: res cm drop_pending_def answers_def split: if_splits)
  qed
  then show ?thesis
    using assms(1) unfolding call_inv_def pend_ok_def buf_ok_def ret_ok_def by (simp, blast)
qed

lemma call_inv_close:
  assumes "call_inv y" and "cmClose (cyManager y) = Some cm"
  shows "call_inv (y\<lparr>cyManager := cm\<rparr>)"
proof -
  have cm: "pending cm = []" "cmChans cm = foldl close_chan (cmChans (cyManager y)) (map snd (pending (cyManager y)))"
    using assms(2) by (auto simp: cmClose_def pending_def split: if_splits)
  have "buf_ok (set (cyWaiting y)) (cmChans cm) (set (cyReplies y))"
    using assms(1) close_chan_buf unfolding call_inv_def buf_ok_def cm(2) by metis
  then show ?thesis using assms(1) cm(1) by (simp add: call_inv_def pend_ok_def)
qed

lemma call_run_inv: "call_step\<^sup>*\<^sup>* x y \<Longrightarrow> call_inv x \<Longrightarrow> call_inv y"
proof (induction rule: rtranclp_induct)
  case (step y z)
  from step(2) show ?case
  proof cases
    case start
    then show ?thesis using call_inv_start step by blast
  qed (use call_inv_reply call_inv_wake call_inv_close step in blast)+
qed

section \<open>Properties\<close>

text \<open>C9. A call gets its own reply: whatever calls, replies, timeouts and shutdowns happen on a connection, in any order,
  the response that a call returns is the payload and the headers of a message that arrived on the reply queue
  with the correlation id of that call.\<close>

theorem call_returns_its_reply:
  assumes "NewCallManager e connID b0 = Some (cm, b)"
    and "call_step\<^sup>*\<^sup>* \<lparr>cyManager = cm, cyBroker = b, cyWaiting = [], cyReplies = [], cyReturned = []\<rparr> y"
    and "(c, Inr resp) \<in> set (cyReturned y)"
  shows "\<exists>m \<in> set (cyReplies y). correlation_id m = c \<and> csPayload resp = mPayload m \<and> csHeaders resp = mHeaders m"
proof -
  have "call_inv \<lparr>cyManager = cm, cyBroker = b, cyWaiting = [], cyReplies = [], cyReturned = []\<rparr>"
    using assms(1) by (auto simp: NewCallManager_def pending_def call_inv_def pend_ok_def buf_ok_def ret_ok_def Let_def)
  from call_run_inv [OF assms(2) this] assms(3) show ?thesis
    unfolding call_inv_def ret_ok_def answers_def by blast
qed

definition plain_env :: "time \<Rightarrow> string \<Rightarrow> nat \<Rightarrow> env" where
  "plain_env now ulid ch = \<lparr>eNow = now, eULID = ulid, eChan = ch,
     eOrders = \<lparr>roInFlight = \<lambda>xs. xs, roGroups = \<lambda>xs. xs, roEntries = \<lambda>xs. xs\<rparr>,
     eQueues = \<lambda>xs. xs, eStreams = \<lambda>xs. xs, eConfigs = \<lambda>xs. xs\<rparr>"

lemma env_ok_plain [simp]: "env_ok (plain_env now ulid ch)"
  by (simp add: env_ok_def plain_env_def orders_ok_def)

definition call_demo_req :: CallRequest where
  "call_demo_req = \<lparr>caQueue = ''jobs'', caPayload = [1], caHeaders = [], caTimeoutMs = 0\<rparr>"

definition call_demo_reply :: message where
  "call_demo_reply = \<lparr>mID = ''r'', mQueue = ''_reply.a'', mPayload = [2], mHeaders = [(''correlation_id'', ''c'')], mAttempt = 1,
     mPublishedAt = 0, mVisibleAt = 0, mOrderingKey = [], mSequence = 0\<rparr>"

definition call_demo0 :: "CallManager \<times> unit Broker" where
  "call_demo0 = the (NewCallManager (plain_env 0 [] 1) ''a'' (NewBroker [] 0))"

definition call_demo1 :: "CallManager \<times> unit Broker" where
  "call_demo1 = snd (the (call_start (plain_env 0 ''m'' 2) ''c'' 5 call_demo_req (fst call_demo0) (snd call_demo0)))"

definition call_demo2 :: "CallManager \<times> unit Broker" where
  "call_demo2 = the (handleReply (plain_env 0 [] 3) call_demo_reply (fst call_demo1) (snd call_demo1))"

lemma some_the: "\<not> Option.is_none x \<Longrightarrow> x = Some (the x)"
  by (cases x) simp_all

lemma some_fst_snd: "map_option fst x = Some a \<Longrightarrow> x = Some (a, snd (the x))"
  by (cases x) auto

lemma some_some_fst: "map_option (map_option fst) x = Some (Some a) \<Longrightarrow> x = Some (Some (a, snd (the (the x))))"
  by auto

lemma call_demo_steps:
  "NewCallManager (plain_env 0 [] 1) ''a'' (NewBroker [] 0) = Some call_demo0"
  "call_start (plain_env 0 ''m'' 2) ''c'' 5 call_demo_req (fst call_demo0) (snd call_demo0) = Some (None, call_demo1)"
  "handleReply (plain_env 0 [] 3) call_demo_reply (fst call_demo1) (snd call_demo1) = Some call_demo2"
proof -
  show "NewCallManager (plain_env 0 [] 1) ''a'' (NewBroker [] 0) = Some call_demo0"
    unfolding call_demo0_def by (rule some_the) code_simp
  show "call_start (plain_env 0 ''m'' 2) ''c'' 5 call_demo_req (fst call_demo0) (snd call_demo0) = Some (None, call_demo1)"
    unfolding call_demo1_def by (rule some_fst_snd) code_simp
  show "handleReply (plain_env 0 [] 3) call_demo_reply (fst call_demo1) (snd call_demo1) = Some call_demo2"
    unfolding call_demo2_def by (rule some_the) code_simp
qed

definition call_demo3 :: "unit call_sys" where
  "call_demo3 = \<lparr>cyManager = snd (the (the (call_finish WReply ''c'' 5 (fst call_demo2)))), cyBroker = snd call_demo2, cyWaiting = [],
     cyReplies = [call_demo_reply], cyReturned = [(''c'', Inr \<lparr>csPayload = [2], csHeaders = [(''correlation_id'', ''c'')]\<rparr>)]\<rparr>"

lemma call_demo_run:
  "call_step\<^sup>*\<^sup>* \<lparr>cyManager = fst call_demo0, cyBroker = snd call_demo0, cyWaiting = [], cyReplies = [], cyReturned = []\<rparr> call_demo3"
proof -
  let ?y0 = "\<lparr>cyManager = fst call_demo0, cyBroker = snd call_demo0, cyWaiting = [], cyReplies = [], cyReturned = []\<rparr> :: unit call_sys"
  let ?y1 = "?y0\<lparr>cyManager := fst call_demo1, cyBroker := snd call_demo1, cyWaiting := [(''c'', 5)]\<rparr>"
  let ?y2 = "?y1\<lparr>cyManager := fst call_demo2, cyBroker := snd call_demo2, cyReplies := [call_demo_reply]\<rparr>"
  have "pending (fst call_demo0) = []" by code_simp
  then have s1: "call_step ?y0 ?y1"
    using call_step.start [of "plain_env 0 ''m'' 2" "''c''" 5 call_demo_req ?y0 None "fst call_demo1" "snd call_demo1"] call_demo_steps(2) by simp
  have s2: "call_step ?y1 ?y2"
    using call_step.reply [of "plain_env 0 [] 3" call_demo_reply ?y1 "fst call_demo2" "snd call_demo2"] call_demo_steps(3) by simp
  have "map_option (map_option fst) (call_finish WReply ''c'' 5 (fst call_demo2))
      = Some (Some (Inr \<lparr>csPayload = [2], csHeaders = [(''correlation_id'', ''c'')]\<rparr>))" by code_simp
  note f = some_some_fst [OF this]
  obtain cm where cm: "cm = snd (the (the (call_finish WReply ''c'' 5 (fst call_demo2))))" by blast
  have "call_finish WReply ''c'' 5 (cyManager ?y2) = Some (Some (Inr \<lparr>csPayload = [2], csHeaders = [(''correlation_id'', ''c'')]\<rparr>, cm))"
    unfolding cm by (simp only: call_sys.simps) (rule f)
  moreover have "(''c'', 5) \<in> set (cyWaiting ?y2)" by simp
  ultimately have "call_step ?y2 (?y2\<lparr>cyManager := cm, cyWaiting := filter (\<lambda>x. x \<noteq> (''c'', 5)) (cyWaiting ?y2),
      cyReturned := (''c'', Inr \<lparr>csPayload = [2], csHeaders = [(''correlation_id'', ''c'')]\<rparr>) # cyReturned ?y2\<rparr>)"
    by (intro call_step.wake)
  then have s3: "call_step ?y2 call_demo3" by (simp add: call_demo3_def cm [symmetric])
  have "call_step\<^sup>*\<^sup>* ?y0 ?y1" by (rule r_into_rtranclp) (rule s1)
  moreover have "call_step\<^sup>*\<^sup>* ?y1 ?y2" by (rule r_into_rtranclp) (rule s2)
  ultimately have "call_step\<^sup>*\<^sup>* ?y0 ?y2" by (rule rtranclp_trans)
  moreover have "call_step\<^sup>*\<^sup>* ?y2 call_demo3" by (rule r_into_rtranclp) (rule s3)
  ultimately show ?thesis by (rule rtranclp_trans)
qed

theorem call_returns_its_reply_witness:
  "\<exists>m \<in> set (cyReplies call_demo3). correlation_id m = ''c'' \<and> mPayload m = [2]"
  using call_returns_its_reply [of "plain_env 0 [] 1" "''a''" "NewBroker [] 0" "fst call_demo0" "snd call_demo0" call_demo3 "''c''"
      "\<lparr>csPayload = [2], csHeaders = [(''correlation_id'', ''c'')]\<rparr>"] call_demo_steps(1) call_demo_run
  by (simp add: call_demo3_def)

text \<open>The reply is acknowledged on the queue and not through the broker, so its stored copy stays: a restart brings it
  back. A message without a correlation id is not acknowledged at all.\<close>

lemma reply_stays_stored: "handleReply e msg cm b = Some (cm', b') \<Longrightarrow> bStorage b' = bStorage b"
  by (auto simp: handleReply_def split: if_splits option.splits bind_splits)

lemma uncorrelated_reply_kept: "correlation_id msg = [] \<Longrightarrow> handleReply e msg cm b = Some (cm, b)"
  by (simp add: handleReply_def)

text \<open>A wake-up after \<open>Close\<close> reads from a channel that was closed without a message: the reply is nil.\<close>

lemma call_after_close_panics:
  assumes "cmClose cm = Some cm'" and "gm_get (pending cm) c = Some ch" and "gm_get (cmChans cm) ch = Some \<lparr>rcBuf = None, rcClosed = False\<rparr>"
  shows "call_finish WReply c ch cm' = None"
proof -
  have fold: "gm_get chans ch = Some \<lparr>rcBuf = None, rcClosed = z\<rparr> \<Longrightarrow> z \<or> ch \<in> set cs \<Longrightarrow>
      gm_get (foldl close_chan chans cs) ch = Some \<lparr>rcBuf = None, rcClosed = True\<rparr>" for cs chans z
  proof (induction cs arbitrary: chans z)
    case (Cons a cs)
    have "gm_get (close_chan chans a) ch = Some \<lparr>rcBuf = None, rcClosed = (z \<or> a = ch)\<rparr>"
      using Cons.prems(1) by (cases "a = ch") (simp_all add: close_chan_def)
    from Cons.IH [OF this] Cons.prems(2) show ?case by auto
  qed simp
  have "ch \<in> set (map snd (pending cm))" using map_of_SomeD [OF assms(2)] by force
  then show ?thesis using assms(1,3) fold [of "cmChans cm" False "map snd (pending cm)"]
    by (auto simp: cmClose_def call_finish_def split: if_splits)
qed

end
