(* ===== verification/Schema.thy ===== *)
theory Schema
  imports Prelude "HOL-Library.List_Lexorder" "HOL-Library.Char_ord"
begin

text \<open>
  The schema registry of \<open>internal/schema/schema.go\<close>: one schema per queue, with a version number
  that counts its registrations. The protobuf libraries are a parameter: parsing a descriptor set,
  resolving its files, finding a descriptor by name, whether that is a message, and whether a
  payload parses as a message.
\<close>

record ('f, 'g, 'x, 'd) proto_lib =
  plUnmarshalSet :: "bytes \<Rightarrow> 'f option"
  plNewFiles :: "'f \<Rightarrow> 'g option"
  plFind :: "'g \<Rightarrow> string \<Rightarrow> 'x option"
  plMessage :: "'x \<Rightarrow> 'd option"
  plUnmarshal :: "'d \<Rightarrow> bytes \<Rightarrow> string option"  \<comment> \<open>\<open>None\<close> when it parses, else the error\<close>

datatype schema_error =
    ErrSchemaNotFound
  | ErrInvalidDescriptor
  | ErrMessageTypeNotFound
  | ErrValidationFailed string

record 'd Schema =
  scQueue :: string
  scMessageType :: string
  scDescriptor :: bytes
  scVersion :: u32
  scCreatedAt :: time
  scMsgDesc :: 'd

record 'd Registry =
  rgSchemas :: "(string, 'd Schema) gomap"

definition NewRegistry :: "'d Registry" where
  "NewRegistry = \<lparr>rgSchemas = []\<rparr>"

definition parseDescriptor :: "('f, 'g, 'x, 'd) proto_lib \<Rightarrow> bytes \<Rightarrow> string \<Rightarrow> schema_error + 'd" where
  "parseDescriptor lib data messageType =
     (case plUnmarshalSet lib data of
        None \<Rightarrow> Inl ErrInvalidDescriptor
      | Some fds \<Rightarrow>
          (case plNewFiles lib fds of
             None \<Rightarrow> Inl ErrInvalidDescriptor
           | Some files \<Rightarrow>
               (case plFind lib files messageType of
                  None \<Rightarrow> Inl ErrMessageTypeNotFound
                | Some desc \<Rightarrow>
                    (case plMessage lib desc of
                       None \<Rightarrow> Inl ErrMessageTypeNotFound
                     | Some msgDesc \<Rightarrow> Inr msgDesc))))"

definition Register :: "('f, 'g, 'x, 'd) proto_lib \<Rightarrow> time \<Rightarrow> string \<Rightarrow> bytes \<Rightarrow> string \<Rightarrow> 'd Registry
    \<Rightarrow> (schema_error + u32) \<times> 'd Registry" where
  "Register lib now queue descriptor messageType r =
     (case parseDescriptor lib descriptor messageType of
        Inl e \<Rightarrow> (Inl e, r)
      | Inr msgDesc \<Rightarrow>
          (let version = (case gm_get (rgSchemas r) queue of Some existing \<Rightarrow> scVersion existing + 1 | None \<Rightarrow> 1)
           in (Inr version,
               r\<lparr>rgSchemas := gm_set (rgSchemas r) queue
                 \<lparr>scQueue = queue, scMessageType = messageType, scDescriptor = descriptor,
                  scVersion = version, scCreatedAt = now, scMsgDesc = msgDesc\<rparr>\<rparr>)))"

definition RGet :: "string \<Rightarrow> 'd Registry \<Rightarrow> schema_error + 'd Schema" where
  "RGet queue r = (case gm_get (rgSchemas r) queue of None \<Rightarrow> Inl ErrSchemaNotFound | Some s \<Rightarrow> Inr s)"

definition Validate :: "('f, 'g, 'x, 'd) proto_lib \<Rightarrow> string \<Rightarrow> bytes \<Rightarrow> 'd Registry \<Rightarrow> schema_error option" where
  "Validate lib queue payload r =
     (case gm_get (rgSchemas r) queue of
        None \<Rightarrow> None
      | Some schema \<Rightarrow>
          (case plUnmarshal lib (scMsgDesc schema) payload of
             Some err \<Rightarrow> Some (ErrValidationFailed err)
           | None \<Rightarrow> None))"

definition RList :: "((string \<times> 'd Schema) list \<Rightarrow> (string \<times> 'd Schema) list) \<Rightarrow> 'd Registry \<Rightarrow> string list" where
  "RList order r = sort (map fst (order (rgSchemas r)))"

lemma RList_order: "range_order order \<Longrightarrow> RList order r = RList (\<lambda>xs. xs) r"
  unfolding RList_def by (rule properties_for_sort) (simp_all add: range_orderD)

definition CheckCompatibility :: "('f, 'g, 'x, 'd) proto_lib \<Rightarrow> string \<Rightarrow> bytes \<Rightarrow> string \<Rightarrow> 'd Registry
    \<Rightarrow> bool \<times> schema_error option" where
  "CheckCompatibility lib queue descriptor messageType r =
     (case parseDescriptor lib descriptor messageType of Inl e \<Rightarrow> (False, Some e) | Inr _ \<Rightarrow> (True, None))"

section \<open>The registry after any sequence of registrations\<close>

type_synonym registration = "time \<times> string \<times> bytes \<times> string"

definition reg_step :: "('f, 'g, 'x, 'd) proto_lib \<Rightarrow> 'd Registry \<Rightarrow> registration \<Rightarrow> 'd Registry" where
  "reg_step lib r x = (case x of (now, queue, descriptor, messageType) \<Rightarrow> snd (Register lib now queue descriptor messageType r))"

definition accepted_for :: "('f, 'g, 'x, 'd) proto_lib \<Rightarrow> string \<Rightarrow> registration list \<Rightarrow> registration list" where
  \<comment> \<open>the registrations for a queue whose descriptor the libraries accept\<close>
  "accepted_for lib q xs = filter (\<lambda>(now, queue, d, t). queue = q \<and> \<not> isl (parseDescriptor lib d t)) xs"

definition schema_of :: "('f, 'g, 'x, 'd) proto_lib \<Rightarrow> nat \<Rightarrow> registration \<Rightarrow> 'd Schema" where
  "schema_of lib n x = (case x of (now, queue, d, t) \<Rightarrow>
     \<lparr>scQueue = queue, scMessageType = t, scDescriptor = d, scVersion = of_nat n, scCreatedAt = now,
      scMsgDesc = projr (parseDescriptor lib d t)\<rparr>)"

lemma registry_get:
  "gm_get (rgSchemas (foldl (reg_step lib) NewRegistry xs)) q
     = (case rev (accepted_for lib q xs) of
          [] \<Rightarrow> None
        | x # rest \<Rightarrow> Some (schema_of lib (length (accepted_for lib q xs)) x))"
proof (induction xs rule: rev_induct)
  case Nil
  then show ?case by (simp add: NewRegistry_def accepted_for_def)
next
  case (snoc x xs)
  obtain now queue d t where x: "x = (now, queue, d, t)" by (cases x)
  let ?r = "foldl (reg_step lib) NewRegistry xs"
  have fold: "foldl (reg_step lib) NewRegistry (xs @ [x]) = reg_step lib ?r x" by simp
  have acc: "accepted_for lib q (xs @ [x])
      = accepted_for lib q xs @ (if queue = q \<and> \<not> isl (parseDescriptor lib d t) then [x] else [])"
    by (simp add: accepted_for_def x)
  show ?case
  proof (cases "parseDescriptor lib d t")
    case (Inl e)
    then have "reg_step lib ?r x = ?r" by (simp add: x reg_step_def Register_def)
    then show ?thesis using snoc Inl unfolding fold acc by (simp cong: list.case_cong)
  next
    case (Inr desc)
    then have "gm_get (rgSchemas (reg_step lib ?r x)) q
        = (if queue = q
           then Some \<lparr>scQueue = queue, scMessageType = t, scDescriptor = d,
             scVersion = (case gm_get (rgSchemas ?r) q of Some ex \<Rightarrow> scVersion ex + 1 | None \<Rightarrow> 1),
             scCreatedAt = now, scMsgDesc = desc\<rparr>
           else gm_get (rgSchemas ?r) q)"
      by (simp add: x reg_step_def Register_def Let_def)
    then show ?thesis
      using snoc Inr unfolding fold acc by (auto simp: schema_of_def x split: list.splits prod.splits)
  qed
qed

text \<open>C27. The registry counts: after any sequence of registrations, the schema of a queue is the one of its last
  accepted registration, its version is the number of registrations accepted for that queue so far (in 32
  bits), and there is none if none was accepted. A registration with a descriptor that does not parse, or
  without the message type, leaves no trace.\<close>

theorem registry_versions_count:
  "RGet q (foldl (reg_step lib) NewRegistry xs)
     = (case rev (accepted_for lib q xs) of
          [] \<Rightarrow> Inl ErrSchemaNotFound
        | x # rest \<Rightarrow> Inr (schema_of lib (length (accepted_for lib q xs)) x))"
  by (simp add: RGet_def registry_get split: list.splits)

end
