(* ===== verification/Metrics.thy ===== *)
theory Metrics
  imports Prelude
begin

text \<open>
  The metrics of \<open>internal/broker/metrics.go\<close>. The Prometheus library is not part of the repository: a
  recording function is the list of the calls it makes on the library's vectors, each with the name of
  the metric and the queue label. The value of a latency observation is a measurement and is left out.
\<close>

datatype metric_call = MInc string string | MObserve string string | MSet string string nat

definition messagesPublished :: string where "messagesPublished = ''qwerq_messages_published_total''"
definition messagesConsumed :: string where "messagesConsumed = ''qwerq_messages_consumed_total''"
definition messagesAcked :: string where "messagesAcked = ''qwerq_messages_acked_total''"
definition messagesNacked :: string where "messagesNacked = ''qwerq_messages_nacked_total''"
definition queueDepth :: string where "queueDepth = ''qwerq_queue_depth''"
definition inFlightCount :: string where "inFlightCount = ''qwerq_in_flight_count''"
definition publishLatency :: string where "publishLatency = ''qwerq_publish_latency_seconds''"
definition messagesDLQ :: string where "messagesDLQ = ''qwerq_messages_dlq_total''"
definition duplicateMessages :: string where "duplicateMessages = ''qwerq_duplicate_messages_total''"
definition queueFullErrors :: string where "queueFullErrors = ''qwerq_queue_full_errors_total''"
definition callRequests :: string where "callRequests = ''qwerq_call_requests_total''"
definition callTimeouts :: string where "callTimeouts = ''qwerq_call_timeouts_total''"

lemmas metric_defs = messagesPublished_def messagesConsumed_def messagesAcked_def messagesNacked_def queueDepth_def
  inFlightCount_def publishLatency_def messagesDLQ_def duplicateMessages_def queueFullErrors_def callRequests_def
  callTimeouts_def

definition RecordPublish :: "string \<Rightarrow> metric_call list" where
  "RecordPublish queue = [MInc messagesPublished queue, MObserve publishLatency queue]"

definition RecordConsume :: "string \<Rightarrow> metric_call list" where
  "RecordConsume queue = [MInc messagesConsumed queue]"

definition RecordAck :: "string \<Rightarrow> metric_call list" where
  "RecordAck queue = [MInc messagesAcked queue]"

definition RecordNack :: "string \<Rightarrow> metric_call list" where
  "RecordNack queue = [MInc messagesNacked queue]"

definition UpdateQueueDepth :: "string \<Rightarrow> nat \<Rightarrow> metric_call list" where
  "UpdateQueueDepth queue depth = [MSet queueDepth queue depth]"

definition UpdateInFlightCount :: "string \<Rightarrow> nat \<Rightarrow> metric_call list" where
  "UpdateInFlightCount queue n = [MSet inFlightCount queue n]"

definition RecordDLQ :: "string \<Rightarrow> metric_call list" where
  "RecordDLQ queue = [MInc messagesDLQ queue]"

definition RecordDuplicateMessage :: "string \<Rightarrow> metric_call list" where
  "RecordDuplicateMessage queue = [MInc duplicateMessages queue]"

definition RecordQueueFull :: "string \<Rightarrow> metric_call list" where
  "RecordQueueFull queue = [MInc queueFullErrors queue]"

definition RecordCallRequest :: "string \<Rightarrow> metric_call list" where
  "RecordCallRequest queue = [MInc callRequests queue]"

definition RecordCallTimeout :: "string \<Rightarrow> metric_call list" where
  "RecordCallTimeout queue = [MInc callTimeouts queue]"

definition counted :: "string \<Rightarrow> string \<Rightarrow> metric_call list \<Rightarrow> nat" where
  \<comment> \<open>the value of a counter after the calls\<close>
  "counted name queue ms = count_list ms (MInc name queue)"

lemma metrics_distinct: "distinct [messagesPublished, messagesConsumed, messagesAcked, messagesNacked, queueDepth, inFlightCount,
    publishLatency, messagesDLQ, duplicateMessages, queueFullErrors, callRequests, callTimeouts]"
  by (simp add: metric_defs)

end
