(* ===== verification/Server.thy ===== *)
theory Server
  imports Call Frame Client_Codec Schema Metrics
begin

text \<open>
  The TCP server of \<open>internal/broker/server.go\<close>: authentication, dispatch and the request handlers of a
  connection. The generated protobuf code is a parameter (\<open>wire\<close>): unmarshalling a request may fail,
  marshalling a response does not. The text of an error, \<open>err.Error()\<close>, is also there. A handler returns
  what it writes to the connection, in order, with the changed connection and server; writes of the delivery
  goroutines are steps of their own.

  Of the publish latency only that it is observed is modelled. Log lines are not modelled.
\<close>

record QueueInfo =
  qiName :: string
  qiMessageCount :: u32
  qiInFlightCount :: u32

record SchemaInfo =
  siQueue :: string
  siMessageType :: string
  siVersion :: u32

record wire =
  wPublish :: "bytes \<Rightarrow> PublishRequest option"
  wConsume :: "bytes \<Rightarrow> ConsumeRequest option"
  wAck :: "bytes \<Rightarrow> string option"
  wNack :: "bytes \<Rightarrow> NackRequest option"
  wExtend :: "bytes \<Rightarrow> (string \<times> u32) option"
  wSeek :: "bytes \<Rightarrow> SeekRequest option"
  wCommit :: "bytes \<Rightarrow> (string \<times> string \<times> u64) option"
  wSchemaRegister :: "bytes \<Rightarrow> (string \<times> bytes \<times> string) option"
  wHeartbeat :: "bytes \<Rightarrow> (string \<times> string) option"
  wUnsubscribe :: "bytes \<Rightarrow> (string \<times> string) option"
  wCall :: "bytes \<Rightarrow> CallRequest option"
  wAuth :: "bytes \<Rightarrow> string option"
  mError :: "u32 \<Rightarrow> string \<Rightarrow> bytes"
  mMessage :: "ProtoMessage \<Rightarrow> bytes"
  mStreamMessage :: "ProtoStreamMessage \<Rightarrow> bytes"
  mExtend :: "int \<Rightarrow> bytes"
  mSchemaRegister :: "u32 \<Rightarrow> u32 \<Rightarrow> bytes"
  mSchemaList :: "SchemaInfo list \<Rightarrow> bytes"
  mQueueList :: "QueueInfo list \<Rightarrow> bytes"
  mSeek :: "u64 \<Rightarrow> bytes"
  mCommit :: "u64 \<Rightarrow> bytes"
  mHeartbeat :: bytes
  mCall :: "CallResponse \<Rightarrow> bytes"
  mAuth :: "bool \<Rightarrow> string \<Rightarrow> bytes"
  errText :: "error \<Rightarrow> string"
  schemaErrText :: "schema_error \<Rightarrow> string"

type_synonym SchemaMode = string

definition SchemaModePermissive :: SchemaMode where "SchemaModePermissive = ''permissive''"
definition SchemaModeStrict :: SchemaMode where "SchemaModeStrict = ''strict''"

text \<open>A \<open>Replicator\<close> acts on the broker of this node, where the replicated command is applied.\<close>

record 's Replicator =
  rpIsLeader :: bool
  rpPublish :: "string \<Rightarrow> string \<Rightarrow> bytes \<Rightarrow> (string, string) gomap \<Rightarrow> time \<Rightarrow> bool \<Rightarrow> 's Broker \<Rightarrow> ((error + string) \<times> 's Broker) go"
  rpAck :: "string \<Rightarrow> string \<Rightarrow> 's Broker \<Rightarrow> (error option \<times> 's Broker) go"
  rpNack :: "string \<Rightarrow> string \<Rightarrow> bool \<Rightarrow> 's Broker \<Rightarrow> (error option \<times> 's Broker) go"

record ('f, 'g, 'x, 'd, 's) Server =
  svBroker :: "'s Broker"
  svRegistry :: "'d Registry"
  svReplicator :: "'s Replicator option"
  svAuthToken :: string
  svSchemaMode :: SchemaMode
  svMetrics :: "metric_call list"
  svLib :: "('f, 'g, 'x, 'd) proto_lib"
  svWire :: wire

definition NewServer :: "('f, 'g, 'x, 'd) proto_lib \<Rightarrow> wire \<Rightarrow> 's Broker \<Rightarrow> ('f, 'g, 'x, 'd, 's) Server" where
  "NewServer lib w b = \<lparr>svBroker = b, svRegistry = NewRegistry, svReplicator = None, svAuthToken = [],
     svSchemaMode = SchemaModePermissive, svMetrics = [], svLib = lib, svWire = w\<rparr>"

definition SetReplicator :: "'s Replicator \<Rightarrow> ('f, 'g, 'x, 'd, 's) Server \<Rightarrow> ('f, 'g, 'x, 'd, 's) Server" where
  "SetReplicator r s = s\<lparr>svReplicator := Some r\<rparr>"

definition SetAuthToken :: "string \<Rightarrow> ('f, 'g, 'x, 'd, 's) Server \<Rightarrow> ('f, 'g, 'x, 'd, 's) Server" where
  "SetAuthToken token s = s\<lparr>svAuthToken := token\<rparr>"

definition SetSchemaMode :: "SchemaMode \<Rightarrow> ('f, 'g, 'x, 'd, 's) Server \<Rightarrow> ('f, 'g, 'x, 'd, 's) Server" where
  "SetSchemaMode mode s = s\<lparr>svSchemaMode := (if mode = SchemaModeStrict then SchemaModeStrict else SchemaModePermissive)\<rparr>"

text \<open>The delivery goroutines a connection has started: the channel, and where it belongs.\<close>

datatype delivery =
    QueueTask nat string string  \<comment> \<open>channel, queue, group (empty without a group)\<close>
  | StreamTask nat string
  | ReplayTask nat string  \<comment> \<open>\<open>deliverFromStorage\<close> of the stream\<close>

record connState =
  cnQueueName :: string
  cnGroupName :: string
  cnClientAddr :: string
  cnMsgCh :: "nat option"
  cnCallManager :: "CallManager option"
  cnAuthenticated :: bool
  cnStreamMode :: bool
  cnConsumerGroup :: string
  cnStreamConsumer :: "nat option"
  cnTasks :: "delivery list"
  cnCall :: "(string \<times> nat) option"  \<comment> \<open>the call that the connection's loop waits for\<close>
  cnOpen :: bool

definition new_conn :: "string \<Rightarrow> ('f, 'g, 'x, 'd, 's) Server \<Rightarrow> connState" where
  "new_conn addr s = \<lparr>cnQueueName = [], cnGroupName = [], cnClientAddr = addr, cnMsgCh = None, cnCallManager = None,
     cnAuthenticated = (svAuthToken s = []), cnStreamMode = False, cnConsumerGroup = [], cnStreamConsumer = None,
     cnTasks = [], cnCall = None, cnOpen = True\<rparr>"

text \<open>What one frame draws from outside, beyond the environment of the broker.\<close>

record server_env =
  seEnv :: env
  seConsumer :: env  \<comment> \<open>for the consumer of a reply queue\<close>
  seCorrelation :: string
  seReplyCh :: nat

type_synonym ('f, 'g, 'x, 'd, 's) served = "(bytes list \<times> connState \<times> ('f, 'g, 'x, 'd, 's) Server) go"

section \<open>Responses\<close>

definition EncodeError :: "wire \<Rightarrow> u32 \<Rightarrow> string \<Rightarrow> bytes go" where
  "EncodeError w code msg = EncodeFrame OpError (mError w code msg)"

definition reply_error :: "u32 \<Rightarrow> string \<Rightarrow> connState \<Rightarrow> ('f, 'g, 'x, 'd, 's) Server \<Rightarrow> ('f, 'g, 'x, 'd, 's) served" where
  "reply_error code msg c s = map_option (\<lambda>f. ([f], c, s)) (EncodeError (svWire s) code msg)"

definition reply_frame :: "OpCode \<Rightarrow> bytes \<Rightarrow> connState \<Rightarrow> ('f, 'g, 'x, 'd, 's) Server \<Rightarrow> ('f, 'g, 'x, 'd, 's) served" where
  "reply_frame op data c s = map_option (\<lambda>f. ([f], c, s)) (EncodeFrame op data)"

definition emit :: "metric_call list \<Rightarrow> ('f, 'g, 'x, 'd, 's) Server \<Rightarrow> ('f, 'g, 'x, 'd, 's) Server" where
  "emit ms s = s\<lparr>svMetrics := svMetrics s @ ms\<rparr>"

definition update_depth :: "string \<Rightarrow> ('f, 'g, 'x, 'd, 's) Server \<Rightarrow> ('f, 'g, 'x, 'd, 's) Server" where
  \<comment> \<open>the two gauges, when the queue exists\<close>
  "update_depth queue s =
     (case GetQueue queue (svBroker s) of
        None \<Rightarrow> s
      | Some q \<Rightarrow> emit (UpdateQueueDepth queue (Len q) @ UpdateInFlightCount queue (InFlightLen q)) s)"

section \<open>Queue requests\<close>

definition publish_ack :: "string \<Rightarrow> connState \<Rightarrow> ('f, 'g, 'x, 'd, 's) Server \<Rightarrow> ('f, 'g, 'x, 'd, 's) served" where
  \<comment> \<open>\<open>WriteFrame\<close> straight to the connection\<close>
  "publish_ack messageID c s = Some ([WriteFrame OpPublishAck (EncodePublishResponsePayload messageID)], c, s)"

definition publish_replicated :: "env \<Rightarrow> PublishRequest \<Rightarrow> 's Replicator \<Rightarrow> connState \<Rightarrow> ('f, 'g, 'x, 'd, 's) Server
    \<Rightarrow> ('f, 'g, 'x, 'd, 's) served" where
  "publish_replicated e req r c s =
     (if \<not> rpIsLeader r then reply_error 9 ''not leader'' c s
      else do {
        (res, b) \<leftarrow> rpPublish r (prQueue req) (if prMessageId req = [] then eULID e else prMessageId req) (prPayload req)
          (prHeaders req) (eNow e) (IsStreamQueue (prQueue req) (svBroker s)) (svBroker s);
        (case res of
           Inl err \<Rightarrow> reply_error 3 (errText (svWire s) err) c (s\<lparr>svBroker := b\<rparr>)
         | Inr replicatedID \<Rightarrow>
             publish_ack replicatedID c (update_depth (prQueue req) (emit (RecordPublish (prQueue req)) (s\<lparr>svBroker := b\<rparr>))))
      })"

definition publish_stream :: "env \<Rightarrow> PublishRequest \<Rightarrow> connState \<Rightarrow> ('f, 'g, 'x, 'd, 's) Server \<Rightarrow> ('f, 'g, 'x, 'd, 's) served" where
  "publish_stream e req c s = do {
     (res, b) \<leftarrow> HandleStreamPublish e req (svBroker s);
     (case res of
        Inl err \<Rightarrow> reply_error 3 (errText (svWire s) err) c (s\<lparr>svBroker := b\<rparr>)
      | Inr (messageID, _) \<Rightarrow> publish_ack messageID c (emit (RecordPublish (prQueue req)) (s\<lparr>svBroker := b\<rparr>)))
   }"

definition publish_local :: "env \<Rightarrow> PublishRequest \<Rightarrow> connState \<Rightarrow> ('f, 'g, 'x, 'd, 's) Server \<Rightarrow> ('f, 'g, 'x, 'd, 's) served" where
  "publish_local e req c s = do {
     (res, b) \<leftarrow> HandlePublish e req (svBroker s);
     (case res of
        Inl err \<Rightarrow> reply_error 3 (errText (svWire s) err) c (s\<lparr>svBroker := b\<rparr>)
      | Inr messageID \<Rightarrow>
          publish_ack messageID c (update_depth (prQueue req) (emit (RecordPublish (prQueue req)) (s\<lparr>svBroker := b\<rparr>))))
   }"

definition handlePublish :: "server_env \<Rightarrow> bytes \<Rightarrow> connState \<Rightarrow> ('f, 'g, 'x, 'd, 's) Server \<Rightarrow> ('f, 'g, 'x, 'd, 's) served" where
  "handlePublish e payload c s =
     (case wPublish (svWire s) payload of
        None \<Rightarrow> reply_error 2 ''invalid request'' c s
      | Some req \<Rightarrow>
          if svSchemaMode s = SchemaModeStrict \<and> isl (RGet (prQueue req) (svRegistry s))
          then reply_error 7 ''schema required for queue'' c s
          else (case Validate (svLib s) (prQueue req) (prPayload req) (svRegistry s) of
                  Some err \<Rightarrow> reply_error 5 (''schema validation failed: '' @ schemaErrText (svWire s) err) c s
                | None \<Rightarrow>
                    (case svReplicator s of
                       Some r \<Rightarrow> publish_replicated (seEnv e) req r c s
                     | None \<Rightarrow>
                         if IsStreamQueue (prQueue req) (svBroker s) then publish_stream (seEnv e) req c s
                         else publish_local (seEnv e) req c s)))"

definition handleConsume :: "server_env \<Rightarrow> bytes \<Rightarrow> connState \<Rightarrow> ('f, 'g, 'x, 'd, 's) Server \<Rightarrow> ('f, 'g, 'x, 'd, 's) served" where
  "handleConsume e payload c s =
     (case wConsume (svWire s) payload of
        None \<Rightarrow> reply_error 2 ''invalid request'' c s
      | Some req \<Rightarrow> do {
          (ch, b) \<leftarrow> HandleConsume (seEnv e) req (cnClientAddr c) (svBroker s);
          Some ([], c\<lparr>cnQueueName := crQueue req, cnGroupName := crGroup req, cnMsgCh := Some ch,
                     cnTasks := cnTasks c @ [QueueTask ch (crQueue req) (crGroup req)]\<rparr>, s\<lparr>svBroker := b\<rparr>)
        })"

definition handleAck :: "server_env \<Rightarrow> bytes \<Rightarrow> connState \<Rightarrow> ('f, 'g, 'x, 'd, 's) Server \<Rightarrow> ('f, 'g, 'x, 'd, 's) served" where
  "handleAck e payload c s =
     (case wAck (svWire s) payload of
        None \<Rightarrow> reply_error 2 ''invalid request'' c s
      | Some messageID \<Rightarrow>
          if cnStreamMode c then Some ([], c, emit (RecordAck (cnQueueName c)) s)
          else (let acked = (\<lambda>b. Some ([], c, update_depth (cnQueueName c) (emit (RecordAck (cnQueueName c)) (s\<lparr>svBroker := b\<rparr>))))
                in case svReplicator s of
                     Some r \<Rightarrow>
                       if \<not> rpIsLeader r then reply_error 9 ''not leader'' c s
                       else do {
                         (err, b) \<leftarrow> rpAck r (cnQueueName c) messageID (svBroker s);
                         (case err of
                            Some er \<Rightarrow> reply_error 3 (errText (svWire s) er) c (s\<lparr>svBroker := b\<rparr>)
                          | None \<Rightarrow> acked b)
                       }
                   | None \<Rightarrow> do {
                       ((ok, err), b) \<leftarrow> HandleAck (seEnv e) messageID (cnQueueName c) (cnGroupName c) (svBroker s);
                       (case err of
                          Some er \<Rightarrow> reply_error 3 (errText (svWire s) er) c (s\<lparr>svBroker := b\<rparr>)
                        | None \<Rightarrow> if \<not> ok then reply_error 4 ''message not found'' c (s\<lparr>svBroker := b\<rparr>) else acked b)
                     }))"

definition handleNack :: "server_env \<Rightarrow> bytes \<Rightarrow> connState \<Rightarrow> ('f, 'g, 'x, 'd, 's) Server \<Rightarrow> ('f, 'g, 'x, 'd, 's) served" where
  "handleNack e payload c s =
     (case wNack (svWire s) payload of
        None \<Rightarrow> reply_error 2 ''invalid request'' c s
      | Some req \<Rightarrow>
          (let nacked = (\<lambda>b. Some ([], c, update_depth (cnQueueName c) (emit (RecordNack (cnQueueName c)) (s\<lparr>svBroker := b\<rparr>))))
           in case svReplicator s of
                Some r \<Rightarrow>
                  if \<not> rpIsLeader r then reply_error 9 ''not leader'' c s
                  else do {
                    (err, b) \<leftarrow> rpNack r (cnQueueName c) (nkMessageId req) (nkRequeue req) (svBroker s);
                    (case err of
                       Some er \<Rightarrow> reply_error 3 (errText (svWire s) er) c (s\<lparr>svBroker := b\<rparr>)
                     | None \<Rightarrow> nacked b)
                  }
              | None \<Rightarrow> do {
                  ((ok, err), b) \<leftarrow> HandleNack (seEnv e) req (cnQueueName c) (cnGroupName c) (svBroker s);
                  (case err of
                     Some er \<Rightarrow> reply_error 3 (errText (svWire s) er) c (s\<lparr>svBroker := b\<rparr>)
                   | None \<Rightarrow> if \<not> ok then reply_error 4 ''message not found'' c (s\<lparr>svBroker := b\<rparr>) else nacked b)
                }))"

definition handleExtendVisibility :: "server_env \<Rightarrow> bytes \<Rightarrow> connState \<Rightarrow> ('f, 'g, 'x, 'd, 's) Server
    \<Rightarrow> ('f, 'g, 'x, 'd, 's) served" where
  "handleExtendVisibility e payload c s =
     (case wExtend (svWire s) payload of
        None \<Rightarrow> reply_error 2 ''invalid request'' c s
      | Some (messageID, seconds) \<Rightarrow>
          (case HandleExtendVisibility (seEnv e) messageID seconds (cnQueueName c) (svBroker s) of
             ((newVisibleAt, ok), b) \<Rightarrow>
               if \<not> ok then reply_error 4 ''message not found'' c (s\<lparr>svBroker := b\<rparr>)
               else reply_frame OpExtendVisibilityAck (mExtend (svWire s) (unix_milli newVisibleAt)) c (s\<lparr>svBroker := b\<rparr>)))"

section \<open>Schemas and lists\<close>

definition handleSchemaRegister :: "server_env \<Rightarrow> bytes \<Rightarrow> connState \<Rightarrow> ('f, 'g, 'x, 'd, 's) Server
    \<Rightarrow> ('f, 'g, 'x, 'd, 's) served" where
  "handleSchemaRegister e payload c s =
     (case wSchemaRegister (svWire s) payload of
        None \<Rightarrow> reply_error 2 ''invalid request'' c s
      | Some (queue, descriptor, messageType) \<Rightarrow>
          (case Register (svLib s) (eNow (seEnv e)) queue descriptor messageType (svRegistry s) of
             (Inl err, r) \<Rightarrow> reply_error 6 (''schema registration failed: '' @ schemaErrText (svWire s) err) c (s\<lparr>svRegistry := r\<rparr>)
           | (Inr version, r) \<Rightarrow> reply_frame OpSchemaResponse (mSchemaRegister (svWire s) 0 version) c (s\<lparr>svRegistry := r\<rparr>)))"

definition handleSchemaGet :: "bytes \<Rightarrow> connState \<Rightarrow> ('f, 'g, 'x, 'd, 's) Server \<Rightarrow> ('f, 'g, 'x, 'd, 's) served" where
  "handleSchemaGet payload c s =
     (case wSchemaRegister (svWire s) payload of
        None \<Rightarrow> reply_error 2 ''invalid request'' c s
      | Some (queue, _, _) \<Rightarrow>
          (case RGet queue (svRegistry s) of
             Inl _ \<Rightarrow> reply_error 7 ''schema not found'' c s
           | Inr sch \<Rightarrow> reply_frame OpSchemaResponse (mSchemaRegister (svWire s) 0 (scVersion sch)) c s))"

definition schema_infos :: "string list \<Rightarrow> 'd Registry \<Rightarrow> SchemaInfo list" where
  "schema_infos names r =
     List.map_filter (\<lambda>name. case RGet name r of
        Inl _ \<Rightarrow> None
      | Inr sch \<Rightarrow> Some \<lparr>siQueue = scQueue sch, siMessageType = scMessageType sch, siVersion = scVersion sch\<rparr>) names"

definition handleSchemaList :: "connState \<Rightarrow> ('f, 'g, 'x, 'd, 's) Server \<Rightarrow> ('f, 'g, 'x, 'd, 's) served" where
  \<comment> \<open>the names are sorted, so the order in which the registry's map is visited does not matter\<close>
  "handleSchemaList c s =
     reply_frame OpSchemaListResp (mSchemaList (svWire s) (schema_infos (RList (\<lambda>xs. xs) (svRegistry s)) (svRegistry s))) c s"

definition queue_infos :: "string list \<Rightarrow> 's Broker \<Rightarrow> QueueInfo list" where
  "queue_infos names b =
     List.map_filter (\<lambda>name. case GetStreamQueue name b of
        Some sq \<Rightarrow> Some \<lparr>qiName = name, qiMessageCount = ucast (sqLen sq), qiInFlightCount = 0\<rparr>
      | None \<Rightarrow>
          (case GetQueue name b of
             None \<Rightarrow> None
           | Some q \<Rightarrow> Some \<lparr>qiName = name, qiMessageCount = of_nat (Len q), qiInFlightCount = of_nat (InFlightLen q)\<rparr>)) names"

definition handleQueueList :: "server_env \<Rightarrow> connState \<Rightarrow> ('f, 'g, 'x, 'd, 's) Server \<Rightarrow> ('f, 'g, 'x, 'd, 's) served" where
  "handleQueueList e c s =
     reply_frame OpQueueListResp (mQueueList (svWire s) (queue_infos (ListQueues (seEnv e) (svBroker s)) (svBroker s))) c s"

section \<open>Streams\<close>

definition resolve_offset :: "SeekRequest \<Rightarrow> string \<Rightarrow> StreamQueue \<Rightarrow> 's stream_handle \<Rightarrow> error + u64" where
  \<comment> \<open>the switch over the position\<close>
  "resolve_offset req grp sq h =
     (case skPosition req of
        SEEK_BEGINNING \<Rightarrow> Inr 1
      | SEEK_END \<Rightarrow> Inr (NextSequence sq)
      | SEEK_OFFSET \<Rightarrow> Inr (if skOffset req = 0 then 1 else skOffset req)
      | SEEK_TIMESTAMP \<Rightarrow>
          (case h of
             None \<Rightarrow> Inr 1
           | Some (ops, st) \<Rightarrow>
               (case soGetStreamMessageByTimestamp ops (skQueue req) (skTimestamp req) st of
                  (_, Some err) \<Rightarrow> Inl err
                | (ts, None) \<Rightarrow> Inr (if ts = 0 then NextSequence sq else ts)))
      | SEEK_UNKNOWN _ \<Rightarrow>
          (case GetCommittedOffset grp sq h of
             (_, Some err) \<Rightarrow> Inl err
           | (committed, None) \<Rightarrow> Inr (if committed > 0 then committed + 1 else NextSequence sq)))"

definition handleSeek :: "server_env \<Rightarrow> bytes \<Rightarrow> connState \<Rightarrow> ('f, 'g, 'x, 'd, 's) Server \<Rightarrow> ('f, 'g, 'x, 'd, 's) served" where
  \<comment> \<open>a consumer of an earlier seek is removed from the queue of this seek\<close>
  "handleSeek e payload c s =
     (case wSeek (svWire s) payload of
        None \<Rightarrow> reply_error 2 ''invalid request'' c s
      | Some req \<Rightarrow>
          (let grp = (if skGroup req = [] then cnClientAddr c else skGroup req);
               b1 = GetOrCreateStreamQueue (skQueue req) (svBroker s)
           in case GetStreamQueue (skQueue req) b1 of
                None \<Rightarrow> None
              | Some sq \<Rightarrow>
                  (case resolve_offset req grp sq (stream_handle b1) of
                     Inl err \<Rightarrow> reply_error 3 (errText (svWire s) err) c (s\<lparr>svBroker := b1\<rparr>)
                   | Inr offset \<Rightarrow>
                       (let sq1 = (case cnStreamConsumer c of Some ch \<Rightarrow> sqRemoveConsumer ch sq | None \<Rightarrow> sq)
                        in case Subscribe grp offset (eChan (seEnv e)) sq1 of
                             (spawn, sq2) \<Rightarrow>
                               reply_frame OpSeekAck (mSeek (svWire s) offset)
                                 (c\<lparr>cnQueueName := skQueue req, cnStreamMode := True, cnConsumerGroup := grp,
                                    cnStreamConsumer := Some (eChan (seEnv e)), cnMsgCh := Some (eChan (seEnv e)),
                                    cnTasks := cnTasks c @ (if spawn then [ReplayTask (eChan (seEnv e)) (skQueue req)] else [])
                                      @ [StreamTask (eChan (seEnv e)) (skQueue req)]\<rparr>)
                                 (s\<lparr>svBroker := b1\<lparr>bStreamQueues := gm_set (bStreamQueues b1) (skQueue req) sq2\<rparr>\<rparr>)))))"

definition handleCommitOffset :: "bytes \<Rightarrow> connState \<Rightarrow> ('f, 'g, 'x, 'd, 's) Server \<Rightarrow> ('f, 'g, 'x, 'd, 's) served" where
  "handleCommitOffset payload c s =
     (case wCommit (svWire s) payload of
        None \<Rightarrow> reply_error 2 ''invalid request'' c s
      | Some (queue, grp, offset) \<Rightarrow>
          (let queueName = (if queue = [] then cnQueueName c else queue);
               grp = (if grp = [] then cnConsumerGroup c else grp)
           in case GetStreamQueue queueName (svBroker s) of
                None \<Rightarrow> reply_error 4 ''stream queue not found'' c s
              | Some sq \<Rightarrow>
                  (case CommitOffset grp offset sq (stream_handle (svBroker s)) of
                     (err, h) \<Rightarrow>
                       (let s' = s\<lparr>svBroker := put_handle h (svBroker s)\<rparr>
                        in case err of
                             Some er \<Rightarrow> reply_error 3 (errText (svWire s) er) c s'
                           | None \<Rightarrow> reply_frame OpCommitOffsetAck (mCommit (svWire s) offset) c s'))))"

section \<open>Groups and calls\<close>

definition handleHeartbeat :: "server_env \<Rightarrow> bytes \<Rightarrow> connState \<Rightarrow> ('f, 'g, 'x, 'd, 's) Server \<Rightarrow> ('f, 'g, 'x, 'd, 's) served" where
  "handleHeartbeat e payload c s =
     (case wHeartbeat (svWire s) payload of
        None \<Rightarrow> reply_error 2 ''invalid request'' c s
      | Some (grp, queue) \<Rightarrow>
          (case HandleHeartbeat (seEnv e) queue grp (cnClientAddr c) (svBroker s) of
             (ok, b) \<Rightarrow>
               if \<not> ok then reply_error 4 ''group member not found'' c (s\<lparr>svBroker := b\<rparr>)
               else reply_frame OpHeartbeatAck (mHeartbeat (svWire s)) c (s\<lparr>svBroker := b\<rparr>)))"

definition handleUnsubscribe :: "server_env \<Rightarrow> bytes \<Rightarrow> connState \<Rightarrow> ('f, 'g, 'x, 'd, 's) Server \<Rightarrow> ('f, 'g, 'x, 'd, 's) served" where
  "handleUnsubscribe e payload c s =
     (case wUnsubscribe (svWire s) payload of
        None \<Rightarrow> reply_error 2 ''invalid request'' c s
      | Some (queue, grp) \<Rightarrow> do {
          (ok, b) \<leftarrow> HandleUnsubscribe (seEnv e) queue grp (cnClientAddr c) (cnMsgCh c) (svBroker s);
          (if \<not> ok then reply_error 4 ''consumer not found'' c (s\<lparr>svBroker := b\<rparr>)
           else Some ([], c\<lparr>cnMsgCh := None, cnGroupName := []\<rparr>, s\<lparr>svBroker := b\<rparr>))
        })"

definition handleCall :: "server_env \<Rightarrow> bytes \<Rightarrow> connState \<Rightarrow> ('f, 'g, 'x, 'd, 's) Server \<Rightarrow> ('f, 'g, 'x, 'd, 's) served" where
  \<comment> \<open>up to the wait for the reply\<close>
  "handleCall e payload c s =
     (case wCall (svWire s) payload of
        None \<Rightarrow> reply_error 2 ''invalid request'' c s
      | Some req \<Rightarrow> do {
          (cm, b) \<leftarrow> (case cnCallManager c of
                        Some cm \<Rightarrow> Some (cm, svBroker s)
                      | None \<Rightarrow> NewCallManager (seConsumer e) (cnClientAddr c) (svBroker s));
          (err, cm', b') \<leftarrow> call_start (seEnv e) (seCorrelation e) (seReplyCh e) req cm b;
          (case err of
             Some er \<Rightarrow> reply_error 3 (errText (svWire s) er) (c\<lparr>cnCallManager := Some cm'\<rparr>) (s\<lparr>svBroker := b'\<rparr>)
           | None \<Rightarrow> Some ([], c\<lparr>cnCallManager := Some cm', cnCall := Some (seCorrelation e, seReplyCh e)\<rparr>, s\<lparr>svBroker := b'\<rparr>))
        })"

definition finish_call :: "wakeup \<Rightarrow> connState \<Rightarrow> ('f, 'g, 'x, 'd, 's) Server \<Rightarrow> ('f, 'g, 'x, 'd, 's) served" where
  \<comment> \<open>the rest of \<open>handleCall\<close>, once the call wakes up; nothing when it does not\<close>
  "finish_call w c s =
     (case (cnCall c, cnCallManager c) of
        (Some (corr, ch), Some cm) \<Rightarrow>
          (case call_finish w corr ch cm of
             None \<Rightarrow> None
           | Some None \<Rightarrow> Some ([], c, s)
           | Some (Some (Inl err, cm')) \<Rightarrow>
               (let c' = c\<lparr>cnCallManager := Some cm', cnCall := None\<rparr>
                in if err = ErrCallTimeout then reply_error 8 ''call timeout'' c' s
                   else reply_error 3 (errText (svWire s) err) c' s)
           | Some (Some (Inr resp, cm')) \<Rightarrow>
               reply_frame OpCallResponse (mCall (svWire s) resp) (c\<lparr>cnCallManager := Some cm', cnCall := None\<rparr>) s)
      | _ \<Rightarrow> Some ([], c, s))"

section \<open>The connection\<close>

definition handleAuth :: "bytes \<Rightarrow> connState \<Rightarrow> ('f, 'g, 'x, 'd, 's) Server \<Rightarrow> ('f, 'g, 'x, 'd, 's) served" where
  \<comment> \<open>a comparison in constant time has the value of a comparison\<close>
  "handleAuth payload c s =
     (case wAuth (svWire s) payload of
        None \<Rightarrow> reply_frame OpAuthResponse (mAuth (svWire s) False ''invalid auth request'') c s
      | Some token \<Rightarrow>
          if token = svAuthToken s
          then reply_frame OpAuthResponse (mAuth (svWire s) True ''authenticated'') (c\<lparr>cnAuthenticated := True\<rparr>) s
          else reply_frame OpAuthResponse (mAuth (svWire s) False ''invalid token'') c s)"

definition handleFrame :: "server_env \<Rightarrow> frame \<Rightarrow> connState \<Rightarrow> ('f, 'g, 'x, 'd, 's) Server \<Rightarrow> ('f, 'g, 'x, 'd, 's) served" where
  "handleFrame e fr c s =
     (let op = fOpCode fr; payload = fPayload fr in
      if op = OpPublish then handlePublish e payload c s
      else if op = OpConsume then handleConsume e payload c s
      else if op = OpAck then handleAck e payload c s
      else if op = OpNack then handleNack e payload c s
      else if op = OpExtendVisibility then handleExtendVisibility e payload c s
      else if op = OpSeek then handleSeek e payload c s
      else if op = OpCommitOffset then handleCommitOffset payload c s
      else if op = OpSchemaRegister then handleSchemaRegister e payload c s
      else if op = OpSchemaGet then handleSchemaGet payload c s
      else if op = OpSchemaList then handleSchemaList c s
      else if op = OpQueueList then handleQueueList e c s
      else if op = OpHeartbeat then handleHeartbeat e payload c s
      else if op = OpUnsubscribe then handleUnsubscribe e payload c s
      else if op = OpCall then handleCall e payload c s
      else reply_error 1 ''unknown opcode'' c s)"

definition cleanup_conn :: "env \<Rightarrow> connState \<Rightarrow> ('f, 'g, 'x, 'd, 's) Server \<Rightarrow> (connState \<times> ('f, 'g, 'x, 'd, 's) Server) go" where
  \<comment> \<open>the deferred function: consumers leave, the call manager closes\<close>
  "cleanup_conn e c s = do {
     b \<leftarrow> (let b = svBroker s in
       case cnStreamConsumer c of
         Some ch \<Rightarrow>
           Some (case GetStreamQueue (cnQueueName c) b of
                   None \<Rightarrow> b
                 | Some sq \<Rightarrow> b\<lparr>bStreamQueues := gm_set (bStreamQueues b) (cnQueueName c) (sqRemoveConsumer ch sq)\<rparr>)
       | None \<Rightarrow>
           (case (cnMsgCh c, GetQueue (cnQueueName c) b) of
              (Some ch, Some q) \<Rightarrow>
                if cnGroupName c \<noteq> [] then
                  (case GetGroup (cnGroupName c) q of
                     None \<Rightarrow> Some b
                   | Some g \<Rightarrow> map_option (\<lambda>q'. b\<lparr>bQueues := gm_set (bQueues b) (cnQueueName c) q'\<rparr>)
                       (leave_group e (cnGroupName c) (cnClientAddr c) g q))
                else Some (b\<lparr>bQueues := gm_set (bQueues b) (cnQueueName c) (RemoveConsumer ch q)\<rparr>)
            | _ \<Rightarrow> Some b));
     cm \<leftarrow> (case cnCallManager c of None \<Rightarrow> Some None | Some cm \<Rightarrow> map_option Some (cmClose cm));
     Some (c\<lparr>cnOpen := False, cnTasks := [], cnCallManager := cm\<rparr>, s\<lparr>svBroker := b\<rparr>)
   }"

definition hang_up :: "env \<Rightarrow> bytes list \<times> connState \<times> ('f, 'g, 'x, 'd, 's) Server \<Rightarrow> ('f, 'g, 'x, 'd, 's) served" where
  "hang_up e res = (case res of (out, c, s) \<Rightarrow> map_option (\<lambda>(c', s'). (out, c', s')) (cleanup_conn e c s))"

definition conn_frame :: "server_env \<Rightarrow> frame \<Rightarrow> connState \<Rightarrow> ('f, 'g, 'x, 'd, 's) Server \<Rightarrow> ('f, 'g, 'x, 'd, 's) served" where
  \<comment> \<open>one iteration of the loop of \<open>handleConn\<close>, after \<open>DecodeFrame\<close> returned a frame\<close>
  "conn_frame e fr c s =
     (if \<not> cnAuthenticated c then
        (if fOpCode fr \<noteq> OpAuth then
           reply_error 9 ''authentication required'' c s \<bind> hang_up (seEnv e)
         else do {
           (out, c', s') \<leftarrow> handleAuth (fPayload fr) c s;
           (if \<not> cnAuthenticated c' then hang_up (seEnv e) (out, c', s') else Some (out, c', s'))
         })
      else handleFrame e fr c s)"

definition conn_read :: "server_env \<Rightarrow> u32 \<Rightarrow> bytes \<Rightarrow> connState \<Rightarrow> ('f, 'g, 'x, 'd, 's) Server
    \<Rightarrow> (bytes \<times> bytes list \<times> connState \<times> ('f, 'g, 'x, 'd, 's) Server) go" where
  \<comment> \<open>\<open>DecodeFrame\<close> on the input of the connection; an error ends the connection\<close>
  "conn_read e maxMessageSize inp c s =
     (case DecodeFrame maxMessageSize inp of
        (Inl _, rest) \<Rightarrow> map_option (Pair rest) (hang_up (seEnv e) ([], c, s))
      | (Inr fr, rest) \<Rightarrow> map_option (Pair rest) (conn_frame e fr c s))"

section \<open>Delivery to the client\<close>

definition member_receive :: "string \<Rightarrow> ConsumerGroup \<Rightarrow> (message \<times> ConsumerGroup) option" where
  "member_receive memberID g =
     (case find_index (\<lambda>m. gmID m = memberID) (gMembers g) of
        None \<Rightarrow> None
      | Some i \<Rightarrow>
          (case gmBuf (gMembers g ! i) of
             [] \<Rightarrow> None
           | m # ms \<Rightarrow> Some (m, g\<lparr>gMembers := (gMembers g)[i := (gMembers g ! i)\<lparr>gmBuf := ms\<rparr>]\<rparr>)))"

definition task_receive :: "delivery \<Rightarrow> string \<Rightarrow> 's Broker \<Rightarrow> (message \<times> 's Broker) option" where
  \<comment> \<open>the receive of a delivery goroutine; \<open>None\<close> when its channel is empty\<close>
  "task_receive t addr b =
     (case t of
        QueueTask ch queue grp \<Rightarrow>
          (case GetQueue queue b of
             None \<Rightarrow> None
           | Some q \<Rightarrow>
               if grp = [] then
                 (case receive ch q of
                    (None, _) \<Rightarrow> None
                  | (Some m, q') \<Rightarrow> Some (m, b\<lparr>bQueues := gm_set (bQueues b) queue q'\<rparr>))
               else (case GetGroup grp q of
                       None \<Rightarrow> None
                     | Some g \<Rightarrow> map_option (\<lambda>(m, g'). (m, b\<lparr>bQueues := gm_set (bQueues b) queue (q\<lparr>qGroups := gm_set (qGroups q) grp g'\<rparr>)\<rparr>))
                         (member_receive addr g)))
      | StreamTask ch queue \<Rightarrow>
          (case GetStreamQueue queue b of
             None \<Rightarrow> None
           | Some sq \<Rightarrow> map_option (\<lambda>(m, sq'). (m, b\<lparr>bStreamQueues := gm_set (bStreamQueues b) queue sq'\<rparr>)) (sc_receive ch sq))
      | ReplayTask _ _ \<Rightarrow> None)"

definition deliver_step :: "delivery \<Rightarrow> connState \<Rightarrow> ('f, 'g, 'x, 'd, 's) Server \<Rightarrow> (bytes list \<times> ('f, 'g, 'x, 'd, 's) Server) option" where
  \<comment> \<open>one message from the channel of a delivery goroutine to the client\<close>
  "deliver_step t c s =
     (case task_receive t (cnClientAddr c) (svBroker s) of
        None \<Rightarrow> None
      | Some (msg, b) \<Rightarrow>
          (let s' = s\<lparr>svBroker := b\<rparr>
           in case t of
                QueueTask _ queue _ \<Rightarrow>
                  Some ([WriteFrame OpMessage (mMessage (svWire s) (MessageToProto msg))], update_depth queue (emit (RecordConsume queue) s'))
              | StreamTask _ queue \<Rightarrow>
                  Some ([WriteFrame OpStreamMessage (mStreamMessage (svWire s) (StreamMessageToProto msg))], emit (RecordConsume queue) s')
              | ReplayTask _ _ \<Rightarrow> None))"

end
