(* ===== verification/Server_Props.thy ===== *)
theory Server_Props
  imports Server
begin

text \<open>
  What a connection may do before it has authenticated, and how the mode of a connection decides what an
  acknowledgement does.
\<close>

section \<open>A connection's frames\<close>

fun run_frames :: "(server_env \<times> frame) list \<Rightarrow> connState \<Rightarrow> ('f, 'g, 'x, 'd, 's) Server \<Rightarrow> ('f, 'g, 'x, 'd, 's) served" where
  \<comment> \<open>the loop of \<open>handleConn\<close> over the frames of its client; it stops when the connection ends, and frames
    that come while it waits for a reply are not read yet\<close>
  "run_frames [] c s = Some ([], c, s)"
| "run_frames ((e, fr) # frs) c s =
     (if \<not> cnOpen c \<or> cnCall c \<noteq> None then Some ([], c, s)
      else do {
        (out, c1, s1) \<leftarrow> conn_frame e fr c s;
        (out', c2, s2) \<leftarrow> run_frames frs c1 s1;
        Some (out @ out', c2, s2)
      })"

lemma reply_cases:
  "reply_error code msg c s = Some (out, c', s') \<Longrightarrow> c' = c \<and> s' = s \<and> (\<exists>f. out = [f] \<and> EncodeError (svWire s) code msg = Some f)"
  "reply_frame op data c s = Some (out, c', s') \<Longrightarrow> c' = c \<and> s' = s \<and> (\<exists>f. out = [f] \<and> EncodeFrame op data = Some f)"
  by (auto simp: reply_error_def reply_frame_def)

section \<open>Before authentication\<close>

definition idle_conn :: "connState \<Rightarrow> bool" where
  "idle_conn c \<longleftrightarrow> cnMsgCh c = None \<and> cnStreamConsumer c = None \<and> cnCallManager c = None"

lemma hang_up_idle:
  "idle_conn c \<Longrightarrow> hang_up e (out, c, s) = Some (out, c\<lparr>cnOpen := False, cnTasks := [], cnCallManager := None\<rparr>, s)"
  by (simp add: idle_conn_def hang_up_def cleanup_conn_def)

definition refusal :: "wire \<Rightarrow> bytes \<Rightarrow> bool" where
  "refusal w f \<longleftrightarrow> (\<exists>msg. EncodeError w 9 msg = Some f \<or> EncodeFrame OpAuthResponse (mAuth w False msg) = Some f)"

lemma unauthenticated_frame:
  assumes "conn_frame e fr c s = Some (out, c', s')" and "\<not> cnAuthenticated c" and "idle_conn c"
    and "fOpCode fr = OpAuth \<longrightarrow> wAuth (svWire s) (fPayload fr) \<noteq> Some (svAuthToken s)"
  shows "s' = s \<and> \<not> cnAuthenticated c' \<and> \<not> cnOpen c' \<and> (\<exists>f. out = [f] \<and> refusal (svWire s) f)"
proof (cases "fOpCode fr = OpAuth")
  case False
  then obtain f where f: "EncodeError (svWire s) 9 ''authentication required'' = Some f"
      "hang_up (seEnv e) ([f], c, s) = Some (out, c', s')"
    using assms(1,2) by (auto simp: conn_frame_def reply_error_def split: bind_splits)
  then show ?thesis using hang_up_idle [OF assms(3), of "seEnv e" "[f]" s] assms(2) by (auto simp: refusal_def)
next
  case True
  then obtain out1 c1 s1 where h: "handleAuth (fPayload fr) c s = Some (out1, c1, s1)"
      "(if \<not> cnAuthenticated c1 then hang_up (seEnv e) (out1, c1, s1) else Some (out1, c1, s1)) = Some (out, c', s')"
    using assms(1,2) by (auto simp: conn_frame_def split: bind_splits)
  have "c1 = c \<and> s1 = s \<and> (\<exists>f. out1 = [f] \<and> refusal (svWire s) f)"
    using h(1) assms(4) True by (auto simp: handleAuth_def refusal_def split: option.splits if_splits dest!: reply_cases)
  then show ?thesis using h(2) hang_up_idle [OF assms(3), of "seEnv e" out1 s] assms(2) by auto
qed

lemma run_frames_closed: "\<not> cnOpen c \<Longrightarrow> run_frames frs c s = Some ([], c, s)"
  by (cases frs) auto

text \<open>C4. Nothing is done for a client that has not authenticated. When the server has a token, whatever frames a new
  connection sends, none of them an authentication with that token, the server is unchanged: no message, queue,
  schema or metric. The first frame is answered with a refusal and the connection ends there.\<close>

theorem unauthenticated_client_does_nothing:
  assumes "svAuthToken s \<noteq> []"
    and "\<forall>(e, fr) \<in> set frs. fOpCode fr = OpAuth \<longrightarrow> wAuth (svWire s) (fPayload fr) \<noteq> Some (svAuthToken s)"
    and "run_frames frs (new_conn addr s) s = Some (out, c, s')"
  shows "s' = s \<and> \<not> cnAuthenticated c \<and> length out \<le> 1 \<and> (\<forall>f \<in> set out. refusal (svWire s) f) \<and> (frs \<noteq> [] \<longrightarrow> \<not> cnOpen c)"
proof (cases frs)
  case Nil
  then show ?thesis using assms(1,3) by (auto simp: new_conn_def)
next
  case (Cons x rest)
  obtain e fr where x: "x = (e, fr)" by (cases x)
  have c0: "cnOpen (new_conn addr s)" "cnCall (new_conn addr s) = None" "\<not> cnAuthenticated (new_conn addr s)" "idle_conn (new_conn addr s)"
    using assms(1) by (simp_all add: new_conn_def idle_conn_def)
  obtain out1 c1 s1 where f: "conn_frame e fr (new_conn addr s) s = Some (out1, c1, s1)"
    using assms(3) Cons x c0 by (auto split: bind_splits)
  have k: "s1 = s \<and> \<not> cnAuthenticated c1 \<and> \<not> cnOpen c1 \<and> (\<exists>f. out1 = [f] \<and> refusal (svWire s) f)"
    by (rule unauthenticated_frame [OF f c0(3,4)]) (use assms(2) Cons x in auto)
  then have "run_frames rest c1 s1 = Some ([], c1, s1)" by (simp add: run_frames_closed)
  then show ?thesis using assms(3) Cons x f k c0 by auto
qed

section \<open>Stream mode\<close>

text \<open>Only \<open>handleSeek\<close> writes the mode of a connection, and it only switches it on.\<close>

lemma mode_kept_simple:
  "handlePublish e p c s = Some (out, c', s') \<Longrightarrow> c' = c"
  "handleAck e p c s = Some (out, c', s') \<Longrightarrow> c' = c"
  "handleNack e p c s = Some (out, c', s') \<Longrightarrow> c' = c"
  "handleExtendVisibility e p c s = Some (out, c', s') \<Longrightarrow> c' = c"
  "handleCommitOffset p c s = Some (out, c', s') \<Longrightarrow> c' = c"
  "handleSchemaRegister e p c s = Some (out, c', s') \<Longrightarrow> c' = c"
  "handleSchemaGet p c s = Some (out, c', s') \<Longrightarrow> c' = c"
  "handleSchemaList c s = Some (out, c', s') \<Longrightarrow> c' = c"
  "handleQueueList e c s = Some (out, c', s') \<Longrightarrow> c' = c"
  "handleHeartbeat e p c s = Some (out, c', s') \<Longrightarrow> c' = c"
  by (auto simp: handlePublish_def publish_replicated_def publish_stream_def publish_local_def publish_ack_def handleAck_def
      handleNack_def handleExtendVisibility_def handleCommitOffset_def handleSchemaRegister_def handleSchemaGet_def
      handleSchemaList_def handleQueueList_def handleHeartbeat_def Let_def
      split: option.splits if_splits sum.splits prod.splits bind_splits dest!: reply_cases)

lemma mode_kept_others:
  "handleConsume e p c s = Some (out, c', s') \<Longrightarrow> cnStreamMode c' = cnStreamMode c"
  "handleUnsubscribe e p c s = Some (out, c', s') \<Longrightarrow> cnStreamMode c' = cnStreamMode c"
  "handleCall e p c s = Some (out, c', s') \<Longrightarrow> cnStreamMode c' = cnStreamMode c"
  "handleSeek e p c s = Some (out, c', s') \<Longrightarrow> cnStreamMode c \<Longrightarrow> cnStreamMode c'"
  by (auto simp: handleConsume_def handleUnsubscribe_def handleCall_def handleSeek_def Let_def
      split: option.splits if_splits sum.splits prod.splits bind_splits dest!: reply_cases)

lemma handleFrame_mode: "handleFrame e fr c s = Some (out, c', s') \<Longrightarrow> cnStreamMode c \<Longrightarrow> cnStreamMode c'"
  unfolding handleFrame_def Let_def
  by (auto split: if_splits dest!: mode_kept_simple mode_kept_others reply_cases)

lemma conn_frame_mode:
  assumes "conn_frame e fr c s = Some (out, c', s')" and "cnStreamMode c"
  shows "cnStreamMode c'"
proof (cases "cnAuthenticated c")
  case True
  then show ?thesis using assms handleFrame_mode by (auto simp: conn_frame_def)
next
  case False
  have hang: "cnStreamMode c2 = cnStreamMode c1" if "hang_up env (o1, c1, s1) = Some (o2, c2, s2)"
    for env o1 c1 o2 c2 and s1 s2 :: "('a, 'b, 'c, 'd, 'e) Server"
    using that by (auto simp: hang_up_def cleanup_conn_def split: bind_splits)
  have auth: "cnStreamMode c1 = cnStreamMode c" if "handleAuth (fPayload fr) c s = Some (o1, c1, s1)" for o1 c1 s1
    using that by (auto simp: handleAuth_def split: option.splits if_splits dest!: reply_cases)
  show ?thesis
    using assms False by (auto simp: conn_frame_def split: if_splits bind_splits dest!: hang auth reply_cases)
qed

lemma run_frames_mode: "run_frames frs c s = Some (out, c', s') \<Longrightarrow> cnStreamMode c \<Longrightarrow> cnStreamMode c'"
proof (induction frs c s arbitrary: out rule: run_frames.induct)
  case (2 e fr frs c s)
  show ?case
  proof (cases "\<not> cnOpen c \<or> cnCall c \<noteq> None")
    case True
    then show ?thesis using 2(2,3) by auto
  next
    case False
    then obtain out1 c1 s1 out2 where f: "conn_frame e fr c s = Some (out1, c1, s1)" "run_frames frs c1 s1 = Some (out2, c', s')"
      using 2(2) by (auto split: bind_splits)
    from 2(1) [OF False f(1) refl refl f(2) conn_frame_mode [OF f(1) 2(3)]] show ?thesis .
  qed
qed simp


section \<open>A sample server\<close>

definition demo_lib :: "(unit, unit, unit, unit) proto_lib" where
  "demo_lib = \<lparr>plUnmarshalSet = \<lambda>_. Some (), plNewFiles = Some, plFind = \<lambda>_ _. Some (), plMessage = Some, plUnmarshal = \<lambda>_ _. None\<rparr>"

definition demo_wire :: wire where
  "demo_wire = \<lparr>
     wPublish = \<lambda>p. Some \<lparr>prQueue = ''q'', prPayload = p, prHeaders = [], prMessageId = ''m'', prIdempotencyKey = [], prOrderingKey = []\<rparr>,
     wConsume = \<lambda>_. Some \<lparr>crQueue = ''q'', crVisibilityTimeout = 0, crGroup = []\<rparr>, wAck = \<lambda>_. Some ''m'',
     wNack = \<lambda>_. None, wExtend = \<lambda>_. None,
     wSeek = \<lambda>_. Some \<lparr>skQueue = ''log'', skGroup = [], skPosition = SEEK_BEGINNING, skOffset = 0, skTimestamp = 0\<rparr>,
     wCommit = \<lambda>_. None, wSchemaRegister = \<lambda>_. None, wHeartbeat = \<lambda>_. None, wUnsubscribe = \<lambda>_. None, wCall = \<lambda>_. None,
     wAuth = \<lambda>p. Some (if p = [1] then ''token'' else ''guess''), mError = \<lambda>_ _. [], mMessage = \<lambda>_. [], mStreamMessage = \<lambda>_. [],
     mExtend = \<lambda>_. [], mSchemaRegister = \<lambda>_ _. [], mSchemaList = \<lambda>_. [], mQueueList = \<lambda>_. [], mSeek = \<lambda>_. [], mCommit = \<lambda>_. [],
     mHeartbeat = [], mCall = \<lambda>_. [], mAuth = \<lambda>_ _. [], errText = \<lambda>_. [], schemaErrText = \<lambda>_. []\<rparr>"

definition demo_server :: "(unit, unit, unit, unit, unit) Server" where
  "demo_server = NewServer demo_lib demo_wire (NewBroker [] 0)"

definition demo_env :: "nat \<Rightarrow> server_env" where
  "demo_env ch = \<lparr>seEnv = plain_env 0 ''u'' ch, seConsumer = plain_env 0 [] 0, seCorrelation = ''c'', seReplyCh = 0\<rparr>"

definition demo_frame :: "OpCode \<Rightarrow> frame" where
  "demo_frame op = \<lparr>fVersion = 1, fOpCode = op, fPayload = [7]\<rparr>"

definition demo_frames :: "(server_env \<times> frame) list" where
  "demo_frames = [(demo_env 2, demo_frame OpPublish), (demo_env 3, demo_frame OpConsume)]"

definition sought :: "bytes list \<times> connState \<times> (unit, unit, unit, unit, unit) Server" where
  "sought = the (run_frames [(demo_env 1, demo_frame OpSeek)] (new_conn ''a'' demo_server) demo_server)"

definition after_consume :: "bytes list \<times> connState \<times> (unit, unit, unit, unit, unit) Server" where
  "after_consume = the (run_frames demo_frames (fst (snd sought)) (snd (snd sought)))"


theorem unauthenticated_client_does_nothing_witness:
  "\<exists>out c. run_frames demo_frames (new_conn ''a'' (SetAuthToken ''token'' demo_server)) (SetAuthToken ''token'' demo_server)
      = Some (out, c, SetAuthToken ''token'' demo_server) \<and> \<not> cnOpen c"
proof -
  let ?s = "SetAuthToken ''token'' demo_server"
  have "\<not> Option.is_none (run_frames demo_frames (new_conn ''a'' ?s) ?s)" by code_simp
  then obtain out c s' where r: "run_frames demo_frames (new_conn ''a'' ?s) ?s = Some (out, c, s')" by (metis some_the prod_cases3)
  have "svAuthToken ?s \<noteq> []" "demo_frames \<noteq> []"
    "\<forall>(e, fr) \<in> set demo_frames. fOpCode fr = OpAuth \<longrightarrow> wAuth (svWire ?s) (fPayload fr) \<noteq> Some (svAuthToken ?s)"
    by (simp_all add: SetAuthToken_def demo_frames_def demo_frame_def opcode_defs)
  from unauthenticated_client_does_nothing [OF this(1,3) r] this(2) r show ?thesis by blast
qed

end
