(* ===== verification/Cluster.thy ===== *)
theory Cluster
  imports Server
begin

text \<open>
  Replication, \<open>internal/cluster\<close>: the commands of the log and the state machine that applies them to the
  broker of a node (\<open>fsm.go\<close>), what a leader proposes (\<open>replicator.go\<close>, \<open>Apply\<close> of \<open>raft.go\<close>) and the
  configuration of a node. The Raft library is a parameter: whether this node leads, and what becomes of
  a proposal. A proposal that is committed is applied by the state machine of this node, whose response the
  call returns. JSON is a parameter (\<open>command_json\<close>), as it is for the storage.
\<close>

section \<open>Commands\<close>

definition CmdPublish :: u8 where "CmdPublish = 1"
definition CmdAck :: u8 where "CmdAck = 2"
definition CmdNack :: u8 where "CmdNack = 3"
definition CmdCreateQueue :: u8 where "CmdCreateQueue = 4"
definition CmdDeleteQueue :: u8 where "CmdDeleteQueue = 5"
definition CmdSchemaRegister :: u8 where "CmdSchemaRegister = 6"

record Command =
  cdType :: u8
  cdData :: bytes

record PublishCommand =
  pcQueue :: string
  pcMessageID :: string
  pcPayload :: bytes
  pcHeaders :: "(string, string) gomap"
  pcPublishedAt :: int
  pcStream :: bool

record AckCommand =
  acQueue :: string
  acMessageID :: string

record NackCommand =
  ncQueue :: string
  ncMessageID :: string
  ncRequeue :: bool

record SchemaRegisterCommand =
  srQueue :: string
  srDescriptor :: bytes
  srMessageType :: string

record snapshotMessage =
  snID :: string
  snQueue :: string
  snPayload :: bytes
  snHeaders :: "(string, string) gomap"
  snAttempt :: u32
  snPublishedAt :: int
  snVisibleAt :: int

record fsmSnapshot =
  fsQueues :: "(string, snapshotMessage list) gomap"
  fsStreamQueues :: "string list"

record command_json =
  cjCommand :: "Command \<Rightarrow> error + bytes"
  cjUnCommand :: "bytes \<Rightarrow> error + Command"
  cjPublish :: "PublishCommand \<Rightarrow> error + bytes"
  cjUnPublish :: "bytes \<Rightarrow> error + PublishCommand"
  cjAck :: "AckCommand \<Rightarrow> error + bytes"
  cjUnAck :: "bytes \<Rightarrow> error + AckCommand"
  cjNack :: "NackCommand \<Rightarrow> error + bytes"
  cjUnNack :: "bytes \<Rightarrow> error + NackCommand"
  cjUnCreateQueue :: "bytes \<Rightarrow> error + string"
  cjUnSchemaRegister :: "bytes \<Rightarrow> error + SchemaRegisterCommand"
  cjSnapshot :: "fsmSnapshot \<Rightarrow> error + bytes"
  cjUnSnapshot :: "bytes \<Rightarrow> error + fsmSnapshot"

record FSMResponse =
  frError :: "error option"
  frMessageID :: string
  frVersion :: u32

definition fsm_error :: "error \<Rightarrow> FSMResponse" where
  "fsm_error e = \<lparr>frError = Some e, frMessageID = [], frVersion = 0\<rparr>"

definition fsm_ok :: "string \<Rightarrow> FSMResponse" where
  "fsm_ok messageID = \<lparr>frError = None, frMessageID = messageID, frVersion = 0\<rparr>"

section \<open>The state machine\<close>

definition replicated_message :: "PublishCommand \<Rightarrow> message" where
  "replicated_message cmd =
     \<lparr>mID = pcMessageID cmd, mQueue = pcQueue cmd, mPayload = pcPayload cmd, mHeaders = pcHeaders cmd, mAttempt = 0,
      mPublishedAt = time_of_milli (pcPublishedAt cmd), mVisibleAt = time_of_milli (pcPublishedAt cmd),
      mOrderingKey = [], mSequence = 0\<rparr>"

definition fsm_publish_stream :: "PublishCommand \<Rightarrow> 's Broker \<Rightarrow> (FSMResponse \<times> 's Broker) go" where
  "fsm_publish_stream cmd b =
     (let b1 = GetOrCreateStreamQueue (pcQueue cmd) b
      in case GetStreamQueue (pcQueue cmd) b1 of
           None \<Rightarrow> None
         | Some sq \<Rightarrow>
             (case sqPublish (replicated_message cmd) sq (stream_handle b1) of
                ((_, err), sq', h) \<Rightarrow>
                  (let b2 = put_handle h (b1\<lparr>bStreamQueues := gm_set (bStreamQueues b1) (pcQueue cmd) sq'\<rparr>)
                   in Some (case err of Some e \<Rightarrow> fsm_error e | None \<Rightarrow> fsm_ok (pcMessageID cmd), b2))))"

definition fsm_publish_queue :: "env \<Rightarrow> PublishCommand \<Rightarrow> 's Broker \<Rightarrow> (FSMResponse \<times> 's Broker) go" where
  \<comment> \<open>the message is saved as the queue left it; an error of the save is logged only\<close>
  "fsm_publish_queue e cmd b =
     (let b1 = GetOrCreateQueue (pcQueue cmd) b; msg = replicated_message cmd
      in do {
        ((err, saved), b2) \<leftarrow> on_queue (pcQueue cmd)
          (\<lambda>q. map_option (\<lambda>(err, q'). ((err, enqueued msg err q'), q')) (Enqueue (eOrders e) msg (eNow e) q)) b1;
        Some (case err of
           Some er \<Rightarrow> (fsm_error er, b2)
         | None \<Rightarrow> (fsm_ok (pcMessageID cmd), fst (on_storage (\<lambda>ops. soSaveMessage ops saved) b2)))
      })"

definition applyPublish :: "command_json \<Rightarrow> env \<Rightarrow> bytes \<Rightarrow> 's Broker \<Rightarrow> (FSMResponse \<times> 's Broker) go" where
  "applyPublish js e data b =
     (case cjUnPublish js data of
        Inl err \<Rightarrow> Some (fsm_error err, b)
      | Inr cmd \<Rightarrow> if pcStream cmd then fsm_publish_stream cmd b else fsm_publish_queue e cmd b)"

definition applyAck :: "command_json \<Rightarrow> env \<Rightarrow> bytes \<Rightarrow> 's Broker \<Rightarrow> (FSMResponse \<times> 's Broker) go" where
  "applyAck js e data b =
     (case cjUnAck js data of
        Inl err \<Rightarrow> Some (fsm_error err, b)
      | Inr cmd \<Rightarrow>
          (case GetQueue (acQueue cmd) b of
             None \<Rightarrow> Some (fsm_error (ErrText ''queue not found''), b)
           | Some q \<Rightarrow> do {
               (_, q') \<leftarrow> Ack (acMessageID cmd) (eNow e) q;
               Some (fsm_ok [], fst (on_storage (\<lambda>ops. soDeleteMessage ops (acQueue cmd) (acMessageID cmd))
                 (b\<lparr>bQueues := gm_set (bQueues b) (acQueue cmd) q'\<rparr>)))
             }))"

definition applyNack :: "command_json \<Rightarrow> env \<Rightarrow> bytes \<Rightarrow> 's Broker \<Rightarrow> (FSMResponse \<times> 's Broker) go" where
  \<comment> \<open>what the queue decided (dead letter, drop, requeue) is not acted upon\<close>
  "applyNack js e data b =
     (case cjUnNack js data of
        Inl err \<Rightarrow> Some (fsm_error err, b)
      | Inr cmd \<Rightarrow>
          (case GetQueue (ncQueue cmd) b of
             None \<Rightarrow> Some (fsm_error (ErrText ''queue not found''), b)
           | Some q \<Rightarrow> do {
               (_, q') \<leftarrow> Nack (ncMessageID cmd) (ncRequeue cmd) (eNow e) q;
               Some (fsm_ok [], b\<lparr>bQueues := gm_set (bQueues b) (ncQueue cmd) q'\<rparr>)
             }))"

definition applyCreateQueue :: "command_json \<Rightarrow> bytes \<Rightarrow> 's Broker \<Rightarrow> FSMResponse \<times> 's Broker" where
  "applyCreateQueue js data b =
     (case cjUnCreateQueue js data of
        Inl err \<Rightarrow> (fsm_error err, b)
      | Inr name \<Rightarrow> (fsm_ok [], GetOrCreateQueue name b))"

definition applySchemaRegister :: "command_json \<Rightarrow> bytes \<Rightarrow> 's Broker \<Rightarrow> FSMResponse \<times> 's Broker" where
  "applySchemaRegister js data b =
     (case cjUnSchemaRegister js data of
        Inl err \<Rightarrow> (fsm_error err, b)
      | Inr cmd \<Rightarrow> (fsm_ok [], GetOrCreateQueue (srQueue cmd) b))"

definition fsmApply :: "command_json \<Rightarrow> env \<Rightarrow> bytes \<Rightarrow> 's Broker \<Rightarrow> (FSMResponse \<times> 's Broker) go" where
  "fsmApply js e l b =
     (case cjUnCommand js l of
        Inl err \<Rightarrow> Some (fsm_error (ErrText ''unmarshal command''), b)
      | Inr cmd \<Rightarrow>
          if cdType cmd = CmdPublish then applyPublish js e (cdData cmd) b
          else if cdType cmd = CmdAck then applyAck js e (cdData cmd) b
          else if cdType cmd = CmdNack then applyNack js e (cdData cmd) b
          else if cdType cmd = CmdCreateQueue then Some (applyCreateQueue js (cdData cmd) b)
          else if cdType cmd = CmdDeleteQueue then Some (fsm_error (ErrText ''delete queue not implemented''), b)
          else if cdType cmd = CmdSchemaRegister then Some (applySchemaRegister js (cdData cmd) b)
          else Some (fsm_error (ErrText ''unknown command type''), b))"

section \<open>Snapshots\<close>

definition snapshot_message :: "message \<Rightarrow> snapshotMessage" where
  "snapshot_message m = \<lparr>snID = mID m, snQueue = mQueue m, snPayload = mPayload m, snHeaders = mHeaders m, snAttempt = mAttempt m,
     snPublishedAt = unix_milli (mPublishedAt m), snVisibleAt = unix_milli (mVisibleAt m)\<rparr>"

definition restored_message :: "snapshotMessage \<Rightarrow> message" where
  "restored_message sm = \<lparr>mID = snID sm, mQueue = snQueue sm, mPayload = snPayload sm, mHeaders = snHeaders sm,
     mAttempt = snAttempt sm, mPublishedAt = time_of_milli (snPublishedAt sm), mVisibleAt = time_of_milli (snVisibleAt sm),
     mOrderingKey = [], mSequence = 0\<rparr>"

fun snapshot_names :: "string list \<Rightarrow> 's Broker \<Rightarrow> fsmSnapshot \<Rightarrow> fsmSnapshot" where
  "snapshot_names [] b sn = sn"
| "snapshot_names (name # names) b sn =
     (case GetStreamQueue name b of
        Some sq \<Rightarrow> snapshot_names names b (sn\<lparr>fsStreamQueues := fsStreamQueues sn @ [sqName sq]\<rparr>)
      | None \<Rightarrow>
          (case GetQueue name b of
             None \<Rightarrow> snapshot_names names b sn
           | Some q \<Rightarrow> snapshot_names names b (sn\<lparr>fsQueues := gm_set (fsQueues sn) name []\<rparr>)))"

definition snapshot_append :: "string \<Rightarrow> message list \<Rightarrow> fsmSnapshot \<Rightarrow> fsmSnapshot" where
  "snapshot_append name msgs sn =
     (if msgs = [] then sn
      else sn\<lparr>fsQueues := gm_set (fsQueues sn) name
             ((case gm_get (fsQueues sn) name of None \<Rightarrow> [] | Some ms \<Rightarrow> ms) @ map snapshot_message msgs)\<rparr>)"

fun snapshot_stored :: "'s storage_ops \<Rightarrow> 's \<Rightarrow> string list \<Rightarrow> 's Broker \<Rightarrow> fsmSnapshot \<Rightarrow> fsmSnapshot" where
  \<comment> \<open>a queue that cannot be loaded is logged and skipped\<close>
  "snapshot_stored ops s [] b sn = sn"
| "snapshot_stored ops s (name # names) b sn =
     (if IsStreamQueue name b then snapshot_stored ops s names b sn
      else (case soLoadMessages ops name s of
              (_, Some _) \<Rightarrow> snapshot_stored ops s names b sn
            | (msgs, None) \<Rightarrow> snapshot_stored ops s names b (snapshot_append name msgs sn)))"

definition Snapshot :: "env \<Rightarrow> 's Broker \<Rightarrow> fsmSnapshot" where
  "Snapshot e b =
     (let queues = ListQueues e b;
          sn = snapshot_names queues b \<lparr>fsQueues = [], fsStreamQueues = []\<rparr>
      in case bStorage b of None \<Rightarrow> sn | Some (ops, s) \<Rightarrow> snapshot_stored ops s queues b sn)"

fun restore_messages :: "env \<Rightarrow> string \<Rightarrow> snapshotMessage list \<Rightarrow> 's Broker \<Rightarrow> (error option \<times> 's Broker) go" where
  "restore_messages e name [] b = Some (None, b)"
| "restore_messages e name (sm # sms) b = do {
     (saved, b1) \<leftarrow> on_queue name
       (\<lambda>q. map_option (\<lambda>q'. (enqueued (restored_message sm) None q', q')) (EnqueueDirect (eOrders e) (restored_message sm) (eNow e) q)) b;
     (case on_storage (\<lambda>ops. soSaveMessage ops saved) b1 of
        (b2, Some err) \<Rightarrow> Some (Some (ErrText ''persist restored message''), b2)
      | (b2, None) \<Rightarrow> restore_messages e name sms b2)
   }"

fun restore_queues :: "env \<Rightarrow> (string \<times> snapshotMessage list) list \<Rightarrow> 's Broker \<Rightarrow> (error option \<times> 's Broker) go" where
  "restore_queues e [] b = Some (None, b)"
| "restore_queues e ((name, msgs) # rest) b = do {
     let b0 = GetOrCreateQueue name b;
     (err, b1) \<leftarrow> restore_messages e name msgs b0;
     (case err of Some er \<Rightarrow> Some (Some er, b1) | None \<Rightarrow> restore_queues e rest b1)
   }"

definition Restore :: "command_json \<Rightarrow> env \<Rightarrow> ((string \<times> snapshotMessage list) list \<Rightarrow> (string \<times> snapshotMessage list) list)
    \<Rightarrow> bytes \<Rightarrow> 's Broker \<Rightarrow> (error option \<times> 's Broker) go" where
  "Restore js e order data b =
     (case cjUnSnapshot js data of
        Inl err \<Rightarrow> Some (Some (ErrText ''decode snapshot''), b)
      | Inr sn \<Rightarrow>
          (let b1 = foldl (\<lambda>b name. GetOrCreateStreamQueue name b) (ResetForRestore b) (fsStreamQueues sn)
           in restore_queues e (order (fsQueues sn)) b1))"

record sink =
  \<comment> \<open>what the snapshot sink of Raft answers to \<open>Write\<close> and to \<open>Close\<close>\<close>
  skWrite :: "bytes \<Rightarrow> error option"
  skClose :: "error option"

datatype sink_state = SinkCancelled | SinkClosed bytes

definition Persist :: "command_json \<Rightarrow> sink \<Rightarrow> fsmSnapshot \<Rightarrow> error option \<times> sink_state" where
  "Persist js sink sn =
     (case cjSnapshot js sn of
        Inl err \<Rightarrow> (Some err, SinkCancelled)
      | Inr data \<Rightarrow>
          (case skWrite sink data of
             Some err \<Rightarrow> (Some err, SinkCancelled)
           | None \<Rightarrow> (skClose sink, SinkClosed data)))"

section \<open>Proposals\<close>

datatype raft_outcome = Committed | RaftNotLeader | RaftFailed error

record raft =
  rfLeader :: bool
  rfLeaderAddr :: string
  rfApply :: "bytes \<Rightarrow> raft_outcome"

definition HasQuorum :: "raft \<Rightarrow> bool" where
  "HasQuorum rf \<longleftrightarrow> rfLeaderAddr rf \<noteq> []"

definition nodeApply :: "command_json \<Rightarrow> raft \<Rightarrow> env \<Rightarrow> Command \<Rightarrow> 's Broker \<Rightarrow> ((error + FSMResponse) \<times> 's Broker) go" where
  "nodeApply js rf e cmd b =
     (if \<not> rfLeader rf then Some (Inl ErrNotLeader, b)
      else case cjCommand js cmd of
        Inl err \<Rightarrow> Some (Inl (ErrText ''marshal command''), b)
      | Inr data \<Rightarrow>
          (case rfApply rf data of
             RaftNotLeader \<Rightarrow> Some (Inl ErrNotLeader, b)
           | RaftFailed err \<Rightarrow> Some (Inl (ErrApplyFailed err), b)
           | Committed \<Rightarrow> do {
               (resp, b') \<leftarrow> fsmApply js e data b;
               Some (case frError resp of Some er \<Rightarrow> Inl er | None \<Rightarrow> Inr resp, b')
             }))"

definition ReplicatePublish :: "command_json \<Rightarrow> raft \<Rightarrow> env \<Rightarrow> string \<Rightarrow> string \<Rightarrow> bytes \<Rightarrow> (string, string) gomap \<Rightarrow> time \<Rightarrow> bool
    \<Rightarrow> 's Broker \<Rightarrow> ((error + string) \<times> 's Broker) go" where
  "ReplicatePublish js rf e queue messageID payload headers publishedAt stream b =
     (case cjPublish js \<lparr>pcQueue = queue, pcMessageID = messageID, pcPayload = payload, pcHeaders = headers,
             pcPublishedAt = unix_milli publishedAt, pcStream = stream\<rparr> of
        Inl err \<Rightarrow> Some (Inl (ErrText ''marshal publish command''), b)
      | Inr data \<Rightarrow> do {
          (res, b') \<leftarrow> nodeApply js rf e \<lparr>cdType = CmdPublish, cdData = data\<rparr> b;
          Some (case res of Inl err \<Rightarrow> Inl err | Inr resp \<Rightarrow> Inr (frMessageID resp), b')
        })"

definition ReplicateAck :: "command_json \<Rightarrow> raft \<Rightarrow> env \<Rightarrow> string \<Rightarrow> string \<Rightarrow> 's Broker \<Rightarrow> (error option \<times> 's Broker) go" where
  "ReplicateAck js rf e queue messageID b =
     (case cjAck js \<lparr>acQueue = queue, acMessageID = messageID\<rparr> of
        Inl err \<Rightarrow> Some (Some (ErrText ''marshal ack command''), b)
      | Inr data \<Rightarrow> do {
          (res, b') \<leftarrow> nodeApply js rf e \<lparr>cdType = CmdAck, cdData = data\<rparr> b;
          Some (case res of Inl err \<Rightarrow> Some err | Inr _ \<Rightarrow> None, b')
        })"

definition ReplicateNack :: "command_json \<Rightarrow> raft \<Rightarrow> env \<Rightarrow> string \<Rightarrow> string \<Rightarrow> bool \<Rightarrow> 's Broker \<Rightarrow> (error option \<times> 's Broker) go" where
  "ReplicateNack js rf e queue messageID requeue b =
     (case cjNack js \<lparr>ncQueue = queue, ncMessageID = messageID, ncRequeue = requeue\<rparr> of
        Inl err \<Rightarrow> Some (Some (ErrText ''marshal nack command''), b)
      | Inr data \<Rightarrow> do {
          (res, b') \<leftarrow> nodeApply js rf e \<lparr>cdType = CmdNack, cdData = data\<rparr> b;
          Some (case res of Inl err \<Rightarrow> Some err | Inr _ \<Rightarrow> None, b')
        })"

definition node_replicator :: "command_json \<Rightarrow> raft \<Rightarrow> env \<Rightarrow> 's Replicator" where
  "node_replicator js rf e = \<lparr>rpIsLeader = rfLeader rf, rpPublish = ReplicatePublish js rf e, rpAck = ReplicateAck js rf e,
     rpNack = ReplicateNack js rf e\<rparr>"

section \<open>The configuration of a node\<close>

record Config =
  cfNodeID :: string
  cfBindAddr :: string
  cfAdvertiseAddr :: string
  cfDataDir :: string
  cfPeers :: "string list"
  cfBootstrap :: bool

fun parsePeer :: "string \<Rightarrow> string \<Rightarrow> error + string \<times> string" where
  \<comment> \<open>the first argument is what was read so far\<close>
  "parsePeer pre [] = Inl (ErrText ''invalid peer format'')"
| "parsePeer pre (c # rest) =
     (if c = CHR ''='' then
        (if pre = [] \<or> rest = [] then Inl (ErrText ''invalid peer format'') else Inr (pre, rest))
      else parsePeer (pre @ [c]) rest)"

definition check_config :: "Config \<Rightarrow> error + Config" where
  \<comment> \<open>the head of \<open>NewNode\<close>\<close>
  "check_config cfg =
     (if cfNodeID cfg = [] then Inl (ErrText ''cluster: node ID is required'')
      else if cfBindAddr cfg = [] then Inl (ErrText ''cluster: bind address is required'')
      else if cfDataDir cfg = [] then Inl (ErrText ''cluster: data directory is required'')
      else Inr (if cfAdvertiseAddr cfg = [] then cfg\<lparr>cfAdvertiseAddr := cfBindAddr cfg\<rparr> else cfg))"

definition bootstrap_servers :: "Config \<Rightarrow> (string \<times> string) list" where
  \<comment> \<open>this node and the peers that parse, without itself\<close>
  "bootstrap_servers cfg =
     (cfNodeID cfg, cfAdvertiseAddr cfg) #
     List.map_filter (\<lambda>peer. case parsePeer [] peer of Inl _ \<Rightarrow> None | Inr (i, addr) \<Rightarrow> if i = cfNodeID cfg then None else Some (i, addr))
       (cfPeers cfg)"

end
