(* ===== verification/Idle_Queues.thy ===== *)
theory Idle_Queues
  imports Broker Queue_Content
begin

text \<open>
  Brokers that nobody consumes from: no queue has a consumer, a group or a message in flight. It is the state of
  a broker that has just started, while it loads its queues, and of a replica that only applies the log. Publishes
  append there and nothing else happens, whatever the clock shows.
\<close>

definition idle_queue :: "Queue \<Rightarrow> bool" where
  "idle_queue q \<longleftrightarrow> qConsumers q = [] \<and> qGroups q = [] \<and> qInFlight q = []"

definition idle_broker :: "'s Broker \<Rightarrow> bool" where
  "idle_broker b \<longleftrightarrow> gm_all (\<lambda>_ q. idle_queue q) (bQueues b)"

definition grows :: "'s Broker \<Rightarrow> 's Broker \<Rightarrow> bool" where
  "grows b b' \<longleftrightarrow> (\<forall>name q. gm_get (bQueues b) name = Some q \<longrightarrow>
     (\<exists>q' extra. gm_get (bQueues b') name = Some q' \<and> qMessages q' = qMessages q @ extra))"

lemma EnqueueDirect_idle:
  assumes "idle_queue q" and "orders_ok ro"
  shows "EnqueueDirect ro msg now q = Some (q\<lparr>qMessages := qMessages q @ [msg]\<rparr>)"
  using assms no_groups_order [of ro] by (simp add: EnqueueDirect_def tryDeliver_def idle_queue_def)

lemma Enqueue_idle:
  assumes "idle_queue q" and "orders_ok ro"
  shows "Enqueue ro msg now q =
    Some (if qMaxSize q > 0 \<and> int (length (qMessages q)) \<ge> qMaxSize q then (Some ErrQueueFull, q)
          else (None, q\<lparr>qMessages := qMessages q @ [msg]\<rparr>))"
  using assms no_groups_order [of ro] by (simp add: Enqueue_def tryDeliver_def idle_queue_def)

lemma Ack_idle: "idle_queue q \<Longrightarrow> Ack i now q = Some (False, q)"
  by (simp add: Ack_def ackWithHook_def idle_queue_def)

lemma Nack_idle: "idle_queue q \<Longrightarrow> Nack i rq now q = Some (NackNotFound, q)"
  by (simp add: Nack_def nackWithHooks_def idle_queue_def)

lemma idle_NewQueue: "idle_queue (NewQueue name)"
  by (simp add: idle_queue_def NewQueue_def)

lemma idle_messages: "idle_queue (q\<lparr>qMessages := ms\<rparr>) = idle_queue q"
  by (simp add: idle_queue_def)

lemma idle_broker_get: "idle_broker b \<Longrightarrow> gm_get (bQueues b) name = Some q \<Longrightarrow> idle_queue q"
  unfolding idle_broker_def by (drule gm_all_get)

lemma idle_broker_set: "idle_broker b \<Longrightarrow> idle_queue q \<Longrightarrow> idle_broker (b\<lparr>bQueues := gm_set (bQueues b) name q\<rparr>)"
  by (simp add: idle_broker_def gm_all_set)

lemma queues_on_storage [simp]: "bQueues (fst (on_storage f b)) = bQueues b"
  by (simp add: on_storage_def split: prod.splits)

lemma on_storage_queues: "on_storage f b = (b', err) \<Longrightarrow> bQueues b' = bQueues b"
  using queues_on_storage [of f b] by (simp del: queues_on_storage)

lemma GetOrCreateQueue_queues:
  "bQueues (GetOrCreateQueue name b) = bQueues b \<or>
   gm_get (bQueues b) name = None \<and> bQueues (GetOrCreateQueue name b) = gm_set (bQueues b) name (NewQueue name)"
  by (auto simp: GetOrCreateQueue_def GetOrCreateQueueWithError_def Let_def on_storage_queues split: option.splits prod.splits)

lemma idle_broker_GetOrCreateQueue: "idle_broker b \<Longrightarrow> idle_broker (GetOrCreateQueue name b)"
  using GetOrCreateQueue_queues [of name b] by (auto simp: idle_broker_def idle_NewQueue intro!: gm_all_set)

lemma grows_refl: "grows b b"
  by (auto simp: grows_def)

lemma grows_trans: "grows b b1 \<Longrightarrow> grows b1 b2 \<Longrightarrow> grows b b2"
  unfolding grows_def by (metis append.assoc)

lemma grows_GetOrCreateQueue: "grows b (GetOrCreateQueue name b)"
  using GetOrCreateQueue_queues [of name b] by (auto simp: grows_def)

lemma grows_set:
  "gm_get (bQueues b) name = Some q \<Longrightarrow> qMessages q' = qMessages q @ extra \<Longrightarrow> grows b (b\<lparr>bQueues := gm_set (bQueues b) name q'\<rparr>)"
  by (auto simp: grows_def)

lemma queues_put_handle [simp]: "bQueues (put_handle h b) = bQueues b"
  by (simp add: put_handle_def split: option.splits prod.splits)

lemma queues_GetOrCreateStreamQueue [simp]: "bQueues (GetOrCreateStreamQueue name b) = bQueues b"
  by (auto simp: GetOrCreateStreamQueue_def GetOrCreateStreamQueueWithError_def Let_def on_storage_queues split: option.splits prod.splits)

end
