(* ===== verification/Cluster_Props.thy ===== *)
theory Cluster_Props
  imports Cluster Idle_Queues
begin

text \<open>
  Replicas. \<open>idle_broker\<close> is a replica that nobody consumes from: its queues have no consumer, no group and nothing
  in flight. It is a hypothesis about the clients: publishes, acks and nacks are refused by a node that does
  not lead, but \<open>handleConsume\<close> of \<open>server.go\<close> does not ask who leads, and a replica with a consumer of its own delivers by
  its own clock. The state machine keeps it so, what it does there depends on
  the log alone, and it never takes a pending message off a queue, whatever the log acknowledges.
\<close>

fun apply_log :: "command_json \<Rightarrow> (env \<times> bytes) list \<Rightarrow> 's Broker \<Rightarrow> (FSMResponse list \<times> 's Broker) go" where
  \<comment> \<open>the committed entries in order, each with the clock and the map orders of the node that applies it\<close>
  "apply_log js [] b = Some ([], b)"
| "apply_log js ((e, l) # rest) b = do {
     (r, b1) \<leftarrow> fsmApply js e l b;
     (rs, b2) \<leftarrow> apply_log js rest b1;
     Some (r # rs, b2)
   }"

section \<open>One entry\<close>

definition keeps :: "'s Broker \<Rightarrow> (FSMResponse \<times> 's Broker) go \<Rightarrow> bool" where
  "keeps b res \<longleftrightarrow> (case res of None \<Rightarrow> True | Some (_, b') \<Rightarrow> idle_broker b' \<and> grows b b')"

definition with_queue :: "'s Broker \<Rightarrow> string \<Rightarrow> Queue \<Rightarrow> 's Broker" where
  "with_queue b name q = b\<lparr>bQueues := gm_set (bQueues b) name q\<rparr>"

lemma fsm_publish_queue_idle:
  assumes "idle_broker b" and "env_ok e"
  shows "fsm_publish_queue e cmd b =
    (let b1 = GetOrCreateQueue (pcQueue cmd) b; msg = replicated_message cmd
     in case gm_get (bQueues b1) (pcQueue cmd) of
          None \<Rightarrow> None
        | Some q \<Rightarrow>
            Some (if qMaxSize q > 0 \<and> int (length (qMessages q)) \<ge> qMaxSize q
                  then (fsm_error ErrQueueFull, with_queue b1 (pcQueue cmd) q)
                  else (fsm_ok (pcMessageID cmd), fst (on_storage (\<lambda>ops. soSaveMessage ops msg)
                         (with_queue b1 (pcQueue cmd) (q\<lparr>qMessages := qMessages q @ [msg]\<rparr>))))))"
proof (cases "gm_get (bQueues (GetOrCreateQueue (pcQueue cmd) b)) (pcQueue cmd)")
  case None
  then show ?thesis by (simp add: fsm_publish_queue_def on_queue_def Let_def)
next
  case (Some q)
  have "idle_queue q" by (rule idle_broker_get [OF idle_broker_GetOrCreateQueue [OF assms(1)] Some])
  then show ?thesis using Some assms(2) Enqueue_idle [of q "eOrders e"]
    by (simp add: fsm_publish_queue_def on_queue_def Let_def env_ok_def enqueued_def with_queue_def)
qed

lemma fsm_publish_queue_keeps:
  assumes "idle_broker b" and "env_ok e"
  shows "keeps b (fsm_publish_queue e cmd b)"
proof (cases "gm_get (bQueues (GetOrCreateQueue (pcQueue cmd) b)) (pcQueue cmd)")
  case None
  then show ?thesis using assms by (simp add: fsm_publish_queue_idle keeps_def Let_def)
next
  case (Some q)
  let ?b1 = "GetOrCreateQueue (pcQueue cmd) b"
  have f: "idle_broker ?b1" by (rule idle_broker_GetOrCreateQueue [OF assms(1)])
  have i: "idle_queue q" by (rule idle_broker_get [OF f Some])
  have k: "idle_broker (with_queue ?b1 (pcQueue cmd) (q\<lparr>qMessages := qMessages q @ ms\<rparr>)) \<and>
      grows b (with_queue ?b1 (pcQueue cmd) (q\<lparr>qMessages := qMessages q @ ms\<rparr>))" for ms
    unfolding with_queue_def
    using idle_broker_set [OF f, of "q\<lparr>qMessages := qMessages q @ ms\<rparr>"] i
      grows_trans [OF grows_GetOrCreateQueue grows_set [OF Some, of "q\<lparr>qMessages := qMessages q @ ms\<rparr>" ms]]
    by (simp add: idle_messages)
  show ?thesis using k [of "[]"] k [of "[replicated_message cmd]"] Some
    unfolding fsm_publish_queue_idle [OF assms] keeps_def
    by (simp add: Let_def idle_broker_def grows_def)
qed

lemma keeps_same: "idle_broker b \<Longrightarrow> bQueues b' = bQueues b \<Longrightarrow> keeps b (Some (r, b'))"
  by (simp add: keeps_def idle_broker_def grows_def)

lemma fsm_publish_stream_keeps: "idle_broker b \<Longrightarrow> keeps b (fsm_publish_stream cmd b)"
  by (auto simp: fsm_publish_stream_def Let_def keeps_def idle_broker_def grows_def split: option.splits prod.splits)

lemma keeps_create: "idle_broker b \<Longrightarrow> keeps b (Some (r, GetOrCreateQueue name b))"
  by (simp add: keeps_def idle_broker_GetOrCreateQueue grows_GetOrCreateQueue)

lemma applyAck_keeps: "idle_broker b \<Longrightarrow> keeps b (applyAck js e data b)"
  by (auto simp: applyAck_def keeps_def GetQueue_def Ack_idle idle_broker_get idle_broker_def grows_def gm_all_set
      split: sum.splits option.splits)

lemma applyNack_keeps: "idle_broker b \<Longrightarrow> keeps b (applyNack js e data b)"
  by (auto simp: applyNack_def keeps_def GetQueue_def Nack_idle idle_broker_get idle_broker_def grows_def gm_all_set
      split: sum.splits option.splits)

lemma fsmApply_keeps:
  assumes "idle_broker b" and "env_ok e"
  shows "keeps b (fsmApply js e l b)"
proof -
  have "keeps b (applyPublish js e data b)" for data
    using assms fsm_publish_queue_keeps fsm_publish_stream_keeps
    by (auto simp: applyPublish_def keeps_same split: sum.splits)
  moreover have "keeps b (Some (applyCreateQueue js data b))" "keeps b (Some (applySchemaRegister js data b))" for data
    using assms(1) by (auto simp: applyCreateQueue_def applySchemaRegister_def keeps_create keeps_same split: sum.splits)
  ultimately show ?thesis
    by (simp add: fsmApply_def keeps_same [OF assms(1)] applyAck_keeps [OF assms(1)] applyNack_keeps [OF assms(1)] split: sum.splits)
qed

lemma fsmApply_deterministic:
  assumes "idle_broker b" and "env_ok e" and "env_ok e'"
  shows "fsmApply js e l b = fsmApply js e' l b"
proof -
  have "applyPublish js e data b = applyPublish js e' data b" for data
    using assms by (simp add: applyPublish_def fsm_publish_queue_idle split: sum.splits)
  moreover have "applyAck js e data b = applyAck js e' data b" "applyNack js e data b = applyNack js e' data b" for data
    using assms(1) by (auto simp: applyAck_def applyNack_def GetQueue_def Ack_idle Nack_idle idle_broker_get
        split: sum.splits option.splits)
  ultimately show ?thesis by (simp add: fsmApply_def split: sum.splits)
qed

lemma acked_at_follower:
  assumes "idle_broker b" and "cjUnAck js data = Inr cmd" and "GetQueue (acQueue cmd) b = Some q"
  shows "applyAck js e data b = Some (fsm_ok [],
    fst (on_storage (\<lambda>ops. soDeleteMessage ops (acQueue cmd) (acMessageID cmd)) (with_queue b (acQueue cmd) q)))"
  using assms idle_broker_get [OF assms(1), of "acQueue cmd" q]
  by (simp add: applyAck_def Ack_idle with_queue_def GetQueue_def)

section \<open>The whole log\<close>

text \<open>C7. Replicas converge: two replicas without consumers that start in the same state and apply the same entries of the log end in the
  same state and give the same responses, whatever their clocks showed and in whatever order they ranged over their maps.\<close>

theorem followers_converge:
  assumes "idle_broker b" and "map snd xs = map snd ys"
    and "list_all (env_ok \<circ> fst) xs" and "list_all (env_ok \<circ> fst) ys"
  shows "apply_log js xs b = apply_log js ys b"
  using assms
proof (induction xs arbitrary: ys b)
  case Nil
  then show ?case by simp
next
  case (Cons x xs)
  obtain y ys' where ys: "ys = y # ys'" using Cons.prems(2) by (cases ys) auto
  have one: "fsmApply js (fst x) (snd x) b = fsmApply js (fst y) (snd y) b"
    using Cons.prems ys fsmApply_deterministic [of b "fst x" "fst y"] by simp
  have k: "keeps b (fsmApply js (fst y) (snd y) b)"
    using Cons.prems ys by (intro fsmApply_keeps) simp_all
  show ?case
  proof (cases "fsmApply js (fst y) (snd y) b")
    case None
    then show ?thesis using one ys by (cases x; cases y) simp
  next
    case (Some rb)
    then have "idle_broker (snd rb)" using k by (simp add: keeps_def split: prod.splits)
    then have "apply_log js xs (snd rb) = apply_log js ys' (snd rb)"
      using Cons.prems ys by (intro Cons.IH) simp_all
    then show ?thesis using one ys Some by (cases x; cases y; cases rb) simp
  qed
qed

definition demo_json :: command_json where
  \<comment> \<open>a codec for one-letter names: the type of a command before its data, a name per byte\<close>
  "demo_json = \<lparr>cjCommand = \<lambda>c. Inr (cdType c # cdData c),
     cjUnCommand = \<lambda>bs. case bs of [] \<Rightarrow> Inl (ErrText ''json'') | t # d \<Rightarrow> Inr \<lparr>cdType = t, cdData = d\<rparr>,
     cjPublish = \<lambda>c. Inr (bytes_of (pcQueue c @ pcMessageID c)),
     cjUnPublish = \<lambda>bs. case bs of [q, i] \<Rightarrow> Inr \<lparr>pcQueue = string_of [q], pcMessageID = string_of [i], pcPayload = [], pcHeaders = [],
        pcPublishedAt = 0, pcStream = False\<rparr> | _ \<Rightarrow> Inl (ErrText ''json''),
     cjAck = \<lambda>c. Inr (bytes_of (acQueue c @ acMessageID c)),
     cjUnAck = \<lambda>bs. case bs of [q, i] \<Rightarrow> Inr \<lparr>acQueue = string_of [q], acMessageID = string_of [i]\<rparr> | _ \<Rightarrow> Inl (ErrText ''json''),
     cjNack = \<lambda>c. Inl (ErrText ''json''), cjUnNack = \<lambda>bs. Inl (ErrText ''json''),
     cjUnCreateQueue = \<lambda>bs. Inr (string_of bs), cjUnSchemaRegister = \<lambda>bs. Inl (ErrText ''json''),
     cjSnapshot = \<lambda>sn. Inl (ErrText ''json''), cjUnSnapshot = \<lambda>bs. Inl (ErrText ''json'')\<rparr>"

definition demo_log :: "bytes list" where
  \<comment> \<open>publish two messages to \<open>a\<close>, acknowledge the first\<close>
  "demo_log = [[1, 97, 49], [1, 97, 50], [2, 97, 49]]"

definition pending_ids :: "string \<Rightarrow> 's Broker \<Rightarrow> string list" where
  "pending_ids name b = (case GetQueue name b of None \<Rightarrow> [] | Some q \<Rightarrow> map mID (qMessages q))"

theorem followers_converge_witness:
  "apply_log demo_json (map (Pair (plain_env 5 [] 0)) demo_log) (NewBroker [] 0 :: unit Broker) =
     apply_log demo_json (map (Pair (plain_env 900 [] 7)) demo_log) (NewBroker [] 0)
   \<and> map_option (map frError \<circ> fst) (apply_log demo_json (map (Pair (plain_env 5 [] 0)) demo_log) (NewBroker [] 0 :: unit Broker))
       = Some [None, None, None]"
proof
  show "apply_log demo_json (map (Pair (plain_env 5 [] 0)) demo_log) (NewBroker [] 0 :: unit Broker) =
     apply_log demo_json (map (Pair (plain_env 900 [] 7)) demo_log) (NewBroker [] 0)"
    by (rule followers_converge) (simp_all add: idle_broker_def NewBroker_def demo_log_def)
  show "map_option (map frError \<circ> fst) (apply_log demo_json (map (Pair (plain_env 5 [] 0)) demo_log) (NewBroker [] 0 :: unit Broker))
       = Some [None, None, None]"
    by code_simp
qed

text \<open>C39. A idle_broker keeps what was acknowledged: no entry of the log, acknowledgements included, takes a pending message off a
  queue of a replica without consumers. What was pending stays at the head of the queue, and the queue only grows; the node serves these messages
  again when it becomes the leader.\<close>

theorem follower_keeps_acked_messages:
  assumes "idle_broker b" and "list_all (env_ok \<circ> fst) xs" and "apply_log js xs b = Some (rs, b')"
    and "gm_get (bQueues b) name = Some q"
  shows "\<exists>q' extra. gm_get (bQueues b') name = Some q' \<and> qMessages q' = qMessages q @ extra"
proof -
  have "grows b b'" using assms(1-3)
  proof (induction xs arbitrary: b rs)
    case Nil
    then show ?case by (simp add: grows_refl)
  next
    case (Cons x xs)
    obtain r b1 rs' where s: "fsmApply js (fst x) (snd x) b = Some (r, b1)" "apply_log js xs b1 = Some (rs', b')"
      using Cons.prems(3) by (cases x) (auto split: bind_splits)
    have "keeps b (fsmApply js (fst x) (snd x) b)" using Cons.prems by (intro fsmApply_keeps) simp_all
    then have "idle_broker b1" "grows b b1" using s(1) by (simp_all add: keeps_def)
    then show ?case using Cons.IH [of b1 rs'] Cons.prems(2) s(2) grows_trans by auto
  qed
  then show ?thesis using assms(4) by (simp add: grows_def)
qed

definition demo_replica :: "unit Broker" where
  "demo_replica = snd (the (apply_log demo_json (map (Pair (plain_env 5 [] 0)) (take 2 demo_log)) (NewBroker [] 0)))"

definition demo_acked :: "FSMResponse list \<times> unit Broker" where
  "demo_acked = the (apply_log demo_json [(plain_env 6 [] 0, [2, 97, 49])] demo_replica)"

theorem follower_keeps_acked_messages_witness:
  "\<exists>q' extra. gm_get (bQueues (snd demo_acked)) ''a'' = Some q' \<and>
     qMessages q' = qMessages (the (gm_get (bQueues demo_replica) ''a'')) @ extra \<and> pending_ids ''a'' demo_replica = [''1'', ''2'']"
proof -
  have f: "idle_broker demo_replica" by code_simp
  have a: "apply_log demo_json [(plain_env 6 [] 0, [2, 97, 49])] demo_replica = Some (fst demo_acked, snd demo_acked)"
    unfolding prod.collapse demo_acked_def by (rule some_the) code_simp
  have g: "gm_get (bQueues demo_replica) ''a'' = Some (the (gm_get (bQueues demo_replica) ''a''))"
    by (rule some_the) code_simp
  have p: "pending_ids ''a'' demo_replica = [''1'', ''2'']" by code_simp
  show ?thesis using follower_keeps_acked_messages [OF f _ a g] p by simp
qed

end
