(* ===== verification/Durability.thy ===== *)
theory Durability
  imports Handlers Idle_Queues Badger_Props
begin

text \<open>
  What survives a crash. A run is any sequence of publishes, consumes, receives, acknowledgements, nacks,
  extensions, unsubscribes and reaper ticks on a broker with a storage; a crash forgets everything but the
  storage, and a restart is a new broker that loads it. The locale \<open>crash_safe\<close> proves, for any storage that keeps the
  contract \<open>broker_store\<close>, that no operation on other messages takes a stored message away; BadgerDB's model is its instance.

  Runs use no consumer group: the groups of a queue share one stored copy, which the first acknowledgement deletes.
\<close>

section \<open>Operations\<close>

datatype broker_op =
    BPublish PublishRequest
  | BConsume ConsumeRequest string
  | BReceive string nat
  | BAck string string
  | BNack NackRequest string
  | BExtend string u32 string
  | BUnsubscribe string string "nat option"
  | BReap

definition receive_from :: "string \<Rightarrow> nat \<Rightarrow> 's Broker \<Rightarrow> 's Broker" where
  "receive_from name ch b =
     (case GetQueue name b of None \<Rightarrow> b | Some q \<Rightarrow> b\<lparr>bQueues := gm_set (bQueues b) name (snd (receive ch q))\<rparr>)"

fun broker_step :: "env \<Rightarrow> broker_op \<Rightarrow> 's Broker \<Rightarrow> 's Broker go" where
  "broker_step e (BPublish req) b = map_option snd (HandlePublish e req b)"
| "broker_step e (BConsume req memberID) b = map_option snd (HandleConsume e req memberID b)"
| "broker_step e (BReceive name ch) b = Some (receive_from name ch b)"
| "broker_step e (BAck i name) b = map_option snd (HandleAck e i name [] b)"
| "broker_step e (BNack req name) b = map_option snd (HandleNack e req name [] b)"
| "broker_step e (BExtend i secs name) b = Some (snd (HandleExtendVisibility e i secs name b))"
| "broker_step e (BUnsubscribe name memberID ch) b = map_option snd (HandleUnsubscribe e name [] memberID ch b)"
| "broker_step e BReap b = reaper_tick e b"

fun run_ops :: "(env \<times> broker_op) list \<Rightarrow> 's Broker \<Rightarrow> 's Broker go" where
  "run_ops [] b = Some b"
| "run_ops ((e, op) # rest) b = do { b1 \<leftarrow> broker_step e op b; run_ops rest b1 }"

fun touches :: "string \<Rightarrow> string \<Rightarrow> env \<times> broker_op \<Rightarrow> bool" where
  \<comment> \<open>the operation names this message: publishes under its id again, acknowledges or refuses it, or refuses one that
    becomes a dead letter under its id\<close>
  "touches q i (e, BPublish req) \<longleftrightarrow> prQueue req = q \<and> mID (published_message e req) = i"
| "touches q i (e, BAck k name) \<longleftrightarrow> name = q \<and> k = i"
| "touches q i (e, BNack req name) \<longleftrightarrow> (name = q \<or> DLQName name = q) \<and> nkMessageId req = i"
| "touches q i (e, _) \<longleftrightarrow> False"

fun op_ok :: "(string \<Rightarrow> bool) \<Rightarrow> (string \<Rightarrow> message \<Rightarrow> bool) \<Rightarrow> (time \<Rightarrow> bool) \<Rightarrow> env \<times> broker_op \<Rightarrow> bool" where
  "op_ok qok P clock (e, BPublish req) \<longleftrightarrow> env_ok e \<and> clock (eNow e) \<and> qok (prQueue req) \<and> P (prQueue req) (published_message e req)"
| "op_ok qok P clock (e, BConsume req memberID) \<longleftrightarrow> env_ok e \<and> clock (eNow e) \<and> qok (crQueue req) \<and> crGroup req = []"
| "op_ok qok P clock (e, _) \<longleftrightarrow> env_ok e \<and> clock (eNow e)"

definition restart :: "env \<Rightarrow> time \<Rightarrow> 's Broker \<Rightarrow> (error option \<times> 's Broker) go" where
  \<comment> \<open>the process died and was started again on what is stored\<close>
  "restart e now b =
     (case bStorage b of
        None \<Rightarrow> Some (None, NewBroker [] now)
      | Some (ops, s) \<Rightarrow> LoadFromStorage e (NewBroker [WithStorage ops s] now))"

section \<open>Loading\<close>

definition pending_in :: "'s Broker \<Rightarrow> string \<Rightarrow> message \<Rightarrow> bool" where
  "pending_in b name m \<longleftrightarrow> (\<exists>q. gm_get (bQueues b) name = Some q \<and> m \<in> set (qMessages q))"

definition loads :: "'s Broker \<Rightarrow> 's Broker \<Rightarrow> bool" where
  \<comment> \<open>a step of loading: nobody consumes yet and nothing pending is lost\<close>
  "loads b b' \<longleftrightarrow> idle_broker b' \<and> grows b b'"

lemma grows_pending: "grows b b' \<Longrightarrow> pending_in b name m \<Longrightarrow> pending_in b' name m"
  unfolding grows_def pending_in_def by (metis in_set_conv_decomp append_Cons append_assoc)

lemma loads_trans: "loads b b1 \<Longrightarrow> loads b1 b2 \<Longrightarrow> loads b b2"
  using grows_trans by (auto simp: loads_def)

lemma on_queue_loads:
  assumes "idle_broker b" and "on_queue n f b = Some (a, b')"
    and "\<And>q q'. idle_queue q \<Longrightarrow> f q = Some (a, q') \<Longrightarrow> idle_queue q' \<and> (\<exists>extra. qMessages q' = qMessages q @ extra)"
  shows "loads b b' \<and> bStorage b' = bStorage b"
proof -
  obtain q q' where q: "gm_get (bQueues b) n = Some q" "f q = Some (a, q')" "b' = b\<lparr>bQueues := gm_set (bQueues b) n q'\<rparr>"
    using assms(2) by (auto simp: on_queue_def split: option.splits)
  obtain extra where e: "idle_queue q'" "qMessages q' = qMessages q @ extra"
    using assms(3) [OF idle_broker_get [OF assms(1) q(1)] q(2)] by blast
  show ?thesis using idle_broker_set [OF assms(1) e(1)] grows_set [OF q(1) e(2)] q(3) by (simp add: loads_def)
qed

lemma set_queue_loads:
  assumes "idle_broker b" and "set_queue c n f b = Some b'"
    and "\<And>q. idle_queue (f q) = idle_queue q" and "\<And>q. qMessages (f q) = qMessages q"
  shows "loads b b' \<and> bStorage b' = bStorage b"
proof (cases c)
  case True
  then obtain a where "on_queue n (\<lambda>q. Some ((), f q)) b = Some (a, b')" using assms(2) by (auto simp: set_queue_def)
  then show ?thesis by (rule on_queue_loads [OF assms(1)]) (use assms(3,4) in auto)
qed (use assms in \<open>simp add: set_queue_def loads_def grows_refl\<close>)

lemma enqueue_all_loads:
  assumes "idle_broker b" and "enqueue_all e n ms b = Some b'" and "env_ok e"
  shows "loads b b' \<and> bStorage b' = bStorage b \<and> (\<forall>m \<in> set ms. pending_in b' n (load_message m))"
  using assms
proof (induction ms arbitrary: b)
  case Nil
  then show ?case by (simp add: loads_def grows_refl)
next
  case (Cons m ms)
  let ?f = "\<lambda>q. map_option (Pair ()) (EnqueueDirect (eOrders e) (load_message m) (eNow e) q)"
  have o: "orders_ok (eOrders e)" using Cons.prems(3) by (simp add: env_ok_def)
  obtain a b1 where b1: "on_queue n ?f b = Some (a, b1)" "enqueue_all e n ms b1 = Some b'"
    using Cons.prems(2) by (auto split: bind_splits)
  have l: "loads b b1 \<and> bStorage b1 = bStorage b"
    by (rule on_queue_loads [OF Cons.prems(1) b1(1)]) (use EnqueueDirect_idle [OF _ o] idle_messages in auto)
  obtain q where q: "gm_get (bQueues b) n = Some q" using b1(1) by (auto simp: on_queue_def split: option.splits)
  have "pending_in b1 n (load_message m)"
    using b1(1) q EnqueueDirect_idle [OF idle_broker_get [OF Cons.prems(1) q] o]
    by (auto simp: on_queue_def pending_in_def)
  moreover have r: "loads b1 b' \<and> bStorage b' = bStorage b1 \<and> (\<forall>m \<in> set ms. pending_in b' n (load_message m))"
    using Cons.IH [of b1] l b1(2) Cons.prems(3) by (simp add: loads_def)
  ultimately show ?case using l loads_trans [of b b1 b'] grows_pending [of b1 b'] by (auto simp: loads_def)
qed

section \<open>No operation loses another message\<close>

definition queue_config :: "('s \<Rightarrow> string \<Rightarrow> QueueConfig option) \<Rightarrow> 's \<Rightarrow> string \<Rightarrow> bool" where
  "queue_config configs s name \<longleftrightarrow> (\<exists>cfg. configs s name = Some cfg \<and> qcMode cfg \<noteq> QueueModeStream)"

definition keys_ok :: "(string, Queue) gomap \<Rightarrow> bool" where
  "keys_ok qs \<longleftrightarrow> gm_wf qs"

lemma keys_ok_set [simp]: "keys_ok qs \<Longrightarrow> keys_ok (gm_set qs n q)"
  unfolding keys_ok_def by (rule gm_wf_set)

lemma keys_ok_get: "keys_ok qs \<Longrightarrow> (n, q) \<in> set qs \<Longrightarrow> gm_get qs n = Some q"
  unfolding keys_ok_def by (simp add: gm_get_in_set)

locale crash_safe = broker_store ops holds inv qok mok configs
  for ops :: "'s storage_ops" and holds and inv and qok and mok and configs +
  fixes P :: "string \<Rightarrow> message \<Rightarrow> bool" and T :: "duration \<Rightarrow> bool" and clock :: "time \<Rightarrow> bool"
  assumes P_content: "content (P n) T clock"
    and P_mok: "P n m \<Longrightarrow> mQueue m = n \<and> mok m"
    and P_dlq: "P n m \<Longrightarrow> clock now \<Longrightarrow> P (DLQName n) (m\<lparr>mQueue := DLQName n, mVisibleAt := now\<rparr>)"
    and qok_dlq: "qok n \<Longrightarrow> qok (DLQName n)"
    and T_timeout: "0 \<le> t \<Longrightarrow> t \<le> 2 ^ 32 * second \<Longrightarrow> T t"
begin

definition good :: "'s Broker \<Rightarrow> 's \<Rightarrow> bool" where
  "good b s \<longleftrightarrow> bStorage b = Some (ops, s) \<and> inv s \<and> keys_ok (bQueues b)
     \<and> (\<forall>name q. gm_get (bQueues b) name = Some q \<longrightarrow> qok name \<and> content_ok (P name) T q \<and> queue_config configs s name)"

definition frame :: "string \<Rightarrow> string \<Rightarrow> 's \<Rightarrow> 's Broker \<Rightarrow> bool" where
  \<comment> \<open>the broker is good again, and its storage has of this message what state \<open>s\<close> had\<close>
  "frame q i s b' \<longleftrightarrow> (\<exists>s'. good b' s' \<and> holds s' q i = holds s q i \<and> (queue_config configs s q \<longrightarrow> queue_config configs s' q))"

lemma frame_refl: "good b s \<Longrightarrow> frame q i s b"
  by (auto simp: frame_def)

lemma frame_trans: "frame q i s b1 \<Longrightarrow> (\<And>s1. good b1 s1 \<Longrightarrow> frame q i s1 b2) \<Longrightarrow> frame q i s b2"
  unfolding frame_def by (elim exE conjE) (metis (no_types, lifting))

lemma good_queue: "good b s \<Longrightarrow> gm_get (bQueues b) name = Some q \<Longrightarrow> qok name \<and> content_ok (P name) T q"
  by (simp add: good_def)

lemma good_storage: "good b s \<Longrightarrow> bStorage b = Some (ops, s) \<and> inv s"
  by (simp add: good_def)

lemma save_frame:
  assumes "good b s" and "on_storage (\<lambda>ops. soSaveMessage ops m) b = (b', err)" and "qok n" and "P n m"
    and "\<not> (n = q \<and> mID m = i)"
  shows "frame q i s b' \<and> bQueues b' = bQueues b"
proof -
  obtain s' where s': "soSaveMessage ops m s = (s', err)" "b' = b\<lparr>bStorage := Some (ops, s')\<rparr>"
    using assms(1,2) by (auto simp: good_def on_storage_def store_call_def split: prod.splits)
  have m: "mQueue m = n" "mok m" using P_mok [OF assms(4)] by auto
  have i: "inv s'" using save_inv [of s m] s'(1) assms(1,3) m by (simp add: good_def)
  have c: "configs s' = configs s" using save_configs [of s m] s'(1) assms(1) by (simp add: good_def)
  have "holds s' q i = holds s q i"
    using save_ok [of s m s'] save_err [of s m s'] s'(1) assms m by (cases err) (auto simp: good_def fun_eq_iff)
  then show ?thesis using assms(1) s'(2) i c by (auto simp: frame_def good_def queue_config_def)
qed

lemma delete_frame:
  assumes "good b s" and "on_storage (\<lambda>ops. soDeleteMessage ops n k) b = (b', err)" and "qok n" and "\<not> (n = q \<and> k = i)"
  shows "frame q i s b' \<and> bQueues b' = bQueues b"
proof -
  obtain s' where s': "soDeleteMessage ops n k s = (s', err)" "b' = b\<lparr>bStorage := Some (ops, s')\<rparr>"
    using assms(1,2) by (auto simp: good_def on_storage_def store_call_def split: prod.splits)
  have i: "inv s'" using delete_inv [of s n k] s'(1) assms(1) by (simp add: good_def)
  have c: "configs s' = configs s" using delete_configs [of s n k] s'(1) assms(1) by (simp add: good_def)
  have "holds s' q i = holds s q i"
    using delete_ok [of s n k s'] delete_err [of s n k s'] s'(1) assms by (cases err) (auto simp: good_def fun_eq_iff)
  then show ?thesis using assms(1) s'(2) i c by (auto simp: frame_def good_def queue_config_def)
qed

lemma put_frame:
  assumes "good b s" and "gm_get (bQueues b) name = Some q0" and "content_ok (P name) T q1"
  shows "good (b\<lparr>bQueues := gm_set (bQueues b) name q1\<rparr>) s"
  using assms by (auto simp: good_def)

lemma create_frame:
  assumes "good b s" and "GetOrCreateQueueWithError n b = (err, b')" and "qok n"
  shows "frame q i s b' \<and> (err = None \<longrightarrow> (\<exists>q0. gm_get (bQueues b') n = Some q0))"
proof (cases "gm_get (bQueues b) n")
  case (Some q0)
  then show ?thesis using assms(1,2) by (auto simp: GetOrCreateQueueWithError_def frame_refl)
next
  case None
  let ?cfg = "default_config (NewQueue n)"
  obtain s' e where s': "soSaveQueue ops n ?cfg s = (s', e)" by (cases "soSaveQueue ops n ?cfg s")
  have i: "inv s'" "holds s' = holds s" using config_inv [of s n ?cfg] config_holds [of s n ?cfg] s' assms(1) by (simp_all add: good_def)
  have m: "qcMode ?cfg \<noteq> QueueModeStream" by (simp add: default_config_def zero_config_def QueueModeStream_def)
  have c: "configs s' = (if e = None then (configs s)(n \<mapsto> ?cfg) else configs s)"
    using config_ok [of s n ?cfg s'] config_err [of s n ?cfg s'] s' assms(1) by (cases e) (auto simp: good_def)
  have n: "content_ok (P n) T (NewQueue n)" by (simp add: content_ok_def NewQueue_def timeouts_def)
  have b': "b' = (if e = None then b\<lparr>bStorage := Some (ops, s'), bQueues := gm_set (bQueues b) n (NewQueue n)\<rparr>
      else b\<lparr>bStorage := Some (ops, s')\<rparr>)" "err = e"
    using assms(1,2) None s'
    by (auto simp: GetOrCreateQueueWithError_def Let_def on_storage_def store_call_def good_def split: option.splits)
  have "good b' s'" using assms(1,3) i(1) c m n unfolding b'(1) good_def queue_config_def by auto
  moreover have "queue_config configs s q \<longrightarrow> queue_config configs s' q" using c m by (auto simp: queue_config_def)
  ultimately show ?thesis using i(2) b' by (auto simp: frame_def)
qed

lemma get_create_frame: "good b s \<Longrightarrow> qok n \<Longrightarrow> frame q i s (GetOrCreateQueue n b)"
  using create_frame [of b s n] by (cases "GetOrCreateQueueWithError n b") (simp add: GetOrCreateQueue_def)

lemma on_queue_frame:
  assumes "good b s" and "on_queue n f b = Some (a, b')"
    and "\<And>q0 q1. content_ok (P n) T q0 \<Longrightarrow> f q0 = Some (a, q1) \<Longrightarrow> content_ok (P n) T q1"
  shows "good b' s"
proof -
  obtain q0 q1 where q: "gm_get (bQueues b) n = Some q0" "f q0 = Some (a, q1)" "b' = b\<lparr>bQueues := gm_set (bQueues b) n q1\<rparr>"
    using assms(2) by (auto simp: on_queue_def split: option.splits)
  show ?thesis unfolding q(3) using put_frame [OF assms(1) q(1)] assms(3) [OF _ q(2)] good_queue [OF assms(1) q(1)] by simp
qed

section \<open>Each operation\<close>

lemmas content_rules =
  content.Enqueue_content [OF P_content] content.Dequeue_content [OF P_content] content.ack_content [OF P_content]
  content.nack_content [OF P_content] content.receive_content [OF P_content] content.RemoveConsumer_content [OF P_content]
  content.ExtendVisibility_content [OF P_content] content.RequeueExpired_content [OF P_content]

lemma frame_then: "frame q i s b1 \<Longrightarrow> (\<And>s1. good b1 s1 \<Longrightarrow> good b2 s1) \<Longrightarrow> frame q i s b2"
  unfolding frame_def by blast

lemma check_dedup_good: "check_dedup key now b = (err, b1) \<Longrightarrow> good b s \<Longrightarrow> good b1 s"
  by (auto simp: check_dedup_def good_def split: option.splits prod.splits)

lemma enqueue_good:
  assumes "good b s" and "on_queue n (Enqueue (eOrders e) m (eNow e)) b = Some (err, b')" and "env_ok e" and "clock (eNow e)" and "P n m"
  shows "good b' s"
  by (rule on_queue_frame [OF assms(1,2)]) (use content_rules(1) assms(3-5) in \<open>auto simp: env_ok_def\<close>)

lemma save_and_enqueue_frame:
  assumes "good b s" and "save_and_enqueue e m b = Some (res, b')" and "env_ok e" and "clock (eNow e)" and "qok n" and "P n m"
    and "\<not> (n = q \<and> mID m = i)"
  shows "frame q i s b'"
proof -
  have n: "mQueue m = n" using P_mok [OF assms(6)] by simp
  obtain b1 err where b1: "on_storage (\<lambda>ops. soSaveMessage ops m) b = (b1, err)" by (cases "on_storage (\<lambda>ops. soSaveMessage ops m) b")
  note f = conjunct1 [OF save_frame [OF assms(1) b1 assms(5-7)]]
  show ?thesis
  proof (cases err)
    case (Some er)
    then show ?thesis using assms(2) b1 f by (simp add: save_and_enqueue_def)
  next
    case None
    obtain err2 b2 where b2: "on_queue n (Enqueue (eOrders e) m (eNow e)) b1 = Some (err2, b2)"
      using assms(2) b1 None n by (auto simp: save_and_enqueue_def split: bind_splits)
    have f2: "frame q i s b2" by (rule frame_then [OF f]) (rule enqueue_good [OF _ b2 assms(3,4,6)])
    obtain b3 err3 where b3: "on_storage (\<lambda>ops. soDeleteMessage ops n (mID m)) b2 = (b3, err3)"
      by (cases "on_storage (\<lambda>ops. soDeleteMessage ops n (mID m)) b2")
    have f3: "frame q i s b3" by (rule frame_trans [OF f2]) (rule conjunct1 [OF delete_frame [OF _ b3 assms(5,7)]])
    show ?thesis using assms(2) b1 None b2 b3 n f2 f3
      by (cases err2; cases err3) (auto simp: save_and_enqueue_def)
  qed
qed

lemma publish_frame:
  assumes "good b s" and "HandlePublish e req b = Some (res, b')" and "op_ok qok P clock (e, BPublish req)"
    and "\<not> touches q i (e, BPublish req)"
  shows "frame q i s b'"
proof (cases "check_memory (length (prPayload req)) b")
  case (Some er)
  then show ?thesis using assms(1,2) by (auto simp: HandlePublish_def frame_refl)
next
  case None
  obtain err1 b1 where b1: "check_dedup (prIdempotencyKey req) (eNow e) b = (err1, b1)"
    by (cases "check_dedup (prIdempotencyKey req) (eNow e) b")
  have g1: "good b1 s" by (rule check_dedup_good [OF b1 assms(1)])
  obtain err2 b2 where b2: "GetOrCreateQueueWithError (prQueue req) b1 = (err2, b2)"
    by (cases "GetOrCreateQueueWithError (prQueue req) b1")
  have f2: "frame q i s b2" using create_frame [OF g1 b2] assms(3) by simp
  have f3: "frame q i s b'" if "save_and_enqueue e (published_message e req) b2 = Some (res, b')"
    by (rule frame_trans [OF f2], rule save_and_enqueue_frame [OF _ that, where n = "prQueue req"])
      (use assms(3,4) in auto)
  show ?thesis using assms(2) None b1 b2 g1 f2 f3
    by (cases err1; cases err2) (auto simp: HandlePublish_def frame_refl)
qed

lemma publish_stored:
  assumes "good b s" and "HandlePublish e req b = Some (Inr k, b')" and "op_ok qok P clock (e, BPublish req)"
  shows "\<exists>s'. good b' s' \<and> holds s' (prQueue req) k (published_message e req) \<and> queue_config configs s' (prQueue req)"
proof -
  let ?m = "published_message e req" and ?n = "prQueue req"
  have ok: "env_ok e" "clock (eNow e)" "qok ?n" "P ?n ?m" using assms(3) by auto
  have m: "mQueue ?m = ?n" "mok ?m" using P_mok [OF ok(4)] by auto
  obtain b1 b2 where b: "check_dedup (prIdempotencyKey req) (eNow e) b = (None, b1)"
    "GetOrCreateQueueWithError ?n b1 = (None, b2)" "save_and_enqueue e ?m b2 = Some (Inr k, b')"
    using assms(2) unfolding HandlePublish_def by (auto split: option.splits prod.splits)
  obtain s2 q0 where s2: "good b2 s2" "gm_get (bQueues b2) ?n = Some q0"
    using create_frame [OF check_dedup_good [OF b(1) assms(1)] b(2) ok(3)] unfolding frame_def by blast
  obtain b3 err3 where b3: "on_storage (\<lambda>ops. soSaveMessage ops ?m) b2 = (b3, err3)"
    by (cases "on_storage (\<lambda>ops. soSaveMessage ops ?m) b2")
  have n3: "err3 = None" using b(3) b3 by (cases err3) (auto simp: save_and_enqueue_def)
  obtain s3 where s3: "soSaveMessage ops ?m s2 = (s3, None)" "b3 = b2\<lparr>bStorage := Some (ops, s3)\<rparr>"
    using s2(1) b3 n3 by (auto simp: good_def on_storage_def store_call_def split: prod.splits)
  have i3: "inv s3" "configs s3 = configs s2"
    using save_inv [of s2 ?m] save_configs [of s2 ?m] s3(1) s2(1) ok(3) m by (simp_all add: good_def)
  have g3: "good b3 s3" using s2(1) s3(2) i3 by (auto simp: good_def queue_config_def)
  obtain err4 b4 where b4: "on_queue ?n (Enqueue (eOrders e) ?m (eNow e)) b3 = Some (err4, b4)"
    using b(3) b3 n3 m(1) by (auto simp: save_and_enqueue_def split: bind_splits)
  have r: "err4 = None" "k = mID ?m" "b' = b4"
    using b(3) b3 n3 m(1) b4 by (auto simp: save_and_enqueue_def split: option.splits prod.splits)
  have "holds s3 ?n k ?m" using save_ok [of s2 ?m s3] s2(1) ok(3) m s3(1) r(2) by (simp add: good_def)
  moreover have "good b' s3" unfolding r(3) by (rule enqueue_good [OF g3 b4 ok(1,2,4)])
  moreover have "queue_config configs s3 ?n" using s2 i3(2) by (auto simp: good_def queue_config_def)
  ultimately show ?thesis by blast
qed

lemma consume_frame:
  assumes "good b s" and "HandleConsume e req memberID b = Some (res, b')" and "op_ok qok P clock (e, BConsume req memberID)"
  shows "frame q i s b'"
proof -
  let ?t = "if crVisibilityTimeout req > 0 then uint (crVisibilityTimeout req) * second else defaultVisibilityTimeout"
  have "uint (crVisibilityTimeout req) \<le> 2 ^ 32" using uint_bounded [of "crVisibilityTimeout req"] by simp
  then have t: "T ?t" by (intro T_timeout) (auto simp: defaultVisibilityTimeout_def second_def)
  obtain r where r: "on_queue (crQueue req) (\<lambda>q. map_option (Pair ()) (Dequeue (eChan e) ?t (eNow e) q)) (GetOrCreateQueue (crQueue req) b) = Some (r, b')"
    using assms(2,3) unfolding HandleConsume_def Let_def by auto
  have "frame q i s (GetOrCreateQueue (crQueue req) b)" using get_create_frame [OF assms(1)] assms(3) by simp
  then show ?thesis
    by (rule frame_then) (rule on_queue_frame [OF _ r], use content_rules(2) t assms(3) in auto)
qed

lemma put_queue_frame:
  assumes "frame q i s (b\<lparr>bStorage := st\<rparr>)" and "gm_get (bQueues b) n = Some q0" and "content_ok (P n) T q1"
  shows "frame q i s (put_queue n q1 st b)"
  by (rule frame_then [OF assms(1)]) (use assms(2,3) in \<open>auto simp: good_def put_queue_def\<close>)

lemma on_storage_store: "on_storage f b = (b\<lparr>bStorage := fst (store_call f (bStorage b))\<rparr>, snd (store_call f (bStorage b)))"
  by (simp add: on_storage_def split: prod.splits)

lemma delete_store_frame:
  "good b s \<Longrightarrow> qok n \<Longrightarrow> \<not> (n = q \<and> k = i) \<Longrightarrow>
   frame q i s (b\<lparr>bStorage := fst (store_call (\<lambda>ops. soDeleteMessage ops n k) (bStorage b))\<rparr>)"
  using delete_frame [OF _ on_storage_store] by blast

lemma save_store_frame:
  "good b s \<Longrightarrow> qok n \<Longrightarrow> P n m \<Longrightarrow> \<not> (n = q \<and> mID m = i) \<Longrightarrow>
   frame q i s (b\<lparr>bStorage := fst (store_call (\<lambda>ops. soSaveMessage ops m) (bStorage b))\<rparr>)"
  using save_frame [OF _ on_storage_store] by blast

lemma same_store_frame: "good b s \<Longrightarrow> frame q i s (b\<lparr>bStorage := bStorage b\<rparr>)"
  by (simp add: frame_refl)

lemma ack_frame:
  assumes "good b s" and "HandleAck e k n [] b = Some (res, b')" and "clock (eNow e)" and "\<not> (n = q \<and> k = i)"
  shows "frame q i s b'"
proof (cases "gm_get (bQueues b) n")
  case None
  then show ?thesis using assms(1,2) by (auto simp: HandleAck_def GetQueue_def frame_refl)
next
  case (Some q0)
  obtain q1 st where a: "ackWithHook (delete_hook n k) k (eNow e) q0 (bStorage b) = Some (res, q1, st)" "b' = put_queue n q1 st b"
    using assms(2) Some by (auto simp: HandleAck_def GetQueue_def split: bind_splits)
  have g: "qok n" "content_ok (P n) T q0" using good_queue [OF assms(1) Some] by auto
  have "st = bStorage b \<or> st = fst (store_call (\<lambda>ops. soDeleteMessage ops n k) (bStorage b))"
    using a(1) by (auto simp: ackWithHook_def run_hook_def delete_hook_def split: option.splits prod.splits bind_splits)
  then have "frame q i s (b\<lparr>bStorage := st\<rparr>)"
    using same_store_frame [OF assms(1)] delete_store_frame [OF assms(1) g(1) assms(4)] by auto
  then show ?thesis unfolding a(2) using put_queue_frame Some content_rules(3) [OF a(1) g(2) assms(3)] by blast
qed

lemma enqueued_content:
  assumes "content_ok (P n) T q'" and "P n m"
  shows "P n (enqueued m err q') \<and> mID (enqueued m err q') = mID m"
  using assms content.in_flight_ok [OF P_content assms(1)] by (auto simp: enqueued_def split: option.splits)

lemma dlq_frame:
  assumes "good b s" and "move_to_dlq e n m b = Some b'" and "env_ok e" and "clock (eNow e)" and "qok n" and "P n m"
    and "\<not> ((n = q \<or> DLQName n = q) \<and> mID m = i)"
  shows "frame q i s b'"
proof -
  let ?d = "DLQName n" and ?m = "m\<lparr>mQueue := DLQName n, mVisibleAt := eNow e\<rparr>"
  let ?f = "\<lambda>q. map_option (\<lambda>(err, q'). (enqueued ?m err q', q')) (Enqueue (eOrders e) ?m (eNow e) q)"
  have d: "qok ?d" "P ?d ?m" using qok_dlq [OF assms(5)] P_dlq [OF assms(6,4)] by auto
  have o: "orders_ok (eOrders e)" using assms(3) by (simp add: env_ok_def)
  have step: "content_ok (P ?d) T q1 \<and> P ?d a \<and> mID a = mID m" if c: "content_ok (P ?d) T q0" and f: "?f q0 = Some (a, q1)" for q0 q1 a
  proof -
    obtain err where e: "Enqueue (eOrders e) ?m (eNow e) q0 = Some (err, q1)" "a = enqueued ?m err q1" using f by auto
    have "content_ok (P ?d) T q1" by (rule content_rules(1) [OF e(1) c d(2) assms(4) o])
    then show ?thesis using enqueued_content [OF _ d(2), of q1 err] e(2) by simp
  qed
  obtain m2 b2 where b2: "on_queue ?d ?f (GetOrCreateQueue ?d b) = Some (m2, b2)"
    and b': "b' = fst (on_storage (\<lambda>ops. soSaveMessage ops m2) (fst (on_storage (\<lambda>ops. soDeleteMessage ops n (mID m2)) b2)))"
    using assms(2) unfolding move_to_dlq_def Let_def by (auto split: bind_splits)
  have f1: "frame q i s (GetOrCreateQueue ?d b)" by (rule get_create_frame [OF assms(1) d(1)])
  obtain q0 q1 where q0: "gm_get (bQueues (GetOrCreateQueue ?d b)) ?d = Some q0" "?f q0 = Some (m2, q1)"
    using b2 unfolding on_queue_def by (auto split: option.splits)
  obtain s1 where "good (GetOrCreateQueue ?d b) s1" using f1 unfolding frame_def by blast
  then have m2: "P ?d m2 \<and> mID m2 = mID m" using step [OF _ q0(2)] good_queue [OF _ q0(1)] by blast
  have f2: "frame q i s b2" by (rule frame_then [OF f1]) (rule on_queue_frame [OF _ b2], assumption, rule conjunct1 [OF step])
  have f3: "frame q i s (fst (on_storage (\<lambda>ops. soDeleteMessage ops n (mID m2)) b2))"
    unfolding on_storage_store fst_conv
    by (rule frame_trans [OF f2], rule delete_store_frame [OF _ assms(5)]) (use m2 assms(7) in auto)
  show ?thesis unfolding b' on_storage_store [of "\<lambda>ops. soSaveMessage ops m2"] fst_conv
    by (rule frame_trans [OF f3], rule save_store_frame [OF _ d(1) conjunct1 [OF m2]]) (use m2 assms(7) in auto)
qed

lemma nack_store:
  assumes "nackWithHooks (delete_hook n k) persist_hook k rq now q0 st0 = Some (res, q1, st)" and "content_ok (P n) T q0" and "clock now"
  shows "st = st0 \<or> st = fst (store_call (\<lambda>ops. soDeleteMessage ops n k) st0)
    \<or> (\<exists>m. P n m \<and> mID m = k \<and> st = fst (store_call (\<lambda>ops. soSaveMessage ops m) st0))"
proof (cases "gm_get (qInFlight q0) k")
  case None
  then show ?thesis using assms(1) by (simp add: nackWithHooks_def)
next
  case (Some m)
  have "P n (m\<lparr>mVisibleAt := now\<rparr>)" "mID (m\<lparr>mVisibleAt := now\<rparr>) = k"
    using content.in_flight_ok [OF P_content assms(2) Some] content.visible [OF P_content] assms(3) by auto
  moreover have "st = st0 \<or> st = fst (store_call (\<lambda>ops. soDeleteMessage ops n k) st0)
      \<or> st = fst (store_call (\<lambda>ops. soSaveMessage ops (m\<lparr>mVisibleAt := now\<rparr>)) st0)"
    using assms(1) Some unfolding nackWithHooks_def run_hook_def delete_hook_def persist_hook_def Let_def
    by (auto split: if_splits prod.splits option.splits bind_splits)
  ultimately show ?thesis by blast
qed

lemma nack_frame:
  assumes "good b s" and "HandleNack e req n [] b = Some (res, b')" and "env_ok e" and "clock (eNow e)"
    and "\<not> ((n = q \<or> DLQName n = q) \<and> nkMessageId req = i)"
  shows "frame q i s b'"
proof (cases "gm_get (bQueues b) n")
  case None
  then show ?thesis using assms(1,2) by (auto simp: HandleNack_def GetQueue_def frame_refl)
next
  case (Some q0)
  let ?k = "nkMessageId req"
  obtain nr err q1 st where a: "nackWithHooks (delete_hook n ?k) persist_hook ?k (nkRequeue req) (eNow e) q0 (bStorage b) = Some ((nr, err), q1, st)"
    and fin: "finish_nack e n (nr, err) (put_queue n q1 st b) = Some (res, b')"
    using assms(2) Some by (auto simp: HandleNack_def GetQueue_def split: bind_splits)
  have g: "qok n" "content_ok (P n) T q0" using good_queue [OF assms(1) Some] by auto
  note c = content_rules(4) [OF a g(2) assms(4)]
  have "frame q i s (b\<lparr>bStorage := st\<rparr>)"
    using nack_store [OF a g(2) assms(4)] same_store_frame [OF assms(1)] delete_store_frame [OF assms(1) g(1)]
      save_store_frame [OF assms(1) g(1)] assms(5) by auto
  then have f: "frame q i s (put_queue n q1 st b)" using put_queue_frame Some c by blast
  have d: "frame q i s b''" if "move_to_dlq e n m (put_queue n q1 st b) = Some b''" "nrMessage nr = Some m" for m b''
    by (rule frame_trans [OF f], rule dlq_frame [OF _ that(1) assms(3,4) g(1)]) (use c that(2) assms(5) in auto)
  show ?thesis using fin f d unfolding finish_nack_def by (auto split: option.splits if_splits bool.splits)
qed

lemma local_frame:
  assumes "good b s" and "gm_get (bQueues b) n = Some q0" and "content_ok (P n) T q0 \<Longrightarrow> content_ok (P n) T q1"
  shows "frame q i s (b\<lparr>bQueues := gm_set (bQueues b) n q1\<rparr>)"
  using put_frame [OF assms(1,2)] good_queue [OF assms(1,2)] assms(3) frame_refl by blast

lemma extend_frame:
  assumes "good b s" and "clock (eNow e)"
  shows "frame q i s (snd (HandleExtendVisibility e k secs n b))"
proof (cases "gm_get (bQueues b) n")
  case None
  then show ?thesis using assms(1) by (simp add: HandleExtendVisibility_def GetQueue_def frame_refl)
next
  case (Some q0)
  have "uint secs \<le> 2 ^ 32" using uint_bounded [of secs] by simp
  then have "T (uint secs * second)" by (intro T_timeout) (auto simp: second_def)
  then show ?thesis
    using local_frame [OF assms(1) Some] content_rules(7) [OF _ _ assms(2)] Some
    by (auto simp: HandleExtendVisibility_def GetQueue_def split: prod.splits) (metis snd_conv)
qed

lemma receive_frame: "good b s \<Longrightarrow> frame q i s (receive_from n ch b)"
  using local_frame [of b s n] content_rules(5)
  by (auto simp: receive_from_def GetQueue_def frame_refl split: option.splits)

lemma unsubscribe_frame: "good b s \<Longrightarrow> HandleUnsubscribe e n [] memberID ch b = Some (res, b') \<Longrightarrow> frame q i s b'"
  using local_frame [of b s n] content_rules(6)
  by (auto simp: HandleUnsubscribe_def GetQueue_def frame_refl split: option.splits)

lemma reap_queues_good:
  assumes "reap_queues e xs qs = Some qs'" and "good (b\<lparr>bQueues := qs\<rparr>) s" and "env_ok e" and "clock (eNow e)"
    and "\<forall>(n, q0) \<in> set xs. qok n \<and> content_ok (P n) T q0 \<and> queue_config configs s n"
  shows "good (b\<lparr>bQueues := qs'\<rparr>) s"
  using assms
proof (induction xs arbitrary: qs)
  case Nil
  then show ?case by simp
next
  case (Cons x xs)
  obtain n q0 where x: "x = (n, q0)" by (cases x)
  have o: "orders_ok (eOrders e)" using Cons.prems(3) by (simp add: env_ok_def)
  obtain q1 dead q2 where r: "RequeueExpired (eOrders e) (eNow e) q0 = Some q1"
    "ReapDeadGroupMembers (eOrders e) (eNow e) q1 = Some (dead, q2)" "reap_queues e xs (gm_set qs n q2) = Some qs'"
    using Cons.prems(1) x by (auto split: bind_splits)
  have x0: "qok n" "content_ok (P n) T q0" "queue_config configs s n" using Cons.prems(5) x by auto
  have "content_ok (P n) T q1" by (rule content_rules(8) [OF r(1) x0(2) Cons.prems(4) o])
  then have "content_ok (P n) T q2" using content.ReapDeadGroupMembers_content [OF P_content r(2) _ o] by simp
  then have "good (b\<lparr>bQueues := gm_set qs n q2\<rparr>) s" using Cons.prems(2) x0 by (auto simp: good_def)
  from Cons.IH [OF r(3) this Cons.prems(3,4)] Cons.prems(5) show ?case by simp
qed

lemma reap_frame:
  assumes "good b s" and "reaper_tick e b = Some b'" and "env_ok e" and "clock (eNow e)"
  shows "frame q i s b'"
proof -
  obtain qs where qs: "reap_queues e (eQueues e (bQueues b)) (bQueues b) = Some qs" "b' = b\<lparr>bQueues := qs\<rparr>"
    using assms(2) by (auto simp: reaper_tick_def)
  have "set (eQueues e (bQueues b)) = set (bQueues b)" using assms(3) range_order_set by (auto simp: env_ok_def)
  then have "\<forall>(n, q0) \<in> set (eQueues e (bQueues b)). qok n \<and> content_ok (P n) T q0 \<and> queue_config configs s n"
    using assms(1) keys_ok_get unfolding good_def by blast
  then show ?thesis unfolding qs(2) using reap_queues_good [OF qs(1) _ assms(3,4)] assms(1) by (intro frame_refl) simp
qed

lemma step_frame:
  assumes "good b s" and "broker_step e op b = Some b'" and "op_ok qok P clock (e, op)" and "\<not> touches q i (e, op)"
  shows "frame q i s b'"
proof (cases op)
  case (BPublish req)
  then show ?thesis using assms publish_frame [OF assms(1)] by auto
next
  case (BConsume req memberID)
  then show ?thesis using assms consume_frame [OF assms(1)] by auto
next
  case (BReceive n ch)
  then show ?thesis using assms receive_frame by auto
next
  case (BAck k n)
  then show ?thesis using assms ack_frame [OF assms(1)] by auto
next
  case (BNack req n)
  then show ?thesis using assms nack_frame [OF assms(1)] by auto
next
  case (BExtend k secs n)
  then show ?thesis using assms extend_frame by auto
next
  case (BUnsubscribe n memberID ch)
  then show ?thesis using assms unsubscribe_frame by auto
next
  case BReap
  then show ?thesis using assms reap_frame by auto
qed

lemma untouched: "\<exists>i. \<not> touches q i x"
proof -
  obtain e op where x: "x = (e, op)" by (cases x)
  have "\<exists>i. i \<noteq> k" for k :: string by (rule exI [of _ "CHR ''x'' # k"]) simp
  then show ?thesis unfolding x by (cases op) (simp_all, metis+)
qed

lemma run_good:
  assumes "good b s" and "run_ops xs b = Some b'" and "list_all (op_ok qok P clock) xs"
  shows "\<exists>s'. good b' s'"
  using assms
proof (induction xs arbitrary: b s)
  case (Cons x xs)
  obtain e op where x: "x = (e, op)" by (cases x)
  obtain b1 where b1: "broker_step e op b = Some b1" "run_ops xs b1 = Some b'" using Cons.prems(2) x by (auto split: bind_splits)
  obtain i where "\<not> touches [] i (e, op)" using untouched by blast
  then have "\<exists>s1. good b1 s1" using step_frame [OF Cons.prems(1) b1(1)] Cons.prems(3) x unfolding frame_def by auto
  then show ?case using Cons.IH b1(2) Cons.prems(3) by auto
qed auto

lemma run_frame:
  assumes "good b s" and "run_ops xs b = Some b'" and "list_all (op_ok qok P clock) xs" and "list_all (\<lambda>x. \<not> touches q i x) xs"
  shows "frame q i s b'"
  using assms
proof (induction xs arbitrary: b s)
  case Nil
  then show ?case by (simp add: frame_refl)
next
  case (Cons x xs)
  obtain e op where x: "x = (e, op)" by (cases x)
  obtain b1 where b1: "broker_step e op b = Some b1" "run_ops xs b1 = Some b'" using Cons.prems(2) x by (auto split: bind_splits)
  have "frame q i s b1" using step_frame [OF Cons.prems(1) b1(1)] Cons.prems(3,4) x by simp
  then show ?case by (rule frame_trans) (rule Cons.IH [OF _ b1(2)], use Cons.prems(3,4) in simp_all)
qed

section \<open>Restart\<close>

definition base :: "'s \<Rightarrow> 's Broker \<Rightarrow> bool" where
  \<comment> \<open>while loading: nobody consumes, and the storage has the messages of state \<open>s\<close>\<close>
  "base s b \<longleftrightarrow> idle_broker b \<and> (\<exists>s1. bStorage b = Some (ops, s1) \<and> inv s1 \<and> holds s1 = holds s)"

lemma config_base:
  assumes "base s b" and "on_storage (\<lambda>ops. soSaveQueue ops n cfg) b = (b', err)"
  shows "base s b'"
proof -
  obtain s1 where s1: "bStorage b = Some (ops, s1)" "inv s1" "holds s1 = holds s" using assms(1) unfolding base_def by blast
  obtain s2 err2 where s2: "soSaveQueue ops n cfg s1 = (s2, err2)" by (cases "soSaveQueue ops n cfg s1")
  have "b' = b\<lparr>bStorage := Some (ops, s2)\<rparr>" using assms(2) s1(1) s2 by (simp add: on_storage_def store_call_def)
  moreover have "inv s2" "holds s2 = holds s"
    using config_inv [OF s1(2), of n cfg] config_holds [OF s1(2), of n cfg] s1(3) s2 by simp_all
  ultimately show ?thesis using assms(1) by (simp add: base_def idle_broker_def)
qed

lemma loads_base: "base s b \<Longrightarrow> loads b b' \<and> bStorage b' = bStorage b \<Longrightarrow> base s b'"
  by (simp add: base_def loads_def)

lemma create_base:
  assumes "base s b"
  shows "base s (GetOrCreateQueue n b) \<and> loads b (GetOrCreateQueue n b)"
proof -
  let ?b = "GetOrCreateQueue n b"
  have l: "loads b ?b"
    using assms idle_broker_GetOrCreateQueue [of b n] grows_GetOrCreateQueue [of b n] by (simp add: loads_def base_def)
  obtain b1 err where b1: "on_storage (\<lambda>ops. soSaveQueue ops n (default_config (NewQueue n))) b = (b1, err)"
    by (cases "on_storage (\<lambda>ops. soSaveQueue ops n (default_config (NewQueue n))) b")
  have "bStorage ?b = bStorage b \<or> bStorage ?b = bStorage b1"
    using b1 by (auto simp: GetOrCreateQueue_def GetOrCreateQueueWithError_def Let_def split: option.splits)
  then show ?thesis using l assms config_base [OF assms b1] unfolding base_def loads_def by auto
qed

lemma stream_base:
  assumes "base s b" and "load_stream_queue n cfg b = Some b'"
  shows "base s b' \<and> loads b b'"
proof -
  let ?b = "GetOrCreateStreamQueue n b"
  obtain b1 err where b1: "on_storage (\<lambda>ops. soSaveQueue ops n (zero_config\<lparr>qcMode := QueueModeStream\<rparr>)) b = (b1, err)"
    by (cases "on_storage (\<lambda>ops. soSaveQueue ops n (zero_config\<lparr>qcMode := QueueModeStream\<rparr>)) b")
  have "bStorage ?b = bStorage b \<or> bStorage ?b = bStorage b1"
    using b1 by (auto simp: GetOrCreateStreamQueue_def GetOrCreateStreamQueueWithError_def Let_def split: option.splits)
  moreover have "bStorage b' = bStorage ?b" "bQueues b' = bQueues b"
    using assms(2) by (auto simp: load_stream_queue_def Let_def split: if_splits)
  ultimately show ?thesis using assms(1) config_base [OF assms(1) b1]
    unfolding base_def loads_def idle_broker_def grows_def by auto
qed

lemma load_queue_base:
  assumes "base s b" and "load_queue e n cfg b = Some (None, b')" and "env_ok e"
  shows "base s b' \<and> loads b b' \<and> (qok n \<longrightarrow> holds s n k m \<longrightarrow> (\<exists>sm. same_message m sm \<and> pending_in b' n (load_message sm)))"
proof -
  obtain s1 where s1: "bStorage b = Some (ops, s1)" "inv s1" "holds s1 = holds s" using assms(1) unfolding base_def by blast
  obtain ms b2 b3 b4 where ms: "soLoadMessages ops n s1 = (ms, None)"
    and b2: "set_queue (qcMaxSizeSet cfg \<or> qcMaxSize cfg \<noteq> 0) n (SetMaxSize (qcMaxSize cfg)) (GetOrCreateQueue n b) = Some b2"
    and b3: "set_queue (qcMaxRetries cfg \<noteq> 0) n (SetMaxRetries (of_int (qcMaxRetries cfg))) b2 = Some b3"
    and b4: "set_queue (qcFailurePolicy cfg \<noteq> []) n (SetFailurePolicy (qcFailurePolicy cfg)) b3 = Some b4"
    and b5: "enqueue_all e n ms b4 = Some b'"
    using assms(2) s1(1) unfolding load_queue_def Let_def by (auto split: prod.splits option.splits bind_splits)
  have idle: "idle_broker x" if "base s x" for x using that by (simp add: base_def)
  note c1 = create_base [OF assms(1), of n]
  have l2: "loads (GetOrCreateQueue n b) b2 \<and> bStorage b2 = bStorage (GetOrCreateQueue n b)"
    by (rule set_queue_loads [OF idle b2]) (use c1 in \<open>simp_all add: SetMaxSize_def idle_queue_def\<close>)
  note c2 = loads_base [OF conjunct1 [OF c1] l2]
  have l3: "loads b2 b3 \<and> bStorage b3 = bStorage b2"
    by (rule set_queue_loads [OF idle [OF c2] b3]) (simp_all add: SetMaxRetries_def idle_queue_def)
  note c3 = loads_base [OF c2 l3]
  have l4: "loads b3 b4 \<and> bStorage b4 = bStorage b3"
    by (rule set_queue_loads [OF idle [OF c3] b4]) (simp_all add: SetFailurePolicy_def idle_queue_def)
  note c4 = loads_base [OF c3 l4]
  note l5 = enqueue_all_loads [OF idle [OF c4] b5 assms(3)]
  have "loads b b'" using c1 l2 l3 l4 l5 loads_trans by blast
  moreover have "base s b'" using loads_base [OF c4] l5 by blast
  moreover have "\<exists>sm. same_message m sm \<and> pending_in b' n (load_message sm)" if "qok n" "holds s n k m"
    using load_ok [OF s1(2) that(1) ms, of m] that(2) s1(3) l5 by auto
  ultimately show ?thesis by blast
qed

lemma load_queues_base:
  assumes "base s b" and "load_queues e xs b = Some (None, b')" and "env_ok e"
  shows "loads b b' \<and> ((n, cfg) \<in> set xs \<longrightarrow> qcMode cfg \<noteq> QueueModeStream \<longrightarrow> qok n \<longrightarrow> holds s n k m
    \<longrightarrow> (\<exists>sm. same_message m sm \<and> pending_in b' n (load_message sm)))"
  using assms
proof (induction xs arbitrary: b)
  case Nil
  then show ?case by (simp add: loads_def base_def grows_refl)
next
  case (Cons x xs)
  obtain n1 cfg1 where x: "x = (n1, cfg1)" by (cases x)
  have "\<exists>b1. base s b1 \<and> loads b b1 \<and> load_queues e xs b1 = Some (None, b') \<and> (qcMode cfg1 \<noteq> QueueModeStream \<longrightarrow> qok n1 \<longrightarrow>
      holds s n1 k m \<longrightarrow> (\<exists>sm. same_message m sm \<and> pending_in b1 n1 (load_message sm)))"
  proof (cases "qcMode cfg1 = QueueModeStream")
    case True
    then show ?thesis using Cons.prems x stream_base [OF Cons.prems(1)] by (auto split: bind_splits)
  next
    case False
    then obtain b1 where b1: "load_queue e n1 cfg1 b = Some (None, b1)" "load_queues e xs b1 = Some (None, b')"
      using Cons.prems(2) x by (auto split: bind_splits option.splits)
    then show ?thesis using load_queue_base [OF Cons.prems(1) b1(1) Cons.prems(3), of k m] by blast
  qed
  then obtain b1 where b1: "base s b1" "loads b b1" "load_queues e xs b1 = Some (None, b')"
    "qcMode cfg1 \<noteq> QueueModeStream \<longrightarrow> qok n1 \<longrightarrow> holds s n1 k m \<longrightarrow> (\<exists>sm. same_message m sm \<and> pending_in b1 n1 (load_message sm))"
    by blast
  note ih = Cons.IH [OF b1(1,3) Cons.prems(3)]
  then have "grows b1 b'" by (simp add: loads_def)
  then show ?case using ih b1(2,4) loads_trans grows_pending x by fastforce
qed

lemma restart_pending:
  assumes "good b s" and "holds s n k m" and "queue_config configs s n" and "restart e now b = Some (None, b')" and "env_ok e"
  shows "\<exists>sm. same_message m sm \<and> pending_in b' n (load_message sm)"
proof -
  note st = good_storage [OF assms(1)]
  let ?b = "NewBroker [WithStorage ops s] now"
  have b: "bStorage ?b = Some (ops, s)" "base s ?b"
    using st by (simp_all add: NewBroker_def WithStorage_def base_def idle_broker_def)
  obtain cfgs where c: "soLoadQueues ops s = (cfgs, None)" "load_queues e (eConfigs e cfgs) ?b = Some (None, b')"
    using assms(4) st b(1) by (auto simp: restart_def LoadFromStorage_def split: prod.splits option.splits)
  obtain cfg where cfg: "configs s n = Some cfg" "qcMode cfg \<noteq> QueueModeStream" using assms(3) by (auto simp: queue_config_def)
  have "gm_wf cfgs" "gm_get cfgs = configs s" using load_configs [OF _ c(1)] st by auto
  then have "(n, cfg) \<in> set cfgs" using cfg(1) gm_get_in_set by metis
  then have "(n, cfg) \<in> set (eConfigs e cfgs)" using assms(5) range_order_set by (auto simp: env_ok_def)
  moreover have "qok n" using holds_id [OF _ assms(2)] st by blast
  ultimately show ?thesis using load_queues_base [OF b(2) c(2) assms(5)] cfg(2) assms(2) by blast
qed

lemma publish_survives:
  assumes "good b0 s0" and "run_ops xs b0 = Some b1" and "list_all (op_ok qok P clock) xs"
    and "HandlePublish e req b1 = Some (Inr k, b2)" and "op_ok qok P clock (e, BPublish req)"
    and "run_ops ys b2 = Some b3" and "list_all (op_ok qok P clock) ys" and "list_all (\<lambda>y. \<not> touches (prQueue req) k y) ys"
    and "restart e' now b3 = Some (None, b4)" and "env_ok e'"
  shows "\<exists>sm. same_message (published_message e req) sm \<and> mID sm = k \<and> pending_in b4 (prQueue req) (load_message sm)"
proof -
  obtain s1 where s1: "good b1 s1" using run_good [OF assms(1-3)] by blast
  obtain s2 where s2: "good b2 s2" "holds s2 (prQueue req) k (published_message e req)" "queue_config configs s2 (prQueue req)"
    using publish_stored [OF s1 assms(4,5)] by blast
  obtain s3 where "good b3 s3" "holds s3 (prQueue req) k = holds s2 (prQueue req) k" "queue_config configs s3 (prQueue req)"
    using run_frame [OF s2(1) assms(6-8)] s2(3) unfolding frame_def by blast
  then have "\<exists>sm. same_message (published_message e req) sm \<and> pending_in b4 (prQueue req) (load_message sm)"
    using restart_pending [OF _ _ _ assms(9,10)] s2(2) by metis
  moreover have "mID (published_message e req) = k" using holds_id [OF _ s2(2)] good_storage [OF s2(1)] by blast
  ultimately show ?thesis using same_messageD(1) by metis
qed

end

end
