(* ===== verification/Durability_Props.thy ===== *)
theory Durability_Props
  imports Durability Call
begin

text \<open>
  The storage of \<open>badger.go\<close> as an instance of \<open>crash_safe\<close>, and what follows for the broker on it. A crash is that of
  the process: what BadgerDB has accepted is still there. A machine that loses power may lose more, since
  the database is flushed periodically unless it is opened with synchronous writes.
\<close>

definition sane_clock :: "time \<Rightarrow> bool" where
  \<comment> \<open>within 146 years of 1970, so that a visibility timeout cannot leave the range of 64-bit nanoseconds\<close>
  "sane_clock t \<longleftrightarrow> - (2 ^ 62) \<le> t \<and> t \<le> 2 ^ 62"

definition short_timeout :: "duration \<Rightarrow> bool" where
  \<comment> \<open>what a 32-bit number of seconds can say\<close>
  "short_timeout t \<longleftrightarrow> 0 \<le> t \<and> t \<le> 2 ^ 32 * second"

definition storable :: "header_order \<Rightarrow> string \<Rightarrow> message \<Rightarrow> bool" where
  "storable r n m \<longleftrightarrow> mQueue m = n \<and> gm_wf (mHeaders m) \<and> nano_range (mPublishedAt m) \<and> nano_range (mVisibleAt m)
     \<and> length (mPayload m) + length (mOrderingKey m) + length (enc_headers (r (mHeaders m))) < 2 ^ 62"

interpretation kept: content "storable r n" short_timeout sane_clock for r n
  by unfold_locales (auto simp: storable_def delivers_def short_timeout_def sane_clock_def nano_range_def second_def)

lemma storable_message_ok:
  assumes "range_order r" and "storable r n m"
  shows "message_ok r m"
proof -
  note u = length_AppendUvarint'_le
  have l: "length (r (mHeaders m)) = length (mHeaders m)" using assms(1) by (rule range_order_length)
  have "length (encodeMessage r m) < 2 ^ 63"
    using assms(2) u [of "of_nat (length (mPayload m))"] u [of "of_nat (length (mOrderingKey m))"] u [of "ucast (mAttempt m)"]
      u [of "zigzag (unix_nano (mPublishedAt m))"] u [of "zigzag (unix_nano (mVisibleAt m))"] u [of "mSequence m"]
      u [of "of_nat (length (r (mHeaders m)))"]
    by (simp add: encodeMessage_fields [of r m, OF l] enc_fields_def enc_string_def storable_def)
  then show ?thesis using assms(2) by (simp add: message_ok_def storable_def)
qed

lemma name_ok_dlq: "name_ok n \<Longrightarrow> name_ok (DLQName n)"
  by (auto simp: name_ok_def DLQName_def DLQSuffix_def)

sublocale badger_store \<subseteq> safe: crash_safe "badger_ops kv js r" "badger_holds kv js" "badger_inv kv ok js"
  name_ok "message_ok r" "badger_configs kv js" "storable r" short_timeout sane_clock
proof (unfold_locales, goal_cases)
  case (1 n m)
  then show ?case using storable_message_ok [OF order] by (simp add: storable_def)
next
  case (2 n m now)
  then show ?case by (auto simp: storable_def sane_clock_def nano_range_def)
next
  case (3 n)
  then show ?case by (rule name_ok_dlq)
next
  case (4 t)
  then show ?case by (simp add: short_timeout_def)
qed

context badger_store
begin

lemma is_crash_safe:
  "crash_safe (badger_ops kv js r) (badger_holds kv js) (badger_inv kv ok js) name_ok (message_ok r) (badger_configs kv js)
     (storable r) short_timeout sane_clock"
  by unfold_locales

end

section \<open>Properties\<close>


definition demo_publish :: "string \<Rightarrow> PublishRequest" where
  "demo_publish i = \<lparr>prQueue = ''q'', prPayload = [1, 2], prHeaders = [(''h'', ''v'')], prMessageId = i, prIdempotencyKey = [], prOrderingKey = ''k''\<rparr>"

definition demo_broker :: "mem_db badger Broker" where
  "demo_broker = NewBroker [WithStorage (badger_ops mem_kv ref_json rev) empty_badger] 0"

definition demo_ops :: "(env \<times> broker_op) list" where
  \<comment> \<open>a consumer comes and gets the message, another message is published and acknowledged, time passes\<close>
  "demo_ops = [(plain_env 6 [] 1, BConsume \<lparr>crQueue = ''q'', crVisibilityTimeout = 0, crGroup = []\<rparr> ''c''),
     (plain_env 7 [] 2, BPublish (demo_publish ''n'')), (plain_env 8 [] 3, BAck ''n'' ''q''), (plain_env 9 [] 4, BReap)]"

definition demo_published :: "mem_db badger Broker" where
  "demo_published = snd (the (HandlePublish (plain_env 5 [] 0) (demo_publish ''m'') demo_broker))"

definition demo_crashed :: "mem_db badger Broker" where
  "demo_crashed = the (run_ops demo_ops demo_published)"

definition demo_restarted :: "mem_db badger Broker" where
  "demo_restarted = snd (the (restart (plain_env 20 [] 9) 20 demo_crashed))"

lemma demo_steps:
  "HandlePublish (plain_env 5 [] 0) (demo_publish ''m'') demo_broker = Some (Inr ''m'', demo_published)"
  "run_ops demo_ops demo_published = Some demo_crashed"
  "restart (plain_env 20 [] 9) 20 demo_crashed = Some (None, demo_restarted)"
proof -
  show "HandlePublish (plain_env 5 [] 0) (demo_publish ''m'') demo_broker = Some (Inr ''m'', demo_published)"
    unfolding demo_published_def by (rule some_fst_snd) code_simp
  show "run_ops demo_ops demo_published = Some demo_crashed"
    unfolding demo_crashed_def by (rule some_the) code_simp
  show "restart (plain_env 20 [] 9) 20 demo_crashed = Some (None, demo_restarted)"
    unfolding demo_restarted_def by (rule some_fst_snd) code_simp
qed

lemma demo_storable: "0 \<le> now \<Longrightarrow> now \<le> 100 \<Longrightarrow> storable rev ''q'' (published_message (plain_env now u c) (demo_publish i))"
proof -
  note u = length_AppendUvarint'_le [of 1]
  assume "0 \<le> now" "now \<le> 100"
  then show ?thesis using u
    by (simp add: storable_def published_message_def demo_publish_def plain_env_def nano_range_def enc_headers_def enc_string_def)
qed

lemma demo_publish_ok:
  assumes "0 \<le> now" and "now \<le> 100"
  shows "op_ok name_ok (storable rev) sane_clock (plain_env now u c, BPublish (demo_publish i))"
  using assms demo_storable [of now u c i] by (simp add: sane_clock_def) (simp add: plain_env_def demo_publish_def name_ok_def)

lemma demo_ops_ok: "list_all (op_ok name_ok (storable rev) sane_clock) demo_ops"
  using demo_publish_ok [of 7 "[]" 2 "''n''"]
  by (simp add: demo_ops_def del: op_ok.simps(1)) (simp add: sane_clock_def plain_env_def name_ok_def)


text \<open>C14. The broker's state stays well formed: whatever is published, consumed, received, acknowledged, refused, extended, given
  up or timed out on a broker over an intact storage, the storage is intact, no queue is there twice, and in every
  queue the pending messages and the messages in flight belong to that queue and can be stored, those in flight
  are under their own id, and a configuration that is not a stream's is stored for the queue.\<close>

theorem broker_stays_well_formed:
  assumes "badger_store kv ok js r" and "badger_inv kv ok js s"
    and "run_ops xs (NewBroker [WithStorage (badger_ops kv js r) s] t) = Some b" and "list_all (op_ok name_ok (storable r) sane_clock) xs"
  shows "\<exists>s'. bStorage b = Some (badger_ops kv js r, s') \<and> badger_inv kv ok js s' \<and> gm_wf (bQueues b)
    \<and> (\<forall>name q. gm_get (bQueues b) name = Some q \<longrightarrow> name_ok name \<and> list_all (storable r name) (qMessages q)
         \<and> list_all (\<lambda>(k, m). storable r name m \<and> mID m = k) (qInFlight q) \<and> queue_config (badger_configs kv js) s' name)"
proof -
  note safe = badger_store.is_crash_safe [OF assms(1)]
  have "crash_safe.good (badger_ops kv js r) (badger_inv kv ok js) name_ok (badger_configs kv js) (storable r) short_timeout
      (NewBroker [WithStorage (badger_ops kv js r) s] t) s"
    using assms(2) by (simp add: crash_safe.good_def [OF safe] NewBroker_def WithStorage_def keys_ok_def)
  from crash_safe.run_good [OF safe this assms(3,4)] show ?thesis
    unfolding crash_safe.good_def [OF safe] content_ok_def keys_ok_def list_all_iff by blast
qed

theorem broker_stays_well_formed_witness:
  "\<exists>s' q. bStorage demo_crashed = Some (badger_ops mem_kv ref_json rev, s') \<and> badger_inv mem_kv mem_ok ref_json s'
     \<and> gm_get (bQueues demo_crashed) ''q'' = Some q \<and> list_all (\<lambda>(k, m). storable rev ''q'' m \<and> mID m = k) (qInFlight q)
     \<and> gm_keys (qInFlight q) = [''m'']"
proof -
  let ?xs = "(plain_env 5 [] 0, BPublish (demo_publish ''m'')) # demo_ops"
  have "run_ops ?xs demo_broker = Some demo_crashed" using demo_steps(1,2) by simp
  then have r: "run_ops ?xs (NewBroker [WithStorage (badger_ops mem_kv ref_json rev) empty_badger] 0) = Some demo_crashed"
    by (simp only: demo_broker_def)
  have q: "map_option (gm_keys \<circ> qInFlight) (gm_get (bQueues demo_crashed) ''q'') = Some [''m'']" by code_simp
  then obtain q0 where q0: "gm_get (bQueues demo_crashed) ''q'' = Some q0" "gm_keys (qInFlight q0) = [''m'']" by auto
  have "list_all (op_ok name_ok (storable rev) sane_clock) ?xs" using demo_ops_ok demo_publish_ok [of 5] by simp
  from broker_stays_well_formed [OF mb.badger_store_axioms empty_badger_inv r this]
  obtain s' where s': "bStorage demo_crashed = Some (badger_ops mem_kv ref_json rev, s')" "badger_inv mem_kv mem_ok ref_json s'"
    "list_all (\<lambda>(k, m). storable rev ''q'' m \<and> mID m = k) (qInFlight q0)" using q0(1) by (elim exE conjE) (simp only:)
  then show ?thesis using q0 by (intro exI [of _ s'] exI [of _ q0] conjI)
qed

end
