(* ===== verification/Ts_Frame.thy ===== *)
theory Ts_Frame
  imports Frame
begin

text \<open>
  The framing of the TypeScript client, \<open>clients/typescript/src/protocol.ts\<close> and the constants of \<open>types.ts\<close>. A \<open>Buffer\<close> is
  its bytes. The decoder's state is the bytes that were pushed and not yet read; \<open>read\<close> and \<open>readAll\<close> return
  the frames, or the error they throw, and the buffer they leave. Frames are those of the broker's own framing.
\<close>

definition PROTOCOL_VERSION :: u8 where "PROTOCOL_VERSION = 1"
definition MAX_FRAME_SIZE :: nat where "MAX_FRAME_SIZE = 16 * 1024 * 1024"

definition tsOpCode :: "(string \<times> u8) list" where
  "tsOpCode = [(''PUBLISH'', 0x01), (''CONSUME'', 0x03), (''ACK'', 0x05), (''NACK'', 0x06), (''EXTEND_VISIBILITY'', 0x08),
     (''SCHEMA_REGISTER'', 0x10), (''SCHEMA_GET'', 0x11), (''CALL'', 0x20), (''SCHEMA_LIST'', 0x30), (''QUEUE_LIST'', 0x32)]"

definition tsOpCodeResponse :: "(string \<times> u8) list" where
  "tsOpCodeResponse = [(''PUBLISH_ACK'', 0x02), (''MESSAGE'', 0x04), (''ERROR'', 0x07), (''EXTEND_VISIBILITY_ACK'', 0x09),
     (''SCHEMA_RESPONSE'', 0x12), (''CALL_RESPONSE'', 0x21), (''SCHEMA_LIST_RESP'', 0x31), (''QUEUE_LIST_RESP'', 0x33)]"

lemma ts_opcodes_agree: "list_all (\<lambda>(name, c). gm_get opCodeNames c = Some name) (tsOpCode @ tsOpCodeResponse)"
  by (simp add: tsOpCode_def tsOpCodeResponse_def opCodeNames_def opcode_defs)

datatype ts_frame_error = TsFrameTooLarge nat | TsFrameTooSmall

definition encodeFrame :: "u8 \<Rightarrow> bytes \<Rightarrow> bytes option" where
  \<comment> \<open>\<open>writeUInt32BE\<close> throws when the number does not fit\<close>
  "encodeFrame opcode payload =
     (let len = 2 + length payload
      in if len < 2 ^ 32 then Some (PutUint32 (of_nat len) @ [PROTOCOL_VERSION, opcode] @ payload) else None)"

definition fdPush :: "bytes \<Rightarrow> bytes \<Rightarrow> bytes" where
  "fdPush chunk buffer = (if length buffer = 0 then chunk else buffer @ chunk)"

definition fdRead :: "bytes \<Rightarrow> (ts_frame_error + frame option) \<times> bytes" where
  "fdRead buffer =
     (if length buffer < 4 then (Inr None, buffer)
      else let len = unat (Uint32 (take 4 buffer)) in
        if len > MAX_FRAME_SIZE then (Inl (TsFrameTooLarge len), buffer)
        else if len < 2 then (Inl TsFrameTooSmall, buffer)
        else let totalSize = 4 + len in
          if length buffer < totalSize then (Inr None, buffer)
          else (Inr (Some \<lparr>fVersion = buffer ! 4, fOpCode = buffer ! 5, fPayload = drop 6 (take totalSize buffer)\<rparr>),
                drop totalSize buffer))"

lemma fdRead_shrinks: "fdRead buffer = (Inr (Some f), rest) \<Longrightarrow> length rest < length buffer"
  by (auto simp: fdRead_def Let_def split: if_splits)

function fdReadAll :: "bytes \<Rightarrow> (ts_frame_error + frame list) \<times> bytes" where
  \<comment> \<open>the frames read before an error is thrown are lost with it\<close>
  "fdReadAll buffer =
     (case fdRead buffer of
        (Inl e, rest) \<Rightarrow> (Inl e, rest)
      | (Inr None, rest) \<Rightarrow> (Inr [], rest)
      | (Inr (Some f), rest) \<Rightarrow>
          (case fdReadAll rest of (Inl e, r) \<Rightarrow> (Inl e, r) | (Inr fs, r) \<Rightarrow> (Inr (f # fs), r)))"
  by pat_completeness auto
termination
  by (relation "measure length") (auto dest: fdRead_shrinks [OF sym])

declare fdReadAll.simps [simp del]

definition fdReset :: bytes where
  "fdReset = []"

fun feed :: "bytes list \<Rightarrow> bytes \<Rightarrow> (ts_frame_error + frame list) \<times> bytes" where
  \<comment> \<open>the handler of the socket's data events: push a chunk, read all frames; the first error ends the connection\<close>
  "feed [] buffer = (Inr [], buffer)"
| "feed (chunk # chunks) buffer =
     (case fdReadAll (fdPush chunk buffer) of
        (Inl e, r) \<Rightarrow> (Inl e, r)
      | (Inr fs, r) \<Rightarrow> (case feed chunks r of (Inl e, r') \<Rightarrow> (Inl e, r') | (Inr gs, r') \<Rightarrow> (Inr (fs @ gs), r')))"

section \<open>More data changes no decision\<close>

lemma fdPush_append: "fdPush chunk buffer = buffer @ chunk"
  by (simp add: fdPush_def)

lemma fdRead_frame: "fdRead a = (Inr (Some f), r) \<Longrightarrow> fdRead (a @ b) = (Inr (Some f), r @ b)"
  by (auto simp: fdRead_def Let_def nth_append split: if_splits)

lemma fdRead_error:
  assumes "fdRead a = (Inl e, r)"
  shows "r = a \<and> fdRead (a @ b) = (Inl e, a @ b)"
proof (cases "length a < 4")
  case True
  then show ?thesis using assms by (simp add: fdRead_def)
next
  case False
  define l where "l = unat (Uint32 (take 4 a))"
  have "take 4 (a @ b) = take 4 a" "\<not> length (a @ b) < 4" using False by simp_all
  then show ?thesis using assms False unfolding fdRead_def Let_def
    by (simp only: if_False l_def [symmetric]) (auto split: if_splits)
qed

lemma fdRead_none: "fdRead a = (Inr None, r) \<Longrightarrow> r = a"
  by (auto simp: fdRead_def Let_def split: if_splits)

definition prepend :: "frame list \<Rightarrow> (ts_frame_error + frame list) \<times> bytes \<Rightarrow> (ts_frame_error + frame list) \<times> bytes" where
  "prepend fs res = (case res of (Inl e, r) \<Rightarrow> (Inl e, r) | (Inr gs, r) \<Rightarrow> (Inr (fs @ gs), r))"

lemma prepend_simps [simp]:
  "prepend fs (Inl e, r) = (Inl e, r)" "prepend fs (Inr gs, r) = (Inr (fs @ gs), r)" "prepend [] res = res"
  by (simp_all add: prepend_def split: prod.splits sum.splits)

lemma prepend_append: "prepend (fs @ gs) res = prepend fs (prepend gs res)"
  by (auto simp: prepend_def split: prod.splits sum.splits)

lemma fdReadAll_step: "fdRead a = (Inr (Some f), r) \<Longrightarrow> fdReadAll a = prepend [f] (fdReadAll r)"
  by (subst fdReadAll.simps) (auto simp: prepend_def split: prod.splits sum.splits)

lemma fdRead_cases:
  obtains (error) e where "fdRead a = (Inl e, a)" "fdReadAll a = (Inl e, a)"
  | (none) "fdRead a = (Inr None, a)" "fdReadAll a = (Inr [], a)"
  | (frame) f r where "fdRead a = (Inr (Some f), r)" "fdReadAll a = prepend [f] (fdReadAll r)" "length r < length a"
proof (cases "fdRead a")
  case (Pair res r)
  show ?thesis
  proof (cases res)
    case (Inl e)
    then have "fdRead a = (Inl e, a)" using Pair fdRead_error by auto
    then show ?thesis using error by (simp add: fdReadAll.simps [of a])
  next
    case (Inr res')
    then show ?thesis
      using Pair none frame fdRead_none [of a r] fdReadAll_step [of a _ r] fdRead_shrinks [of a _ r]
      by (cases res') (simp_all add: fdReadAll.simps [of a])
  qed
qed

lemma prepend_Inr: "prepend fs res = (Inr gs, r) \<longleftrightarrow> (\<exists>hs. res = (Inr hs, r) \<and> gs = fs @ hs)"
  by (auto simp: prepend_def split: prod.splits sum.splits)

lemma prepend_Inl: "prepend fs res = (Inl e, r) \<longleftrightarrow> res = (Inl e, r)"
  by (auto simp: prepend_def split: prod.splits sum.splits)

lemma fdReadAll_append: "fdReadAll a = (Inr fs, r) \<Longrightarrow> fdReadAll (a @ b) = prepend fs (fdReadAll (r @ b))"
proof (induction a arbitrary: fs rule: length_induct)
  case (1 a)
  show ?case
  proof (cases a rule: fdRead_cases)
    case (frame f rest)
    obtain gs where gs: "fdReadAll rest = (Inr gs, r)" "fs = f # gs" using "1.prems" frame(2) by (auto simp: prepend_Inr)
    then have "fdReadAll (rest @ b) = prepend gs (fdReadAll (r @ b))" using "1.IH" frame(3) by blast
    then show ?thesis using fdReadAll_step [OF fdRead_frame [OF frame(1)]] prepend_append [of "[f]" gs] gs(2) by simp
  qed (use "1.prems" in simp_all)
qed

lemma fdReadAll_error: "fdReadAll a = (Inl e, r) \<Longrightarrow> fdReadAll (a @ b) = (Inl e, r @ b)"
proof (induction a rule: length_induct)
  case (1 a)
  show ?case
  proof (cases a rule: fdRead_cases)
    case (error e')
    then show ?thesis using "1.prems" fdRead_error [OF error(1), of b] by (simp add: fdReadAll.simps [of "a @ b"])
  next
    case (frame f rest)
    have "fdReadAll rest = (Inl e, r)" using "1.prems" unfolding frame(2) prepend_Inl .
    then have "fdReadAll (rest @ b) = (Inl e, r @ b)" using "1.IH" frame(3) by blast
    then show ?thesis using fdReadAll_step [OF fdRead_frame [OF frame(1)]] by simp
  qed (use "1.prems" in simp)
qed

lemma fdReadAll_twice: "fdReadAll a = (Inr fs, r) \<Longrightarrow> fdReadAll r = (Inr [], r)"
proof (induction a arbitrary: fs rule: length_induct)
  case (1 a)
  show ?case
  proof (cases a rule: fdRead_cases)
    case (frame f rest)
    obtain gs where "fdReadAll rest = (Inr gs, r)" using "1.prems" unfolding frame(2) prepend_Inr by blast
    then show ?thesis using "1.IH" frame(3) by blast
  qed (use "1.prems" in simp_all)
qed

section \<open>The chunks of a stream do not matter\<close>

lemma feed_prepend: "feed (chunk # chunks) buffer =
    (case fdReadAll (buffer @ chunk) of (Inl e, r) \<Rightarrow> (Inl e, r) | (Inr fs, r) \<Rightarrow> prepend fs (feed chunks r))"
  by (simp add: fdPush_append prepend_def split: prod.splits sum.splits)

lemma feed_concat:
  assumes "fdReadAll buffer = (Inr [], buffer)"
  shows "fst (feed chunks buffer) = fst (fdReadAll (buffer @ concat chunks))
    \<and> (\<forall>fs. fst (feed chunks buffer) = Inr fs \<longrightarrow> snd (feed chunks buffer) = snd (fdReadAll (buffer @ concat chunks)))"
  using assms
proof (induction chunks arbitrary: buffer)
  case Nil
  then show ?case by simp
next
  case (Cons chunk chunks)
  show ?case
  proof (cases "fdReadAll (buffer @ chunk)")
    case (Pair res r)
    show ?thesis
    proof (cases res)
      case (Inl e)
      then show ?thesis using Pair fdReadAll_error [of "buffer @ chunk" e r "concat chunks"]
        by (simp only: feed_prepend) simp
    next
      case (Inr fs)
      have r: "fdReadAll r = (Inr [], r)" using fdReadAll_twice Pair Inr by blast
      have a: "fdReadAll (buffer @ chunk @ concat chunks) = prepend fs (fdReadAll (r @ concat chunks))"
        using fdReadAll_append [of "buffer @ chunk" fs r "concat chunks"] Pair Inr by simp
      show ?thesis using Cons.IH [OF r] Pair Inr a unfolding feed_prepend
        by (cases "feed chunks r"; cases "fdReadAll (r @ concat chunks)") (auto simp: prepend_def split: sum.splits)
    qed
  qed
qed

lemma fdRead_WriteFrame:
  assumes "length payload + 2 \<le> MAX_FRAME_SIZE"
  shows "fdRead (WriteFrame op payload @ rest) = (Inr (Some \<lparr>fVersion = ProtocolVersion, fOpCode = op, fPayload = payload\<rparr>), rest)"
proof -
  have l: "unat (of_nat (2 + length payload) :: u32) = 2 + length payload"
    using assms by (intro frame_len_unat) (simp add: MAX_FRAME_SIZE_def MaxFrameSize_def)
  have w: "WriteFrame op payload @ rest = PutUint32 (of_nat (2 + length payload)) @ ProtocolVersion # op # payload @ rest"
    by (simp add: WriteFrame_def)
  show ?thesis unfolding w fdRead_def Let_def using assms l by (simp add: nth_append)
qed

lemma fdReadAll_WriteFrames:
  assumes "list_all (\<lambda>(op, payload). length payload + 2 \<le> MAX_FRAME_SIZE) fs"
  shows "fdReadAll (concat (map (\<lambda>(op, payload). WriteFrame op payload) fs))
    = (Inr (map (\<lambda>(op, payload). \<lparr>fVersion = ProtocolVersion, fOpCode = op, fPayload = payload\<rparr>) fs), [])"
  using assms
proof (induction fs)
  case Nil
  then show ?case by (simp add: fdReadAll.simps [of "[]"] fdRead_def)
next
  case (Cons x fs)
  obtain op payload where x: "x = (op, payload)" by (cases x)
  show ?case using Cons fdReadAll_step [OF fdRead_WriteFrame] x by simp
qed



end
