(* ===== verification/Ts_Codec.thy ===== *)
theory Ts_Codec
  imports Ts_Frame Client_Codec "HOL-Library.Log_Nat"
begin

text \<open>
  The protobuf codec of the TypeScript client, \<open>clients/typescript/src/codec.ts\<close>. A \<open>bigint\<close> is an unbounded number, a
  \<open>number\<close> given to an encoder is an integer (\<open>BigInt\<close> throws on others); \<open>Number\<close> rounds it to a double (\<open>jsNumber\<close>). A position in a buffer is the bytes from there on. Strings are their UTF-8 bytes;
  \<open>toString("utf-8")\<close>, which replaces bytes that are not UTF-8, is the parameter \<open>utf8\<close> of the decoders. A decoder
  returns \<open>None\<close> when the code throws.
\<close>

unbundle bit_operations_syntax

section \<open>Numbers\<close>

definition jsNumber :: "nat \<Rightarrow> nat" where
  \<comment> \<open>the nearest double, ties to even\<close>
  "jsNumber n =
     (if n < 2 ^ 53 then n
      else let k = floorlog 2 n - 53; q = n div 2 ^ k; r = n mod 2 ^ k; half = 2 ^ (k - 1)
        in (if r > half \<or> (r = half \<and> odd q) then q + 1 else q) * 2 ^ k)"

lemma jsNumber_code [code]:
  \<comment> \<open>compares integers, whose numerals compute\<close>
  "jsNumber n =
     (if int n < 9007199254740992 then n
      else let k = floorlog 2 n - 53; q = n div 2 ^ k; r = n mod 2 ^ k; half = 2 ^ (k - 1)
        in (if r > half \<or> (r = half \<and> odd q) then q + 1 else q) * 2 ^ k)"
  by (simp add: jsNumber_def)

function tsVarintLoop :: "int \<Rightarrow> bytes" where
  \<comment> \<open>the \<open>do\<close> loop of \<open>encodeVarint\<close>\<close>
  "tsVarintLoop v =
     (let b = of_int (v mod 128) :: u8; v' = v div 128
      in if v' > 0 then (b OR 0x80) # tsVarintLoop v' else [b])"
  by pat_completeness auto
termination
  by (relation "measure nat") auto

declare tsVarintLoop.simps [simp del]

definition encodeVarint :: "int \<Rightarrow> bytes" where
  "encodeVarint value = tsVarintLoop (if value < 0 then value + 2 ^ 64 else value)"

fun tsDecodeLoop :: "nat \<Rightarrow> nat \<Rightarrow> nat \<Rightarrow> bytes \<Rightarrow> nat \<times> bytes" where
  \<comment> \<open>the first argument is the number of bytes that may still be read\<close>
  "tsDecodeLoop left shift result [] = (result, [])"
| "tsDecodeLoop 0 shift result (b # bs) = (result, b # bs)"
| "tsDecodeLoop (Suc left) shift result (b # bs) =
     (let result' = result OR push_bit shift (unat (b AND 0x7f))
      in if b AND 0x80 = 0 then (result', bs) else tsDecodeLoop left (shift + 7) result' bs)"

definition decodeVarint :: "bytes \<Rightarrow> nat \<times> bytes" where
  "decodeVarint buf = tsDecodeLoop 10 0 0 buf"

section \<open>Field encoders\<close>

definition encodeTag :: "nat \<Rightarrow> nat \<Rightarrow> bytes" where
  "encodeTag fieldNumber wireType = encodeVarint (int (push_bit 3 fieldNumber OR wireType))"

definition encodeBytesField :: "nat \<Rightarrow> bytes \<Rightarrow> bytes" where
  "encodeBytesField fieldNumber value =
     (if length value = 0 then [] else encodeTag fieldNumber 2 @ encodeVarint (int (length value)) @ value)"

definition encodeStringField :: "nat \<Rightarrow> string \<Rightarrow> bytes" where
  "encodeStringField fieldNumber value =
     (if value = [] then []
      else let data = bytes_of value in encodeTag fieldNumber 2 @ encodeVarint (int (length data)) @ data)"

definition encodeUint32Field :: "nat \<Rightarrow> int \<Rightarrow> bytes" where
  "encodeUint32Field fieldNumber value = (if value = 0 then [] else encodeTag fieldNumber 0 @ encodeVarint value)"

definition encodeInt64Field :: "nat \<Rightarrow> int \<Rightarrow> bytes" where
  "encodeInt64Field fieldNumber v = (if v = 0 then [] else encodeTag fieldNumber 0 @ encodeVarint v)"

definition encodeMapField :: "nat \<Rightarrow> (string \<times> string) list \<Rightarrow> bytes" where
  \<comment> \<open>the argument is \<open>Object.entries\<close> of the map\<close>
  "encodeMapField fieldNumber entries =
     concat (map (\<lambda>(key, val).
       let entryData = encodeStringField 1 key @ encodeStringField 2 val
       in encodeTag fieldNumber 2 @ encodeVarint (int (length entryData)) @ entryData) entries)"

definition encodeOptionalStringField :: "nat \<Rightarrow> string option \<Rightarrow> bytes" where
  "encodeOptionalStringField fieldNumber value =
     (case value of None \<Rightarrow> [] | Some s \<Rightarrow> if s = [] then [] else encodeStringField fieldNumber s)"

definition encodeBoolField :: "nat \<Rightarrow> bool \<Rightarrow> bytes" where
  "encodeBoolField fieldNumber value = (if \<not> value then [] else encodeTag fieldNumber 0 @ encodeVarint 1)"

section \<open>Field decoders\<close>

datatype field_data = DNum nat | DBuf bytes

type_synonym DecodedFields = "(nat, field_data list) gomap"

definition push_field :: "nat \<Rightarrow> field_data \<Rightarrow> DecodedFields \<Rightarrow> DecodedFields" where
  "push_field n d flds = gm_set flds n ((case gm_get flds n of None \<Rightarrow> [] | Some ds \<Rightarrow> ds) @ [d])"

fun little_endian :: "bytes \<Rightarrow> nat" where
  "little_endian [] = 0"
| "little_endian (b # bs) = unat b + 256 * little_endian bs"

definition decodeField :: "bytes \<Rightarrow> DecodedFields \<Rightarrow> (DecodedFields \<times> bytes) option" where
  \<comment> \<open>one iteration of the loop of \<open>decodeFields\<close>; \<open>subarray\<close> stops at the end of the buffer, the fixed-width reads throw there\<close>
  "decodeField buf flds =
     (let (tagValue, buf1) = decodeVarint buf;
          fieldNumber = jsNumber (drop_bit 3 tagValue);
          wireType = tagValue mod 8
      in if wireType = 0 then
           (let (value, buf2) = decodeVarint buf1 in Some (push_field fieldNumber (DNum value) flds, buf2))
         else if wireType = 2 then
           (let (len', buf2) = decodeVarint buf1; len = jsNumber len'
            in Some (push_field fieldNumber (DBuf (take len buf2)) flds, drop len buf2))
         else if wireType = 5 then
           (if length buf1 < 4 then None
            else Some (push_field fieldNumber (DNum (little_endian (take 4 buf1))) flds, drop 4 buf1))
         else if wireType = 1 then
           (if length buf1 < 8 then None
            else Some (push_field fieldNumber (DNum (little_endian (take 8 buf1))) flds, drop 8 buf1))
         else None)"

lemma tsDecodeLoop_shrinks: "length (snd (tsDecodeLoop left shift result bs)) \<le> length bs"
  by (induction left shift result bs rule: tsDecodeLoop.induct) (auto simp: Let_def)

lemma decodeVarint_shrinks:
  "length (snd (decodeVarint bs)) \<le> length bs" "bs \<noteq> [] \<Longrightarrow> length (snd (decodeVarint bs)) < length bs"
proof -
  show "length (snd (decodeVarint bs)) \<le> length bs" unfolding decodeVarint_def by (rule tsDecodeLoop_shrinks)
  show "length (snd (decodeVarint bs)) < length bs" if ne: "bs \<noteq> []"
  proof -
    obtain b bs' where bs: "bs = b # bs'" using ne by (cases bs) auto
    have "length (snd (tsDecodeLoop (Suc 9) 0 0 (b # bs'))) \<le> length bs'"
      unfolding tsDecodeLoop.simps Let_def using tsDecodeLoop_shrinks [of 9 7 _ bs'] by simp
    then show ?thesis unfolding decodeVarint_def bs by (simp add: eval_nat_numeral)
  qed
qed

lemma decodeField_shrinks:
  assumes "buf \<noteq> []" and "decodeField buf flds = Some (flds', rest)"
  shows "length rest < length buf"
proof -
  obtain t b1 where b1: "decodeVarint buf = (t, b1)" by (cases "decodeVarint buf")
  obtain v b2 where b2: "decodeVarint b1 = (v, b2)" by (cases "decodeVarint b1")
  have "length b1 < length buf" "length b2 \<le> length b1"
    using decodeVarint_shrinks(2) [OF assms(1)] decodeVarint_shrinks(1) [of b1] b1 b2 by simp_all
  then show ?thesis using assms(2) b1 b2 by (auto simp: decodeField_def Let_def split: if_splits)
qed

function decodeFieldsLoop :: "bytes \<Rightarrow> DecodedFields \<Rightarrow> DecodedFields option" where
  "decodeFieldsLoop buf flds =
     (if buf = [] then Some flds
      else case decodeField buf flds of
             None \<Rightarrow> None
           | Some (flds', rest) \<Rightarrow> decodeFieldsLoop rest flds')"
  by pat_completeness auto
termination
  by (relation "measure (\<lambda>(buf, _). length buf)") (auto simp del: length_greater_0_conv dest: decodeField_shrinks)

declare decodeFieldsLoop.simps [simp del]

definition decodeFields :: "bytes \<Rightarrow> DecodedFields option" where
  "decodeFields buf = decodeFieldsLoop buf []"

definition first_entry :: "DecodedFields \<Rightarrow> nat \<Rightarrow> field_data option" where
  \<comment> \<open>\<open>entries[0]\<close>, if there is one\<close>
  "first_entry flds n = (case gm_get flds n of Some (d # ds) \<Rightarrow> Some d | _ \<Rightarrow> None)"

definition getString :: "(bytes \<Rightarrow> string) \<Rightarrow> DecodedFields \<Rightarrow> nat \<Rightarrow> string" where
  "getString utf8 flds n = (case first_entry flds n of Some (DBuf data) \<Rightarrow> utf8 data | _ \<Rightarrow> [])"

definition getBytes :: "DecodedFields \<Rightarrow> nat \<Rightarrow> bytes" where
  "getBytes flds n = (case first_entry flds n of Some (DBuf data) \<Rightarrow> data | _ \<Rightarrow> [])"

definition getUint32 :: "DecodedFields \<Rightarrow> nat \<Rightarrow> nat" where
  "getUint32 flds n = (case first_entry flds n of Some (DNum v) \<Rightarrow> jsNumber v | _ \<Rightarrow> 0)"

definition getInt64 :: "DecodedFields \<Rightarrow> nat \<Rightarrow> nat" where
  "getInt64 flds n = (case first_entry flds n of Some (DNum v) \<Rightarrow> jsNumber v | _ \<Rightarrow> 0)"

definition getBool :: "DecodedFields \<Rightarrow> nat \<Rightarrow> bool" where
  "getBool flds n = (case first_entry flds n of Some (DNum v) \<Rightarrow> v \<noteq> 0 | _ \<Rightarrow> False)"

fun getMapLoop :: "(bytes \<Rightarrow> string) \<Rightarrow> field_data list \<Rightarrow> (string, string) gomap \<Rightarrow> (string, string) gomap option" where
  \<comment> \<open>storing a string under the name \<open>__proto__\<close> of a JavaScript object has no effect\<close>
  "getMapLoop utf8 [] result = Some result"
| "getMapLoop utf8 (DNum v # entries) result = getMapLoop utf8 entries result"
| "getMapLoop utf8 (DBuf data # entries) result =
     (case decodeFields data of
        None \<Rightarrow> None
      | Some sub \<Rightarrow>
          (let key = getString utf8 sub 1; val = getString utf8 sub 2
           in getMapLoop utf8 entries (if key \<noteq> [] \<and> key \<noteq> ''__proto__'' then gm_set result key val else result)))"

definition getMap :: "(bytes \<Rightarrow> string) \<Rightarrow> DecodedFields \<Rightarrow> nat \<Rightarrow> (string, string) gomap option" where
  "getMap utf8 flds n = (case gm_get flds n of None \<Rightarrow> Some [] | Some entries \<Rightarrow> getMapLoop utf8 entries [])"

definition getSubmessages :: "DecodedFields \<Rightarrow> nat \<Rightarrow> bytes list" where
  "getSubmessages flds n =
     (case gm_get flds n of
        None \<Rightarrow> []
      | Some entries \<Rightarrow> List.map_filter (\<lambda>e. case e of DBuf data \<Rightarrow> Some data | DNum _ \<Rightarrow> None) entries)"

section \<open>Messages\<close>

definition encodePublishRequest :: "string \<Rightarrow> bytes \<Rightarrow> (string \<times> string) list option \<Rightarrow> string option \<Rightarrow> string option \<Rightarrow> bytes" where
  "encodePublishRequest queue payload headers messageId idempotencyKey =
     encodeStringField 1 queue @ encodeBytesField 2 payload @ (case headers of None \<Rightarrow> [] | Some hs \<Rightarrow> encodeMapField 3 hs)
     @ encodeOptionalStringField 4 messageId @ encodeOptionalStringField 5 idempotencyKey"

definition decodePublishResponse :: "(bytes \<Rightarrow> string) \<Rightarrow> bytes \<Rightarrow> string option" where
  "decodePublishResponse utf8 buf = map_option (\<lambda>flds. getString utf8 flds 1) (decodeFields buf)"

definition encodeConsumeRequest :: "string \<Rightarrow> int option \<Rightarrow> int option \<Rightarrow> bytes" where
  "encodeConsumeRequest queue prefetch visibilityTimeout =
     encodeStringField 1 queue @ encodeUint32Field 2 (case prefetch of None \<Rightarrow> 0 | Some n \<Rightarrow> n)
     @ encodeUint32Field 3 (case visibilityTimeout of None \<Rightarrow> 0 | Some n \<Rightarrow> n)"

record QMessage =
  qmMessageId :: string
  qmQueue :: string
  qmPayload :: bytes
  qmHeaders :: "(string, string) gomap"
  qmAttempt :: nat
  qmPublishedAt :: nat

definition tsDecodeMessage :: "(bytes \<Rightarrow> string) \<Rightarrow> bytes \<Rightarrow> QMessage option" where
  "tsDecodeMessage utf8 buf =
     (case decodeFields buf of
        None \<Rightarrow> None
      | Some flds \<Rightarrow>
          map_option (\<lambda>headers. \<lparr>qmMessageId = getString utf8 flds 1, qmQueue = getString utf8 flds 2, qmPayload = getBytes flds 3,
             qmHeaders = headers, qmAttempt = getUint32 flds 5, qmPublishedAt = getInt64 flds 6\<rparr>) (getMap utf8 flds 4))"

definition encodeAckRequest :: "string \<Rightarrow> bytes" where
  "encodeAckRequest messageId = encodeStringField 1 messageId"

definition encodeNackRequest :: "string \<Rightarrow> bool \<Rightarrow> bytes" where
  "encodeNackRequest messageId requeue = encodeStringField 1 messageId @ encodeBoolField 2 requeue"

definition decodeErrorResponse :: "(bytes \<Rightarrow> string) \<Rightarrow> bytes \<Rightarrow> (nat \<times> string) option" where
  "decodeErrorResponse utf8 buf = map_option (\<lambda>flds. (getUint32 flds 1, getString utf8 flds 2)) (decodeFields buf)"

definition encodeExtendVisibilityRequest :: "string \<Rightarrow> int \<Rightarrow> bytes" where
  "encodeExtendVisibilityRequest messageId extensionSeconds = encodeStringField 1 messageId @ encodeUint32Field 2 extensionSeconds"

definition decodeExtendVisibilityResponse :: "bytes \<Rightarrow> nat option" where
  "decodeExtendVisibilityResponse buf = map_option (\<lambda>flds. getInt64 flds 1) (decodeFields buf)"

definition encodeCallRequest :: "string \<Rightarrow> bytes \<Rightarrow> (string \<times> string) list option \<Rightarrow> int option \<Rightarrow> bytes" where
  "encodeCallRequest queue payload headers timeoutMs =
     encodeStringField 1 queue @ encodeBytesField 2 payload @ (case headers of None \<Rightarrow> [] | Some hs \<Rightarrow> encodeMapField 3 hs)
     @ encodeUint32Field 4 (case timeoutMs of None \<Rightarrow> 0 | Some n \<Rightarrow> n)"

definition decodeCallResponse :: "(bytes \<Rightarrow> string) \<Rightarrow> bytes \<Rightarrow> (bytes \<times> (string, string) gomap) option" where
  "decodeCallResponse utf8 buf =
     (case decodeFields buf of None \<Rightarrow> None | Some flds \<Rightarrow> map_option (Pair (getBytes flds 1)) (getMap utf8 flds 2))"

definition encodeQueueListRequest :: bytes where
  "encodeQueueListRequest = []"

definition decodeQueueListResponse :: "(bytes \<Rightarrow> string) \<Rightarrow> bytes \<Rightarrow> (string \<times> nat \<times> nat) list option" where
  "decodeQueueListResponse utf8 buf =
     (case decodeFields buf of
        None \<Rightarrow> None
      | Some flds \<Rightarrow> those (map (\<lambda>sub. map_option (\<lambda>f. (getString utf8 f 1, getUint32 f 2, getUint32 f 3)) (decodeFields sub))
                         (getSubmessages flds 1)))"

definition encodeSchemaListRequest :: bytes where
  "encodeSchemaListRequest = []"

definition decodeSchemaListResponse :: "(bytes \<Rightarrow> string) \<Rightarrow> bytes \<Rightarrow> (string \<times> string \<times> nat) list option" where
  "decodeSchemaListResponse utf8 buf =
     (case decodeFields buf of
        None \<Rightarrow> None
      | Some flds \<Rightarrow> those (map (\<lambda>sub. map_option (\<lambda>f. (getString utf8 f 1, getString utf8 f 2, getUint32 f 3)) (decodeFields sub))
                         (getSubmessages flds 1)))"

definition encodeSchemaRegisterRequest :: "string \<Rightarrow> bytes \<Rightarrow> string \<Rightarrow> bytes" where
  "encodeSchemaRegisterRequest queue descriptor messageType =
     encodeStringField 1 queue @ encodeBytesField 2 descriptor @ encodeStringField 3 messageType"

definition decodeSchemaRegisterResponse :: "bytes \<Rightarrow> (nat \<times> nat) option" where
  "decodeSchemaRegisterResponse buf = map_option (\<lambda>flds. (getUint32 flds 1, getUint32 flds 2)) (decodeFields buf)"

end
