(* ===== verification/Ts_Connection.thy ===== *)
theory Ts_Connection
  imports Ts_Codec Complex_Main
begin

text \<open>
  The connection of the TypeScript client, \<open>clients/typescript/src/connection.ts\<close>. Node runs one callback at a time, so every
  method up to its first \<open>await\<close> and every event handler is one step on the connection's state. A promise is a number
  (\<open>tcNext\<close> counts them) that is settled at most once; \<open>tcSettled\<close> lists the outcomes in order. \<open>tcLog\<close> is what the
  connection did to the outside: events, calls of the message handler, writes to the socket, timers. Listeners and the message
  handler do not throw, and an \<open>error\<close> listener is registered. The promises of
  \<open>connect\<close> and \<open>close\<close>, which carry no data, are not represented.
\<close>

section \<open>State\<close>

datatype ts_error =
    NotConnected
  | ConnectionClosed
  | ConnectionClosing
  | BrokerError nat string
  | UnexpectedOpcode u8 u8
  | FrameError ts_frame_error
  | Thrown
  | SocketError string
  | MaxReconnects

datatype ts_outcome = Resolved frame | Rejected ts_error

datatype ts_event =
    EvConnect
  | EvDisconnect
  | EvReconnecting nat
  | EvError ts_error
  | EvMessage QMessage
  | CallHandler QMessage
  | Write bytes
  | CreateSocket
  | DestroySocket
  | EndSocket
  | StartTimer real
  | ClearTimer

record ts_opts =
  toReconnect :: bool
  toMaxReconnectAttempts :: "nat option" \<comment> \<open>\<open>None\<close> is \<open>Infinity\<close>\<close>
  toReconnectDelay :: nat
  toMaxReconnectDelay :: nat

definition DEFAULT_OPTIONS :: ts_opts where
  "DEFAULT_OPTIONS = \<lparr>toReconnect = True, toMaxReconnectAttempts = None, toReconnectDelay = 250, toMaxReconnectDelay = 30000\<rparr>"

type_synonym ConsumeOptions = "int option \<times> int option" \<comment> \<open>\<open>prefetch\<close>, \<open>visibilityTimeout\<close>\<close>

record ts_conn =
  tcSocket :: bool \<comment> \<open>\<open>socket\<close> is not null\<close>
  tcDecoder :: bytes
  tcConnected :: bool
  tcClosing :: bool
  tcReconnectAttempt :: nat
  tcTimer :: bool
  tcPending :: "(nat \<times> u8) list" \<comment> \<open>the promise and \<open>expectedOpcode\<close>\<close>
  tcHandler :: bool \<comment> \<open>\<open>messageHandler\<close> is set\<close>
  tcConsumeQueue :: "string option"
  tcConsumeOptions :: ConsumeOptions
  tcNext :: nat
  tcSettled :: "(nat \<times> ts_outcome) list"
  tcLog :: "ts_event list"

definition newConnection :: ts_conn where
  "newConnection = \<lparr>tcSocket = False, tcDecoder = [], tcConnected = False, tcClosing = False, tcReconnectAttempt = 0, tcTimer = False,
     tcPending = [], tcHandler = False, tcConsumeQueue = None, tcConsumeOptions = (None, None), tcNext = 0, tcSettled = [], tcLog = []\<rparr>"

definition emit :: "ts_event list \<Rightarrow> ts_conn \<Rightarrow> ts_conn" where
  "emit evs c = c\<lparr>tcLog := tcLog c @ evs\<rparr>"

definition settle :: "nat \<Rightarrow> ts_outcome \<Rightarrow> ts_conn \<Rightarrow> ts_conn" where
  \<comment> \<open>settling a settled promise again has no effect\<close>
  "settle i r c = (if i \<in> fst ` set (tcSettled c) then c else c\<lparr>tcSettled := tcSettled c @ [(i, r)]\<rparr>)"

definition reject_pending :: "ts_error \<Rightarrow> ts_conn \<Rightarrow> ts_conn" where
  \<comment> \<open>\<open>pending.splice(0)\<close>, then reject each\<close>
  "reject_pending e c = fold (\<lambda>p. settle (fst p) (Rejected e)) (tcPending c) (c\<lparr>tcPending := []\<rparr>)"

section \<open>Socket events\<close>

definition tsConnect :: "ts_conn \<Rightarrow> ts_conn" where
  "tsConnect c = (if tcConnected c then c else emit [CreateSocket] (c\<lparr>tcClosing := False\<rparr>))"

definition on_connect :: "ts_conn \<Rightarrow> ts_conn" where
  "on_connect c = emit [EvConnect] (c\<lparr>tcSocket := True, tcConnected := True, tcReconnectAttempt := 0, tcDecoder := fdReset\<rparr>)"

definition handleFrame_ts :: "(bytes \<Rightarrow> string) \<Rightarrow> frame \<Rightarrow> ts_conn \<Rightarrow> ts_conn option" where
  \<comment> \<open>\<open>_handleFrame\<close>; \<open>None\<close> when a decoder throws\<close>
  "handleFrame_ts utf8 f c =
     (if fOpCode f = 0x04 then
        (case tsDecodeMessage utf8 (fPayload f) of
           None \<Rightarrow> None
         | Some m \<Rightarrow> Some (emit ((if tcHandler c then [CallHandler m] else []) @ [EvMessage m]) c))
      else if fOpCode f = 0x07 then
        (case decodeErrorResponse utf8 (fPayload f) of
           None \<Rightarrow> None
         | Some (code, txt) \<Rightarrow>
             Some (case tcPending c of
                     p # ps \<Rightarrow> settle (fst p) (Rejected (BrokerError code txt)) (c\<lparr>tcPending := ps\<rparr>)
                   | [] \<Rightarrow> emit [EvError (BrokerError code txt)] c))
      else Some (case tcPending c of
                   [] \<Rightarrow> c
                 | p # ps \<Rightarrow> settle (fst p)
                     (if fOpCode f = snd p then Resolved f else Rejected (UnexpectedOpcode (snd p) (fOpCode f)))
                     (c\<lparr>tcPending := ps\<rparr>)))"

fun handleFrames_ts :: "(bytes \<Rightarrow> string) \<Rightarrow> frame list \<Rightarrow> ts_conn \<Rightarrow> bool \<times> ts_conn" where
  \<comment> \<open>whether all frames were handled, and the state then; an exception leaves the loop\<close>
  "handleFrames_ts utf8 [] c = (True, c)"
| "handleFrames_ts utf8 (f # fs) c =
     (case handleFrame_ts utf8 f c of None \<Rightarrow> (False, c) | Some c' \<Rightarrow> handleFrames_ts utf8 fs c')"

definition destroy :: "ts_conn \<Rightarrow> ts_conn" where
  "destroy c = (if tcSocket c then emit [DestroySocket] c else c)"

definition on_data :: "(bytes \<Rightarrow> string) \<Rightarrow> bytes \<Rightarrow> ts_conn \<Rightarrow> ts_conn" where
  "on_data utf8 chunk c =
     (case fdReadAll (fdPush chunk (tcDecoder c)) of
        (Inl e, rest) \<Rightarrow> destroy (emit [EvError (FrameError e)] (c\<lparr>tcDecoder := rest\<rparr>))
      | (Inr fs, rest) \<Rightarrow>
          (case handleFrames_ts utf8 fs (c\<lparr>tcDecoder := rest\<rparr>) of
             (True, c') \<Rightarrow> c'
           | (False, c') \<Rightarrow> destroy (emit [EvError Thrown] c')))"

definition on_error :: "string \<Rightarrow> ts_conn \<Rightarrow> ts_conn" where
  "on_error err c = emit [EvError (SocketError err)] c"

definition scheduleReconnect :: "ts_opts \<Rightarrow> real \<Rightarrow> ts_conn \<Rightarrow> ts_conn" where
  \<comment> \<open>\<open>rnd\<close> is \<open>Math.random()\<close>\<close>
  "scheduleReconnect opts rnd c =
     (if tcClosing c then c
      else if (case toMaxReconnectAttempts opts of None \<Rightarrow> False | Some m \<Rightarrow> tcReconnectAttempt c \<ge> m)
        then emit [EvError MaxReconnects] c
      else let n = tcReconnectAttempt c + 1;
               delay = min (toReconnectDelay opts * 2 ^ (n - 1)) (toMaxReconnectDelay opts);
               jitter = real delay * (3 / 4 + rnd * (1 / 2))
        in emit [EvReconnecting n, StartTimer jitter] (c\<lparr>tcReconnectAttempt := n, tcTimer := True\<rparr>))"

definition on_close :: "ts_opts \<Rightarrow> real \<Rightarrow> ts_conn \<Rightarrow> ts_conn" where
  "on_close opts rnd c =
     (let wasConnected = tcConnected c;
          c1 = reject_pending ConnectionClosed (c\<lparr>tcConnected := False, tcSocket := False\<rparr>);
          c2 = (if wasConnected then emit [EvDisconnect] c1 else c1)
      in if \<not> tcClosing c2 \<and> toReconnect opts then scheduleReconnect opts rnd c2 else c2)"

section \<open>Sending\<close>

definition sendAndWait :: "u8 \<Rightarrow> bytes \<Rightarrow> u8 \<Rightarrow> ts_conn \<Rightarrow> ts_conn" where
  \<comment> \<open>\<open>_sendAndWait\<close>; the promise it returns is the number \<open>tcNext\<close> of the state before. An exception of \<open>encodeFrame\<close> rejects it\<close>
  "sendAndWait opcode payload expectedOpcode c =
     (let i = tcNext c; c0 = c\<lparr>tcNext := i + 1\<rparr>
      in if \<not> tcSocket c \<or> \<not> tcConnected c then settle i (Rejected NotConnected) c0
         else let c1 = c0\<lparr>tcPending := tcPending c @ [(i, expectedOpcode)]\<rparr>
           in case encodeFrame opcode payload of
                None \<Rightarrow> settle i (Rejected Thrown) c1
              | Some fr \<Rightarrow> emit [Write fr] c1)"

definition write_failed :: "nat \<Rightarrow> string \<Rightarrow> ts_conn \<Rightarrow> ts_conn" where
  \<comment> \<open>the callback of \<open>socket.write\<close> with an error\<close>
  "write_failed i err c =
     settle i (Rejected (SocketError err)) (c\<lparr>tcPending := filter (\<lambda>p. fst p \<noteq> i) (tcPending c)\<rparr>)"

definition send_ts :: "u8 \<Rightarrow> bytes \<Rightarrow> ts_conn \<Rightarrow> ts_conn option" where
  \<comment> \<open>\<open>_send\<close>; \<open>None\<close> when it throws\<close>
  "send_ts opcode payload c =
     (if \<not> tcSocket c \<or> \<not> tcConnected c then None
      else map_option (\<lambda>fr. emit [Write fr] c) (encodeFrame opcode payload))"

section \<open>The public methods\<close>

definition publish_ts :: "string \<Rightarrow> bytes \<Rightarrow> (string \<times> string) list option \<Rightarrow> string option \<Rightarrow> string option \<Rightarrow> ts_conn \<Rightarrow> ts_conn" where
  "publish_ts queue payload headers messageId idempotencyKey =
     sendAndWait 0x01 (encodePublishRequest queue payload headers messageId idempotencyKey) 0x02"

definition publish_result :: "(bytes \<Rightarrow> string) \<Rightarrow> frame \<Rightarrow> string option" where
  \<comment> \<open>what \<open>publish\<close> returns once its promise is resolved\<close>
  "publish_result utf8 f = decodePublishResponse utf8 (fPayload f)"

definition sendConsume :: "string \<Rightarrow> ConsumeOptions \<Rightarrow> ts_conn \<Rightarrow> ts_conn option" where
  "sendConsume queue options c =
     (if \<not> tcSocket c \<or> \<not> tcConnected c then None
      else map_option (\<lambda>fr. emit [Write fr] c) (encodeFrame 0x03 (encodeConsumeRequest queue (fst options) (snd options))))"

definition subscribe_ts :: "string \<Rightarrow> ConsumeOptions \<Rightarrow> ts_conn \<Rightarrow> bool \<times> ts_conn" where
  "subscribe_ts queue options c =
     (let c1 = c\<lparr>tcHandler := True, tcConsumeQueue := Some queue, tcConsumeOptions := options\<rparr>
      in case sendConsume queue options c1 of None \<Rightarrow> (False, c1) | Some c2 \<Rightarrow> (True, c2))"

definition ack_ts :: "string \<Rightarrow> ts_conn \<Rightarrow> ts_conn option" where
  "ack_ts messageId = send_ts 0x05 (encodeAckRequest messageId)"

definition nack_ts :: "string \<Rightarrow> bool \<Rightarrow> ts_conn \<Rightarrow> ts_conn option" where
  "nack_ts messageId requeue = send_ts 0x06 (encodeNackRequest messageId requeue)"

definition extendVisibility_ts :: "string \<Rightarrow> int \<Rightarrow> ts_conn \<Rightarrow> ts_conn" where
  "extendVisibility_ts messageId extensionSeconds =
     sendAndWait 0x08 (encodeExtendVisibilityRequest messageId extensionSeconds) 0x09"

definition call_ts :: "string \<Rightarrow> bytes \<Rightarrow> (string \<times> string) list option \<Rightarrow> int option \<Rightarrow> ts_conn \<Rightarrow> ts_conn" where
  "call_ts queue payload headers timeoutMs = sendAndWait 0x20 (encodeCallRequest queue payload headers timeoutMs) 0x21"

definition listQueues :: "ts_conn \<Rightarrow> ts_conn" where
  "listQueues = sendAndWait 0x32 encodeQueueListRequest 0x33"

definition listSchemas :: "ts_conn \<Rightarrow> ts_conn" where
  "listSchemas = sendAndWait 0x30 encodeSchemaListRequest 0x31"

definition registerSchema :: "string \<Rightarrow> bytes \<Rightarrow> string \<Rightarrow> ts_conn \<Rightarrow> ts_conn" where
  "registerSchema queue descriptor messageType =
     sendAndWait 0x10 (encodeSchemaRegisterRequest queue descriptor messageType) 0x12"

definition close_ts :: "ts_conn \<Rightarrow> ts_conn" where
  "close_ts c =
     (let c1 = c\<lparr>tcClosing := True, tcHandler := False, tcConsumeQueue := None\<rparr>;
          c2 = (if tcTimer c1 then emit [ClearTimer] (c1\<lparr>tcTimer := False\<rparr>) else c1);
          c3 = reject_pending ConnectionClosing c2
      in if tcSocket c3 then emit [EndSocket] c3 else c3)"

definition timer_fires :: "ts_conn \<Rightarrow> ts_conn" where
  \<comment> \<open>the callback of the reconnect timer up to its first \<open>await\<close>; \<open>reconnectTimer\<close> keeps the fired timer\<close>
  "timer_fires c = emit [CreateSocket] c"

definition resubscribe :: "ts_conn \<Rightarrow> ts_conn" where
  \<comment> \<open>the rest of that callback, once the socket is connected; an exception is caught\<close>
  "resubscribe c =
     (case tcConsumeQueue c of
        Some q \<Rightarrow>
          if q \<noteq> [] \<and> tcHandler c
          then (case sendConsume q (tcConsumeOptions c) c of None \<Rightarrow> c | Some c' \<Rightarrow> c')
          else c
      | None \<Rightarrow> c)"

section \<open>The typed client\<close>

text \<open>\<open>typed.ts\<close>. \<open>JSON.stringify\<close> and \<open>JSON.parse\<close> are parameters, as are the caller's handler and validation: \<open>None\<close> is
  an exception. The result says whether the handler's promise is fulfilled.\<close>

definition typed_publish :: "('j \<Rightarrow> string) \<Rightarrow> string \<Rightarrow> 'j \<Rightarrow> (string \<times> string) list option \<Rightarrow> string option \<Rightarrow> string option \<Rightarrow> ts_conn \<Rightarrow> ts_conn" where
  "typed_publish stringify queue data headers messageId idempotencyKey =
     publish_ts queue (bytes_of (stringify data)) headers messageId idempotencyKey"

definition settled_by :: "ts_conn option \<Rightarrow> ts_conn \<Rightarrow> bool \<times> ts_conn" where
  "settled_by r c = (case r of None \<Rightarrow> (False, c) | Some c' \<Rightarrow> (True, c'))"

definition typed_handler :: "(bytes \<Rightarrow> string) \<Rightarrow> (string \<Rightarrow> 'j option) \<Rightarrow> ('j \<Rightarrow> bool option) option
    \<Rightarrow> (QMessage \<Rightarrow> 'j \<Rightarrow> ts_conn \<Rightarrow> bool \<times> ts_conn) \<Rightarrow> QMessage \<Rightarrow> ts_conn \<Rightarrow> bool \<times> ts_conn" where
  \<comment> \<open>the function \<open>subscribe\<close> registers; an exception of the handler leaves the message unsettled\<close>
  "typed_handler utf8 parse validate handler msg c =
     (case parse (utf8 (qmPayload msg)) of
        None \<Rightarrow> settled_by (nack_ts (qmMessageId msg) False c) c
      | Some data \<Rightarrow>
          if (case validate of None \<Rightarrow> True | Some v \<Rightarrow> v data = Some True) then
            (case handler msg data c of
               (False, c') \<Rightarrow> (False, c')
             | (True, c') \<Rightarrow> settled_by (ack_ts (qmMessageId msg) c') c')
          else settled_by (nack_ts (qmMessageId msg) False c) c)"

end
