(* ===== verification/Ts_Codec_Props.thy ===== *)
theory Ts_Codec_Props
  imports Ts_Codec Storage_Codec
begin

text \<open>
  The TypeScript codec against the protobuf wire format of \<open>Client_Codec\<close>: the variable-length integers are those of Go's
  \<open>encoding/binary\<close>, what the client encodes is a protobuf message with the fields of the request, and a well-formed protobuf
  message is decoded to its fields.
\<close>

unbundle bit_operations_syntax

section \<open>Variable-length integers\<close>

lemma byte_and_0x80: "(b :: u8) AND 0x80 = 0 \<longleftrightarrow> b < 0x80"
proof -
  have bits: "bit (b AND 0x80) n \<longleftrightarrow> n = 7 \<and> bit b 7" for n
  proof (cases "n < 8")
    case True
    then have "n = 7 \<longleftrightarrow> 7 \<le> n" by auto
    then show ?thesis using True unfolding byte_0x80 by (auto simp: bit_simps simp del: push_bit_of_1)
  qed (auto simp: bit_simps)
  show ?thesis
  proof
    assume "b AND 0x80 = 0"
    then show "b < 0x80" using bits [of 7] by (simp add: byte_less_0x80)
  next
    assume "b < 0x80"
    then show "b AND 0x80 = 0" by (intro bit_word_eqI) (simp add: bits byte_less_0x80)
  qed
qed

lemma byte_and_0x7f: "(b :: u8) < 0x80 \<Longrightarrow> b AND 0x7f = b"
proof (rule bit_word_eqI)
  fix n assume "b < 0x80" and "n < LENGTH(8)"
  then have "\<not> bit b 7" and "n < 7 \<or> n = 7" by (auto simp: byte_less_0x80)
  then show "bit (b AND 0x7f) n = bit b n" unfolding byte_0x7f by (auto simp: bit_simps)
qed

lemma unat_or_shifted:
  fixes x :: u64 and b :: u8
  assumes "unat b * 2 ^ s < 2 ^ 64"
  shows "unat (x OR push_bit s (ucast b)) = unat x OR push_bit s (unat b)"
proof -
  have "unat (push_bit s (ucast b :: u64)) = take_bit 64 (push_bit s (unat b))"
    by (simp add: unsigned_push_bit_eq unsigned_ucast_eq take_bit_push_bit)
  also have "\<dots> = push_bit s (unat b)"
    using assms by (intro take_bit_nat_eq_self) (simp add: push_bit_eq_mult)
  finally show ?thesis by (simp add: unsigned_or_eq)
qed

lemma shifted_byte_fits:
  assumes "b < 0x80" and "i < 9 \<or> (i = 9 \<and> b \<le> 1)"
  shows "unat (b :: u8) * 2 ^ (7 * i) < 2 ^ 64"
proof -
  have b: "unat b < 128" using assms(1) by (simp add: word_less_nat_alt)
  show ?thesis
  proof (cases "i = 9")
    case True
    then have "unat b \<le> 1" using assms(2) by (simp add: word_le_nat_alt)
    then have "unat b * 2 ^ 63 \<le> 1 * 2 ^ (63 :: nat)" by (intro mult_right_mono) simp_all
    then show ?thesis using True by simp
  next
    case False
    then have "unat b * 2 ^ (7 * i) \<le> 127 * 2 ^ (7 * 8)"
      using b assms(2) by (intro mult_mono power_increasing) auto
    then show ?thesis by simp
  qed
qed

lemma Uvarint_loop_count:
  "Uvarint_loop i x s bs = (v, n) \<Longrightarrow> 0 < n \<Longrightarrow> int i < n"
  by (induction i x s bs rule: Uvarint_loop.induct) (fastforce split: if_splits)+

lemma tsDecodeLoop_Uvarint:
  assumes "Uvarint_loop i x (7 * i) bs = (v, n)" and "0 < n" and "i \<le> MaxVarintLen64"
  shows "tsDecodeLoop (MaxVarintLen64 - i) (7 * i) (unat x) bs = (unat v, drop (nat n - i) bs)"
  using assms
proof (induction bs arbitrary: i x)
  case Nil
  then show ?case by simp
next
  case (Cons b bs)
  have i: "i < MaxVarintLen64" using Cons.prems by (cases "i = MaxVarintLen64") auto
  then obtain k where k: "MaxVarintLen64 - i = Suc k" "k = MaxVarintLen64 - Suc i" by (metis Suc_diff_Suc)
  show ?case
  proof (cases "b < 0x80")
    case True
    then have fits: "i < 9 \<or> (i = 9 \<and> b \<le> 1)" and v: "v = x OR push_bit (7 * i) (ucast b)" and n: "n = int (i + 1)"
      using Cons.prems i by (auto simp: MaxVarintLen64_def split: if_splits)
    have "unat v = unat x OR push_bit (7 * i) (unat b)"
      unfolding v by (rule unat_or_shifted [OF shifted_byte_fits [OF True fits]])
    moreover have "nat n - i = Suc 0" using n by simp
    ultimately show ?thesis using True by (simp add: k(1) byte_and_0x80 byte_and_0x7f)
  next
    case False
    define c where "c = b AND 0x7f"
    have rec: "Uvarint_loop (Suc i) (x OR push_bit (7 * i) (ucast c)) (7 * Suc i) bs = (v, n)"
      using Cons.prems(1) False i by (simp add: c_def add.commute)
    have i8: "i < 9"
    proof (rule ccontr)
      assume "\<not> i < 9"
      with rec Cons.prems(2) i show False by (cases bs) (auto simp: MaxVarintLen64_def)
    qed
    have "c < 0x80" unfolding c_def byte_less_0x80 byte_0x7f by (simp add: bit_simps)
    then have u: "unat (x OR push_bit (7 * i) (ucast c)) = unat x OR push_bit (7 * i) (unat c)"
      using i8 by (intro unat_or_shifted shifted_byte_fits) auto
    have "tsDecodeLoop k (7 * Suc i) (unat x OR push_bit (7 * i) (unat c)) bs = (unat v, drop (nat n - Suc i) bs)"
      unfolding k(2) u [symmetric] using i Cons.prems(2) by (intro Cons.IH [OF rec]) simp_all
    moreover have "Suc i < nat n" using Cons.prems(2) Uvarint_loop_count [OF rec] by simp
    ultimately show ?thesis
      using False by (simp add: k(1) byte_and_0x80 c_def add.commute drop_Cons' Suc_diff_Suc)
  qed
qed

lemma decodeVarint_Uvarint:
  assumes "Uvarint bs = (v, n)" and "0 < n"
  shows "decodeVarint bs = (unat v, drop (nat n) bs)"
  using tsDecodeLoop_Uvarint [of 0 0 bs v n] assms by (simp add: decodeVarint_def Uvarint_def MaxVarintLen64_def)

lemma varint_byte: "(of_nat (n mod 128) OR 0x80 :: u8) = ucast (of_nat n :: u64) OR 0x80"
proof -
  have "(of_nat (n mod 128) :: u8) = take_bit 7 (of_nat n)"
    by (simp add: take_bit_of_nat take_bit_eq_mod [of 7 n])
  moreover have "(ucast (of_nat n :: u64) :: u8) = of_nat n"
    by (rule bit_word_eqI) (simp add: bit_simps)
  moreover have "take_bit 7 w OR 0x80 = w OR 0x80" for w :: u8
    unfolding byte_0x80 by (rule bit_word_eqI) (auto simp: bit_simps simp del: push_bit_of_1)
  ultimately show ?thesis by simp
qed

lemma tsVarintLoop_nat: "n < 2 ^ 64 \<Longrightarrow> tsVarintLoop (int n) = AppendUvarint' (of_nat n)"
proof (induction n rule: less_induct)
  case (less n)
  have un: "unat (of_nat n :: u64) = n" using less.prems by (simp add: unat_of_nat)
  have mod: "(of_int (int n mod 128) :: u8) = of_nat (n mod 128)" by (metis of_int_of_nat_eq of_nat_numeral zmod_int)
  have div: "int n div 128 = int (n div 128)" by (simp add: zdiv_int)
  show ?case
  proof (cases "n < 128")
    case True
    then have "(ucast (of_nat n :: u64) :: u8) = of_nat n" by (intro bit_word_eqI) (simp add: bit_simps)
    then show ?thesis using True un
      by (subst tsVarintLoop.simps, subst AppendUvarint'.simps) (simp add: mod div word_le_nat_alt)
  next
    case False
    have "drop_bit 7 (of_nat n :: u64) = of_nat (n div 128)"
      using un less.prems by (intro word_unat_eq_iff [THEN iffD2]) (simp add: drop_bit_eq_div unat_div unat_of_nat)
    moreover have "tsVarintLoop (int (n div 128)) = AppendUvarint' (of_nat (n div 128))"
      using False less.prems by (intro less.IH) auto
    ultimately show ?thesis using False un
      by (subst tsVarintLoop.simps, subst AppendUvarint'.simps)
        (simp add: mod div word_le_nat_alt varint_byte Let_def div_greater_zero_iff)
  qed
qed

lemma encodeVarint_AppendUvarint:
  assumes "- (2 ^ 64) \<le> v" and "v < 2 ^ 64"
  shows "encodeVarint v = AppendUvarint' (of_int v)"
proof -
  define u where "u = (if v < 0 then v + 2 ^ 64 else v)"
  have "0 \<le> u" "u < 2 ^ 64" using assms by (auto simp: u_def)
  then have "tsVarintLoop u = AppendUvarint' (of_nat (nat u))" using tsVarintLoop_nat [of "nat u"] by simp
  moreover have "(of_nat (nat u) :: u64) = of_int v" using \<open>0 \<le> u\<close> by (auto simp: u_def)
  ultimately show ?thesis by (simp add: encodeVarint_def u_def)
qed

section \<open>What the client writes\<close>

lemma encodeTag_AppendUvarint:
  assumes "f < 2 ^ 60" and "w < 8"
  shows "encodeTag f w = AppendUvarint' (of_nat (8 * f + w))"
proof -
  have "take_bit 3 w = w" using assms(2) by (intro take_bit_nat_eq_self) simp
  then have "bit w n \<Longrightarrow> n < 3" for n by (metis bit_take_bit_iff)
  then have "push_bit 3 f OR w = push_bit 3 f + w"
    by (intro disjunctive_add [symmetric]) (auto simp: bit_simps dest: leD)
  then have "push_bit 3 f OR w = 8 * f + w" by (simp add: push_bit_eq_mult)
  moreover have "int (8 * f + w) < 2 ^ 64" using assms by simp
  ultimately show ?thesis using encodeVarint_AppendUvarint [of "int (8 * f + w)"] by (simp add: encodeTag_def)
qed

lemma tag_value:
  assumes "f < 2 ^ 60" and "w < 8"
  shows "unat (of_nat (8 * f + w) :: u64) div 8 = f" and "unat (of_nat (8 * f + w) :: u64) mod 8 = w"
proof -
  have "unat (of_nat (8 * f + w) :: u64) = 8 * f + w"
    using assms by (simp add: unat_of_nat del: of_nat_add of_nat_mult)
  then show "unat (of_nat (8 * f + w) :: u64) div 8 = f" "unat (of_nat (8 * f + w) :: u64) mod 8 = w"
    using assms(2) by simp_all
qed

lemma parse_block:
  assumes "f < 2 ^ 60" and "length body < 2 ^ 64"
  shows "parse_field (encodeTag f 2 @ encodeVarint (int (length body)) @ body @ rest) = Some ((f, WBytes body), rest)"
proof -
  have "unat (of_nat (length body) :: u64) = length body" using assms(2) by (simp add: unat_of_nat)
  moreover have "encodeVarint (int (length body)) = AppendUvarint' (of_nat (length body))"
    using encodeVarint_AppendUvarint [of "int (length body)"] assms(2) by simp
  ultimately show ?thesis
    using assms tag_value [of f 2] AppendUvarint'_nonempty
    by (simp add: parse_field_def encodeTag_AppendUvarint del: of_nat_add of_nat_mult)
qed

lemma parse_number:
  assumes "f < 2 ^ 60" and "- (2 ^ 64) \<le> v" and "v < 2 ^ 64"
  shows "parse_field (encodeTag f 0 @ encodeVarint v @ rest) = Some ((f, WVarint (of_int v)), rest)"
  using assms tag_value [of f 0] AppendUvarint'_nonempty
  by (simp add: parse_field_def encodeTag_AppendUvarint encodeVarint_AppendUvarint del: of_nat_add of_nat_mult)

definition bytes_fields :: "nat \<Rightarrow> bytes \<Rightarrow> (nat \<times> wire_value) list" where
  \<comment> \<open>an empty block is the default and is left out\<close>
  "bytes_fields f body = (if body = [] then [] else [(f, WBytes body)])"

definition number_fields :: "nat \<Rightarrow> int \<Rightarrow> (nat \<times> wire_value) list" where
  "number_fields f v = (if v = 0 then [] else [(f, WVarint (of_int v))])"

definition map_entry :: "string \<times> string \<Rightarrow> bytes" where
  "map_entry kv = encodeStringField 1 (fst kv) @ encodeStringField 2 (snd kv)"

named_theorems ts_wire \<open>how the encoded fields of a message are read back\<close>

lemma wire_bytes [ts_wire]:
  assumes "f < 2 ^ 60" and "length body < 2 ^ 64"
  shows "wire_fields (encodeBytesField f body @ rest) = map_option ((@) (bytes_fields f body)) (wire_fields rest)"
  using wire_fields_step [OF parse_block [OF assms, of rest]]
  by (cases "wire_fields rest") (simp_all add: encodeBytesField_def bytes_fields_def)

lemma string_is_bytes: "encodeStringField f v = encodeBytesField f (bytes_of v)"
  by (simp add: encodeStringField_def encodeBytesField_def bytes_of_def)

lemma wire_string [ts_wire]:
  assumes "f < 2 ^ 60" and "length v < 2 ^ 64"
  shows "wire_fields (encodeStringField f v @ rest) = map_option ((@) (bytes_fields f (bytes_of v))) (wire_fields rest)"
  unfolding string_is_bytes using assms by (intro wire_bytes) simp_all

lemma wire_optional:
  assumes "f < 2 ^ 60" and "\<And>s. v = Some s \<Longrightarrow> length s < 2 ^ 64"
  shows "wire_fields (encodeOptionalStringField f v @ rest)
     = map_option ((@) (bytes_fields f (case v of None \<Rightarrow> [] | Some s \<Rightarrow> bytes_of s))) (wire_fields rest)"
proof (cases v)
  case None
  then show ?thesis by (cases "wire_fields rest") (simp_all add: encodeOptionalStringField_def bytes_fields_def)
next
  case (Some s)
  then have "encodeOptionalStringField f v = encodeStringField f s"
    by (simp add: encodeOptionalStringField_def encodeStringField_def)
  then show ?thesis using Some assms by (simp add: wire_string)
qed

lemma wire_present [ts_wire]:
  assumes "f < 2 ^ 60" and "length s < 2 ^ 64"
  shows "wire_fields (encodeOptionalStringField f (Some s) @ rest) = map_option ((@) (bytes_fields f (bytes_of s))) (wire_fields rest)"
  using wire_optional [of f "Some s" rest] assms by simp

lemma wire_number [ts_wire]:
  assumes "f < 2 ^ 60" and "- (2 ^ 64) \<le> v" and "v < 2 ^ 64"
  shows "wire_fields (encodeUint32Field f v @ rest) = map_option ((@) (number_fields f v)) (wire_fields rest)"
  using wire_fields_step [OF parse_number [OF assms, of rest]]
  by (cases "wire_fields rest") (simp_all add: encodeUint32Field_def number_fields_def)

lemma wire_bool [ts_wire]:
  assumes "f < 2 ^ 60"
  shows "wire_fields (encodeBoolField f v @ rest) = map_option ((@) (number_fields f (of_bool v))) (wire_fields rest)"
proof -
  have "encodeBoolField f v = encodeUint32Field f (of_bool v)"
    by (simp add: encodeBoolField_def encodeUint32Field_def)
  then show ?thesis using wire_number [OF assms, of "of_bool v" rest] by simp
qed

lemma length_map_entry_le:
  assumes "length (fst kv) < 2 ^ 62" and "length (snd kv) < 2 ^ 62"
  shows "length (map_entry kv) \<le> 40 + length (fst kv) + length (snd kv)"
proof -
  have v: "length (encodeVarint (int n)) \<le> 10" if "n < 2 ^ 64" for n
    using that encodeVarint_AppendUvarint [of "int n"] length_AppendUvarint'_le by simp
  have t: "length (encodeTag f 2) \<le> 10" if "f < 3" for f
    using that encodeTag_AppendUvarint [of f 2] length_AppendUvarint'_le by simp
  have "length (encodeStringField f x) \<le> 20 + length x" if "f < 3" "length x < 2 ^ 62" for f x
    using v [of "length x"] t [of f] that by (simp add: encodeStringField_def)
  from this [of 1 "fst kv"] this [of 2 "snd kv"] show ?thesis using assms by (simp add: map_entry_def)
qed

lemma length_map_entry:
  "length (fst kv) < 2 ^ 62 \<Longrightarrow> length (snd kv) < 2 ^ 62 \<Longrightarrow> length (map_entry kv) < 2 ^ 64"
  using length_map_entry_le [of kv] by simp

definition headers_ok :: "(string \<times> string) list \<Rightarrow> bool" where
  "headers_ok hs \<longleftrightarrow> (\<forall>kv \<in> set hs. length (fst kv) < 2 ^ 62 \<and> length (snd kv) < 2 ^ 62)"

lemma wire_map [ts_wire]:
  assumes "f < 2 ^ 60" and "headers_ok hs"
  shows "wire_fields (encodeMapField f hs @ rest) = map_option ((@) (map (\<lambda>kv. (f, WBytes (map_entry kv))) hs)) (wire_fields rest)"
  using assms(2)
proof (induction hs)
  case Nil
  then show ?case by (cases "wire_fields rest") (simp_all add: encodeMapField_def)
next
  case (Cons kv hs)
  have "length (map_entry kv) < 2 ^ 64" using Cons.prems by (intro length_map_entry) (simp_all add: headers_ok_def)
  from wire_fields_step [OF parse_block [OF assms(1) this, of "encodeMapField f hs @ rest"]] Cons
  show ?case
    by (cases "wire_fields rest") (simp_all add: encodeMapField_def headers_ok_def map_entry_def case_prod_beta Let_def)
qed

lemma wire_map_entry:
  assumes "length (fst kv) < 2 ^ 62" and "length (snd kv) < 2 ^ 62"
  shows "wire_fields (map_entry kv) = Some (bytes_fields 1 (bytes_of (fst kv)) @ bytes_fields 2 (bytes_of (snd kv)))"
  using assms wire_string [of 2 "snd kv" "[]"] by (simp add: map_entry_def wire_string)

section \<open>What the client reads\<close>

definition wire_data :: "wire_value \<Rightarrow> field_data" where
  "wire_data w = (case w of WVarint v \<Rightarrow> DNum (unat v) | WBytes b \<Rightarrow> DBuf b)"

definition push_all :: "(nat \<times> wire_value) list \<Rightarrow> DecodedFields \<Rightarrow> DecodedFields" where
  "push_all fs flds = fold (\<lambda>f. push_field (fst f) (wire_data (snd f))) fs flds"

lemma jsNumber_exact [simp]: "n < 2 ^ 53 \<Longrightarrow> jsNumber n = n"
  by (simp add: jsNumber_def)

lemma decodeField_parse:
  assumes "parse_field bs = Some (f, rest)" and "fst f < 2 ^ 53" and "length bs < 2 ^ 53"
  shows "decodeField bs flds = Some (push_field (fst f) (wire_data (snd f)) flds, rest)"
proof -
  obtain tag n where u: "Uvarint bs = (tag, n)" by (cases "Uvarint bs")
  have n: "0 < n" using assms(1) u by (auto simp: parse_field_def Let_def split: if_splits)
  define b1 where "b1 = drop (nat n) bs"
  obtain v m where u1: "Uvarint b1 = (v, m)" by (cases "Uvarint b1")
  have m: "0 < m" using assms(1) u u1 n by (auto simp: parse_field_def b1_def [symmetric] Let_def split: if_splits)
  have d: "decodeVarint bs = (unat tag, b1)" "decodeVarint b1 = (unat v, drop (nat m) b1)"
    using decodeVarint_Uvarint [OF u n] decodeVarint_Uvarint [OF u1 m] by (simp_all add: b1_def)
  have field: "drop_bit 3 (unat tag) = unat tag div 8" by (simp add: drop_bit_eq_div)
  have "unat tag mod 8 = 0 \<or> unat tag mod 8 = 2"
    using assms(1) u u1 n m by (auto simp: parse_field_def b1_def [symmetric] Let_def split: if_splits)
  then show ?thesis
  proof
    assume t: "unat tag mod 8 = 0"
    then have "f = (unat tag div 8, WVarint v)" "rest = drop (nat m) b1"
      using assms(1) u u1 n m by (auto simp: parse_field_def b1_def [symmetric] Let_def)
    then show ?thesis using t d field assms(2) by (simp add: decodeField_def wire_data_def)
  next
    assume t: "unat tag mod 8 = 2"
    then have f: "f = (unat tag div 8, WBytes (take (unat v) (drop (nat m) b1)))" "rest = drop (unat v) (drop (nat m) b1)"
      and v: "unat v \<le> length (drop (nat m) b1)"
      using assms(1) u u1 n m by (auto simp: parse_field_def b1_def [symmetric] Let_def split: if_splits)
    have "length (drop (nat m) b1) \<le> length bs" by (simp add: b1_def)
    with v assms(3) have "jsNumber (unat v) = unat v" by (intro jsNumber_exact) linarith
    then show ?thesis using t d field assms(2) f by (simp add: decodeField_def wire_data_def Let_def)
  qed
qed

lemma wire_fields_Cons:
  assumes "wire_fields bs = Some fs" and "bs \<noteq> []"
  obtains f rest fs' where "parse_field bs = Some (f, rest)" and "wire_fields rest = Some fs'" and "fs = f # fs'"
proof -
  obtain b bs' where bs: "bs = b # bs'" using assms(2) by (cases bs) auto
  then obtain f rest where p: "parse_field bs = Some (f, rest)"
    using assms(1) by (cases "parse_field bs") (auto simp: wire_fields_def)
  then obtain fs' where "wire_fields rest = Some fs'" "fs = f # fs'"
    using wire_fields_step [OF p] assms(1) by (cases "wire_fields rest") auto
  with p show thesis by (rule that)
qed

lemma decodeFieldsLoop_wire:
  assumes "wire_fields bs = Some fs" and "\<forall>f \<in> set fs. fst f < 2 ^ 53" and "length bs < 2 ^ 53"
  shows "decodeFieldsLoop bs flds = Some (push_all fs flds)"
  using assms
proof (induction bs arbitrary: fs flds rule: length_induct)
  case (1 bs)
  show ?case
  proof (cases "bs = []")
    case True
    then show ?thesis using "1.prems"(1) by (simp add: decodeFieldsLoop.simps push_all_def)
  next
    case False
    from wire_fields_Cons [OF "1.prems"(1) False] obtain f rest fs'
      where p: "parse_field bs = Some (f, rest)" and w: "wire_fields rest = Some fs'" and fs: "fs = f # fs'" .
    have shrink: "length rest < length bs" by (rule parse_field_shrinks [OF p])
    have "decodeField bs flds = Some (push_field (fst f) (wire_data (snd f)) flds, rest)"
      using "1.prems" fs by (intro decodeField_parse [OF p]) simp_all
    moreover have "decodeFieldsLoop rest (push_field (fst f) (wire_data (snd f)) flds)
        = Some (push_all fs' (push_field (fst f) (wire_data (snd f)) flds))"
      using "1.IH" shrink w "1.prems" fs by simp
    ultimately show ?thesis using False by (subst decodeFieldsLoop.simps) (simp add: fs push_all_def)
  qed
qed

definition all_entries :: "DecodedFields \<Rightarrow> nat \<Rightarrow> field_data list" where
  \<comment> \<open>what the object holds under a field number, nothing if it has no such property\<close>
  "all_entries flds n = (case gm_get flds n of None \<Rightarrow> [] | Some ds \<Rightarrow> ds)"

lemma all_entries_push: "all_entries (push_field n d flds) k = all_entries flds k @ (if k = n then [d] else [])"
  by (auto simp: all_entries_def push_field_def split: option.splits)

lemma all_entries_push_all:
  "all_entries (push_all fs flds) k = all_entries flds k @ map (wire_data \<circ> snd) (filter (\<lambda>f. fst f = k) fs)"
  by (induction fs arbitrary: flds) (auto simp: push_all_def all_entries_push)

lemma first_entry_all: "first_entry flds n = (case all_entries flds n of [] \<Rightarrow> None | d # ds \<Rightarrow> Some d)"
  by (auto simp: first_entry_def all_entries_def split: option.splits list.splits)

lemma getMap_all: "getMap utf8 flds n = getMapLoop utf8 (all_entries flds n) []"
  by (simp add: getMap_def all_entries_def split: option.splits)

lemma decodeFields_wire:
  assumes "wire_fields bs = Some fs" and "\<forall>f \<in> set fs. fst f < 2 ^ 53" and "length bs < 2 ^ 53"
  obtains flds where "decodeFields bs = Some flds"
    and "\<And>n. all_entries flds n = map (wire_data \<circ> snd) (filter (\<lambda>f. fst f = n) fs)"
proof
  show "decodeFields bs = Some (push_all fs [])" unfolding decodeFields_def by (rule decodeFieldsLoop_wire [OF assms])
  show "all_entries (push_all fs []) n = map (wire_data \<circ> snd) (filter (\<lambda>f. fst f = n) fs)" for n
    unfolding all_entries_push_all by (simp add: all_entries_def)
qed

subsection \<open>The fields of a message\<close>

definition field_string :: "(nat \<times> wire_value) list \<Rightarrow> nat \<Rightarrow> bytes" where
  "field_string fs n = (case map_of fs n of Some (WBytes b) \<Rightarrow> b | _ \<Rightarrow> [])"

definition field_number :: "(nat \<times> wire_value) list \<Rightarrow> nat \<Rightarrow> nat" where
  "field_number fs n = (case map_of fs n of Some (WVarint v) \<Rightarrow> unat v | _ \<Rightarrow> 0)"

definition field_blocks :: "(nat \<times> wire_value) list \<Rightarrow> nat \<Rightarrow> bytes list" where
  "field_blocks fs n = List.map_filter (\<lambda>f. case snd f of WBytes b \<Rightarrow> if fst f = n then Some b else None | WVarint _ \<Rightarrow> None) fs"

definition message_fields :: "bytes \<Rightarrow> (nat \<times> wire_value) list \<Rightarrow> bool" where
  \<comment> \<open>a protobuf message with these fields, of a size JavaScript can hold\<close>
  "message_fields bs fs \<longleftrightarrow> wire_fields bs = Some fs \<and> (\<forall>f \<in> set fs. fst f < 2 ^ 53) \<and> length bs < 2 ^ 53"

definition entry_denotes :: "bytes \<Rightarrow> string \<times> string \<Rightarrow> bool" where
  "entry_denotes e kv \<longleftrightarrow> (\<exists>fs. message_fields e fs \<and> field_string fs 1 = bytes_of (fst kv) \<and> field_string fs 2 = bytes_of (snd kv))"

definition reads :: "DecodedFields \<Rightarrow> (nat \<times> wire_value) list \<Rightarrow> bool" where
  "reads flds fs \<longleftrightarrow> (\<forall>n. all_entries flds n = map (wire_data \<circ> snd) (filter (\<lambda>f. fst f = n) fs))"

lemma decodeFields_message:
  assumes "message_fields bs fs"
  obtains flds where "decodeFields bs = Some flds" and "reads flds fs"
  using assms decodeFields_wire [of bs fs] unfolding message_fields_def reads_def by metis

lemma map_of_filter: "map_of fs n = (case filter (\<lambda>f. fst f = n) fs of [] \<Rightarrow> None | f # _ \<Rightarrow> Some (snd f))"
  by (induction fs) auto

lemma reads_first: "reads flds fs \<Longrightarrow> first_entry flds n = map_option wire_data (map_of fs n)"
  unfolding first_entry_all reads_def map_of_filter by (auto split: list.splits)

lemma reads_getString: "reads flds fs \<Longrightarrow> utf8 [] = [] \<Longrightarrow> getString utf8 flds n = utf8 (field_string fs n)"
  by (auto simp: getString_def reads_first field_string_def wire_data_def split: option.splits wire_value.splits)

lemma reads_getBytes: "reads flds fs \<Longrightarrow> getBytes flds n = field_string fs n"
  by (auto simp: getBytes_def reads_first field_string_def wire_data_def split: option.splits wire_value.splits)

lemma reads_number:
  "reads flds fs \<Longrightarrow> getUint32 flds n = jsNumber (field_number fs n)"
  "reads flds fs \<Longrightarrow> getInt64 flds n = jsNumber (field_number fs n)"
  by (auto simp: getUint32_def getInt64_def reads_first field_number_def wire_data_def split: option.splits wire_value.splits)

lemma getSubmessages_all:
  "getSubmessages flds n = List.map_filter (\<lambda>e. case e of DBuf data \<Rightarrow> Some data | DNum _ \<Rightarrow> None) (all_entries flds n)"
  by (simp add: getSubmessages_def all_entries_def List.map_filter_simps split: option.splits)

lemma reads_getSubmessages: "reads flds fs \<Longrightarrow> getSubmessages flds n = field_blocks fs n"
proof -
  assume "reads flds fs"
  then have "getSubmessages flds n
      = List.map_filter (\<lambda>e. case e of DBuf data \<Rightarrow> Some data | DNum _ \<Rightarrow> None) (map (wire_data \<circ> snd) (filter (\<lambda>f. fst f = n) fs))"
    by (simp add: reads_def getSubmessages_all)
  also have "\<dots> = field_blocks fs n"
    unfolding field_blocks_def
    by (induction fs) (auto simp: List.map_filter_def wire_data_def split: wire_value.splits)
  finally show ?thesis .
qed

lemma getMapLoop_blocks: "getMapLoop utf8 ds m
    = getMapLoop utf8 (map DBuf (List.map_filter (\<lambda>e. case e of DBuf data \<Rightarrow> Some data | DNum _ \<Rightarrow> None) ds)) m"
proof (induction ds arbitrary: m)
  case Nil
  then show ?case by (simp add: List.map_filter_simps)
next
  case (Cons d ds)
  show ?case
  proof (cases d)
    case (DNum v)
    then show ?thesis using Cons.IH by (simp add: List.map_filter_simps)
  next
    case (DBuf data)
    then show ?thesis
      by (cases "decodeFields data") (simp_all add: List.map_filter_simps Let_def Cons.IH [symmetric])
  qed
qed

lemma getMap_submessages: "getMap utf8 flds n = getMapLoop utf8 (map DBuf (getSubmessages flds n)) []"
  unfolding getMap_all getSubmessages_all by (rule getMapLoop_blocks)

definition headers_readable :: "(bytes \<Rightarrow> string) \<Rightarrow> (string \<times> string) list \<Rightarrow> bool" where
  "headers_readable utf8 hs \<longleftrightarrow> distinct (map fst hs)
     \<and> (\<forall>kv \<in> set hs. fst kv \<noteq> [] \<and> fst kv \<noteq> ''__proto__'' \<and> utf8 (bytes_of (fst kv)) = fst kv \<and> utf8 (bytes_of (snd kv)) = snd kv)"

lemma getMapLoop_entries:
  assumes "list_all2 entry_denotes es hs" and "utf8 [] = []"
    and "\<forall>kv \<in> set hs. fst kv \<noteq> [] \<and> fst kv \<noteq> ''__proto__'' \<and> utf8 (bytes_of (fst kv)) = fst kv \<and> utf8 (bytes_of (snd kv)) = snd kv"
  shows "getMapLoop utf8 (map DBuf es) result = Some (fold (\<lambda>kv m. gm_set m (fst kv) (snd kv)) hs result)"
  using assms(1,3)
proof (induction es hs arbitrary: result rule: list_all2_induct)
  case Nil
  then show ?case by simp
next
  case (Cons e es kv hs)
  from Cons.hyps(1) obtain fs where fs: "message_fields e fs" "field_string fs 1 = bytes_of (fst kv)" "field_string fs 2 = bytes_of (snd kv)"
    unfolding entry_denotes_def by blast
  from decodeFields_message [OF fs(1)] obtain sub where sub: "decodeFields e = Some sub" "reads sub fs" .
  have "getString utf8 sub 1 = fst kv" "getString utf8 sub 2 = snd kv"
    using Cons.prems by (simp_all add: reads_getString [OF sub(2), of utf8] assms(2) fs del: One_nat_def)
  then show ?case using Cons sub(1) by (simp del: One_nat_def)
qed

lemma fold_gm_set:
  assumes "distinct (map fst hs)"
  shows "gm_get (fold (\<lambda>kv m. gm_set m (fst kv) (snd kv)) hs m) k = (case map_of hs k of Some v \<Rightarrow> Some v | None \<Rightarrow> gm_get m k)"
  using assms
proof (induction hs arbitrary: m)
  case Nil
  then show ?case by simp
next
  case (Cons kv hs)
  have "k = fst kv \<Longrightarrow> map_of hs k = None" using Cons.prems by (simp add: map_of_eq_None_iff)
  with Cons.IH [of "gm_set m (fst kv) (snd kv)"] Cons.prems show ?case by (cases kv) (simp split: option.splits)
qed

lemma reads_getMap:
  assumes "reads flds fs" and "list_all2 entry_denotes (field_blocks fs n) hs" and "headers_readable utf8 hs" and "utf8 [] = []"
  obtains m where "getMap utf8 flds n = Some m" and "gm_get m = map_of hs"
proof
  let ?m = "fold (\<lambda>kv m. gm_set m (fst kv) (snd kv)) hs []"
  show "getMap utf8 flds n = Some ?m"
    unfolding getMap_submessages reads_getSubmessages [OF assms(1)]
    using assms(2-4) by (intro getMapLoop_entries) (auto simp: headers_readable_def)
  show "gm_get ?m = map_of hs"
    using assms(3) by (intro ext) (simp add: fold_gm_set headers_readable_def split: option.splits)
qed

lemma field_string_bytes [simp]:
  "field_string (bytes_fields n b @ fs) n = (if b = [] then field_string fs n else b)"
  "k \<noteq> n \<Longrightarrow> field_string (bytes_fields k b @ fs) n = field_string fs n"
  "k \<noteq> n \<Longrightarrow> field_string (bytes_fields k b) n = []"
  "field_string (bytes_fields n b) n = b"
  "field_string [] n = []"
  by (auto simp: field_string_def bytes_fields_def)

lemma entry_denotes_map_entry:
  assumes "length (fst kv) < 2 ^ 50" and "length (snd kv) < 2 ^ 50"
  shows "entry_denotes (map_entry kv) kv"
proof -
  let ?fs = "bytes_fields 1 (bytes_of (fst kv)) @ bytes_fields 2 (bytes_of (snd kv))"
  have "message_fields (map_entry kv) ?fs"
    using assms wire_map_entry [of kv] length_map_entry_le [of kv] by (auto simp: message_fields_def bytes_fields_def)
  moreover have "field_string ?fs 1 = bytes_of (fst kv)" "field_string ?fs 2 = bytes_of (snd kv)"
    by (simp_all del: One_nat_def)
  ultimately show ?thesis unfolding entry_denotes_def by blast
qed

text \<open>The response the broker writes by hand, read by this client.\<close>

lemma ts_reads_publish_response:
  assumes "length messageID < 2 ^ 50" and "utf8 (bytes_of messageID) = messageID" and "utf8 [] = []"
  shows "decodePublishResponse utf8 (EncodePublishResponsePayload messageID) = Some messageID"
proof -
  have same: "EncodePublishResponsePayload messageID = EncodeAckRequestPayload messageID"
    by (simp add: EncodePublishResponsePayload_def EncodeAckRequestPayload_def field_defs)
  have "length (EncodePublishResponsePayload messageID) \<le> 11 + length messageID"
    using length_AppendUvarint'_le by (simp add: EncodePublishResponsePayload_def AppendUvarint_def)
  then have "message_fields (EncodePublishResponsePayload messageID) [(1, WBytes (bytes_of messageID))]"
    using assms(1) wire_ack_request [of messageID] by (simp add: message_fields_def same)
  from decodeFields_message [OF this] obtain flds where
    "decodeFields (EncodePublishResponsePayload messageID) = Some flds" "reads flds [(1, WBytes (bytes_of messageID))]" .
  then show ?thesis using assms(2,3) by (simp add: decodePublishResponse_def reads_getString field_string_def)
qed

section \<open>Properties\<close>

definition header_fields :: "nat \<Rightarrow> (string \<times> string) list option \<Rightarrow> (nat \<times> wire_value) list" where
  "header_fields f hs = (case hs of None \<Rightarrow> [] | Some hs \<Rightarrow> map (\<lambda>kv. (f, WBytes (map_entry kv))) hs)"

lemma wire_headers [ts_wire]:
  assumes "f < 2 ^ 60" and "\<And>h. hs = Some h \<Longrightarrow> headers_ok h"
  shows "wire_fields ((case hs of None \<Rightarrow> [] | Some h \<Rightarrow> encodeMapField f h) @ rest)
     = map_option ((@) (header_fields f hs)) (wire_fields rest)"
  using assms by (cases hs; cases "wire_fields rest") (simp_all add: header_fields_def wire_map)

text \<open>C29. What the TypeScript client sends is the protobuf message of the request: read by a field reader of the wire format, the
  payload has exactly the fields of the request with the numbers of the schema, those with a default value left out, and one block
  per header, which denotes the header's key and value.\<close>

theorem ts_requests_are_protobuf:
  assumes "length queue < 2 ^ 62" and "length payload < 2 ^ 62" and "length mid < 2 ^ 62" and "length key < 2 ^ 62"
    and "\<forall>kv \<in> set hs. length (fst kv) < 2 ^ 50 \<and> length (snd kv) < 2 ^ 50"
    and "0 \<le> a" and "a < 2 ^ 32" and "0 \<le> b" and "b < 2 ^ 32"
  shows "wire_fields (encodePublishRequest queue payload (Some hs) (Some mid) (Some key))
       = Some (bytes_fields 1 (bytes_of queue) @ bytes_fields 2 payload @ header_fields 3 (Some hs)
               @ bytes_fields 4 (bytes_of mid) @ bytes_fields 5 (bytes_of key))
     \<and> wire_fields (encodeConsumeRequest queue (Some a) (Some b))
       = Some (bytes_fields 1 (bytes_of queue) @ number_fields 2 a @ number_fields 3 b)
     \<and> wire_fields (encodeAckRequest mid) = Some (bytes_fields 1 (bytes_of mid))
     \<and> wire_fields (encodeNackRequest mid requeue) = Some (bytes_fields 1 (bytes_of mid) @ number_fields 2 (of_bool requeue))
     \<and> wire_fields (encodeExtendVisibilityRequest mid a) = Some (bytes_fields 1 (bytes_of mid) @ number_fields 2 a)
     \<and> wire_fields (encodeCallRequest queue payload (Some hs) (Some a))
       = Some (bytes_fields 1 (bytes_of queue) @ bytes_fields 2 payload @ header_fields 3 (Some hs) @ number_fields 4 a)
     \<and> list_all2 entry_denotes (map map_entry hs) hs"
proof -
  have hs: "headers_ok hs" using assms(5) by (fastforce simp: headers_ok_def)
  have q: "length queue < 2 ^ 64" and p: "length payload < 2 ^ 64" and m: "length mid < 2 ^ 64" and k: "length key < 2 ^ 64"
    using assms by simp_all
  have a: "- (2 ^ 64) \<le> a" "a < 2 ^ 64" and b: "- (2 ^ 64) \<le> b" "b < 2 ^ 64" using assms by simp_all
  note at_end = wire_present [where rest = "[]", simplified append_Nil2] wire_number [where rest = "[]", simplified append_Nil2]
    wire_string [where rest = "[]", simplified append_Nil2] wire_bool [where rest = "[]", simplified append_Nil2]
  note defs = encodePublishRequest_def encodeConsumeRequest_def encodeAckRequest_def encodeNackRequest_def
    encodeExtendVisibilityRequest_def encodeCallRequest_def header_fields_def
  have "list_all2 entry_denotes (map map_entry hs) hs"
    using assms(5) by (simp add: list_all2_map1 list_all2_same entry_denotes_map_entry)
  then show ?thesis
    using hs q p m k a b by (simp add: defs ts_wire at_end)
qed

theorem ts_requests_are_protobuf_witness:
  "wire_fields (encodePublishRequest ''jobs'' [1, 2] (Some [(''a'', ''b'')]) (Some []) (Some ''k''))
     = Some [(1, WBytes (bytes_of ''jobs'')), (2, WBytes [1, 2]), (3, WBytes (map_entry (''a'', ''b''))), (5, WBytes (bytes_of ''k''))]
   \<and> wire_fields (encodeConsumeRequest ''jobs'' (Some 10) (Some 0)) = Some [(1, WBytes (bytes_of ''jobs'')), (2, WVarint 10)]"
  using ts_requests_are_protobuf [of "''jobs''" "[1, 2]" "[]" "''k''" "[(''a'', ''b'')]" 10 0]
  by (simp add: bytes_fields_def number_fields_def header_fields_def bytes_of_def)

text \<open>C30. The TypeScript client understands every protobuf message of the broker. For bytes that denote a list of fields, decoding
  a message gives the text of fields 1 and 2, the payload of field 3, the numbers of fields 5 and 6 and, as a map, the headers
  the blocks of field 4 denote; decoding an error gives its code and text. Texts must be UTF-8, times below 2^53, and no header may be
  named \<open>__proto__\<close>.\<close>

theorem ts_reads_messages:
  assumes "message_fields bs fs" and "utf8 [] = []"
    and "utf8 (field_string fs 1) = mid" and "utf8 (field_string fs 2) = txt"
    and "list_all2 entry_denotes (field_blocks fs 4) hs" and "headers_readable utf8 hs"
    and "field_number fs 5 < 2 ^ 53" and "field_number fs 6 < 2 ^ 53"
  shows "(\<exists>m. tsDecodeMessage utf8 bs = Some m \<and> qmMessageId m = mid \<and> qmQueue m = txt \<and> qmPayload m = field_string fs 3
        \<and> gm_get (qmHeaders m) = map_of hs \<and> qmAttempt m = field_number fs 5 \<and> qmPublishedAt m = field_number fs 6)
     \<and> decodeErrorResponse utf8 bs = Some (jsNumber (field_number fs 1), txt)"
proof -
  from decodeFields_message [OF assms(1)] obtain flds where d: "decodeFields bs = Some flds" and r: "reads flds fs" .
  from reads_getMap [OF r assms(5,6,2)] obtain m where m: "getMap utf8 flds 4 = Some m" "gm_get m = map_of hs" .
  show ?thesis
    using assms(3,4,7,8) d m reads_getString [OF r, of utf8, OF assms(2)] reads_getBytes [OF r] reads_number [OF r]
    by (simp add: tsDecodeMessage_def decodeErrorResponse_def)
qed

definition sample_message :: bytes where
  "sample_message = encodeStringField 1 ''m1'' @ encodeStringField 2 ''jobs'' @ encodeBytesField 3 [7]
     @ encodeMapField 4 [(''a'', ''b'')] @ encodeUint32Field 5 3"

definition sample_fields :: "(nat \<times> wire_value) list" where
  "sample_fields = [(1, WBytes (bytes_of ''m1'')), (2, WBytes (bytes_of ''jobs'')), (3, WBytes [7]),
     (4, WBytes (map_entry (''a'', ''b''))), (5, WVarint 3)]"

lemma sample_message_fields: "message_fields sample_message sample_fields"
proof -
  have "length sample_message = 23" by code_simp
  moreover have "headers_ok [(''a'', ''b'')]" by (simp add: headers_ok_def)
  then have "wire_fields sample_message = Some sample_fields"
    using wire_number [of 5 3 "[]"]
    by (simp add: sample_message_def sample_fields_def ts_wire bytes_fields_def number_fields_def bytes_of_def)
  moreover have "\<forall>f \<in> set sample_fields. fst f < 2 ^ 53" by (simp add: sample_fields_def)
  ultimately show ?thesis by (simp add: message_fields_def)
qed

lemma sample_headers:
  "list_all2 entry_denotes (field_blocks sample_fields 4) [(''a'', ''b'')]" "headers_readable string_of [(''a'', ''b'')]"
  using entry_denotes_map_entry [of "(''a'', ''b'')"]
  by (simp_all add: sample_fields_def field_blocks_def List.map_filter_def headers_readable_def)

theorem ts_reads_messages_witness:
  "\<exists>m. tsDecodeMessage string_of sample_message = Some m \<and> qmMessageId m = ''m1'' \<and> qmQueue m = ''jobs'' \<and> qmPayload m = [7]
     \<and> gm_get (qmHeaders m) = [''a'' \<mapsto> ''b''] \<and> qmAttempt m = 3 \<and> qmPublishedAt m = 0"
proof -
  have "string_of [] = []" by (simp add: string_of_def)
  moreover have "string_of (field_string sample_fields 1) = ''m1''" "string_of (field_string sample_fields 2) = ''jobs''"
    by (simp_all add: field_string_def sample_fields_def)
  ultimately show ?thesis
    using ts_reads_messages [OF sample_message_fields, of string_of "''m1''" "''jobs''", OF _ _ _ sample_headers]
    by (simp add: field_string_def field_number_def sample_fields_def)
qed

end
