(* ===== verification/Ts_Connection_Props.thy ===== *)
theory Ts_Connection_Props
  imports Ts_Connection Ts_Codec_Props
begin

text \<open>
  What the TypeScript connection promises its callers: every request is settled at the latest when the connection is lost, and as
  long as the broker answers the requests in order, each gets its own answer, however the bytes are cut into chunks. An error the broker
  sends for an acknowledgement breaks that order.
\<close>

section \<open>Runs\<close>

datatype ts_op =
    OpConnect
  | OpOnConnect
  | OpOnData bytes
  | OpOnError string
  | OpOnClose real
  | OpPublish string bytes "(string \<times> string) list option" "string option" "string option"
  | OpSubscribe string ConsumeOptions
  | OpAck string
  | OpNack string bool
  | OpExtend string int
  | OpCall string bytes "(string \<times> string) list option" "int option"
  | OpListQueues
  | OpListSchemas
  | OpRegisterSchema string bytes string
  | OpWriteFailed nat string
  | OpTimer
  | OpResubscribe
  | OpClose

definition ts_step :: "ts_opts \<Rightarrow> (bytes \<Rightarrow> string) \<Rightarrow> ts_op \<Rightarrow> ts_conn \<Rightarrow> ts_conn" where
  \<comment> \<open>a call that throws leaves the state as it is\<close>
  "ts_step opts utf8 op c = (case op of
     OpConnect \<Rightarrow> tsConnect c
   | OpOnConnect \<Rightarrow> on_connect c
   | OpOnData chunk \<Rightarrow> on_data utf8 chunk c
   | OpOnError e \<Rightarrow> on_error e c
   | OpOnClose rnd \<Rightarrow> on_close opts rnd c
   | OpPublish q p h m k \<Rightarrow> publish_ts q p h m k c
   | OpSubscribe q o' \<Rightarrow> snd (subscribe_ts q o' c)
   | OpAck m \<Rightarrow> (case ack_ts m c of None \<Rightarrow> c | Some c' \<Rightarrow> c')
   | OpNack m r \<Rightarrow> (case nack_ts m r c of None \<Rightarrow> c | Some c' \<Rightarrow> c')
   | OpExtend m s \<Rightarrow> extendVisibility_ts m s c
   | OpCall q p h t \<Rightarrow> call_ts q p h t c
   | OpListQueues \<Rightarrow> listQueues c
   | OpListSchemas \<Rightarrow> listSchemas c
   | OpRegisterSchema q d t \<Rightarrow> registerSchema q d t c
   | OpWriteFailed i e \<Rightarrow> if i < tcNext c then write_failed i e c else c
   | OpTimer \<Rightarrow> timer_fires c
   | OpResubscribe \<Rightarrow> resubscribe c
   | OpClose \<Rightarrow> close_ts c)"

definition ts_run :: "ts_opts \<Rightarrow> (bytes \<Rightarrow> string) \<Rightarrow> ts_op list \<Rightarrow> ts_conn \<Rightarrow> ts_conn" where
  "ts_run opts utf8 ops c = fold (ts_step opts utf8) ops c"

section \<open>No promise is forgotten\<close>

definition settled_ids :: "ts_conn \<Rightarrow> nat set" where
  "settled_ids c = fst ` set (tcSettled c)"

definition pending_ids :: "ts_conn \<Rightarrow> nat set" where
  "pending_ids c = fst ` set (tcPending c)"

definition ts_inv :: "ts_conn \<Rightarrow> bool" where
  "ts_inv c \<longleftrightarrow> settled_ids c \<union> pending_ids c = {..<tcNext c} \<and> distinct (map fst (tcSettled c))"

lemma emit_simps [simp]:
  "tcPending (emit evs c) = tcPending c" "tcSettled (emit evs c) = tcSettled c" "tcNext (emit evs c) = tcNext c"
  "tcDecoder (emit evs c) = tcDecoder c" "tcHandler (emit evs c) = tcHandler c" "tcLog (emit evs c) = tcLog c @ evs"
  "tcConnected (emit evs c) = tcConnected c" "tcSocket (emit evs c) = tcSocket c" "tcClosing (emit evs c) = tcClosing c"
  by (simp_all add: emit_def)

lemma settle_simps [simp]:
  "tcPending (settle i r c) = tcPending c" "tcNext (settle i r c) = tcNext c" "tcLog (settle i r c) = tcLog c"
  "tcDecoder (settle i r c) = tcDecoder c" "tcHandler (settle i r c) = tcHandler c" "tcClosing (settle i r c) = tcClosing c"
  "tcSocket (settle i r c) = tcSocket c"
  by (simp_all add: settle_def)

lemma settled_settle [simp]: "settled_ids (settle i r c) = insert i (settled_ids c)"
  by (auto simp: settled_ids_def settle_def)

lemma distinct_settle [simp]: "distinct (map fst (tcSettled (settle i r c))) = distinct (map fst (tcSettled c))"
  by (auto simp: settle_def)

lemma fold_settle [simp]:
  "settled_ids (fold (\<lambda>p. settle (fst p) (r p)) ps c) = fst ` set ps \<union> settled_ids c"
  "tcPending (fold (\<lambda>p. settle (fst p) (r p)) ps c) = tcPending c"
  "tcNext (fold (\<lambda>p. settle (fst p) (r p)) ps c) = tcNext c"
  "tcClosing (fold (\<lambda>p. settle (fst p) (r p)) ps c) = tcClosing c"
  "tcSocket (fold (\<lambda>p. settle (fst p) (r p)) ps c) = tcSocket c"
  "distinct (map fst (tcSettled (fold (\<lambda>p. settle (fst p) (r p)) ps c))) = distinct (map fst (tcSettled c))"
  by (induction ps arbitrary: c) auto

lemma settled_pending_update [simp]: "settled_ids (c\<lparr>tcPending := ps\<rparr>) = settled_ids c"
  by (simp add: settled_ids_def)

lemma pending_settle [simp]: "pending_ids (settle i r c) = pending_ids c" "pending_ids (c\<lparr>tcPending := ps\<rparr>) = fst ` set ps"
  by (simp_all add: pending_ids_def)

lemma ts_inv_cong:
  "tcPending c' = tcPending c \<Longrightarrow> tcSettled c' = tcSettled c \<Longrightarrow> tcNext c' = tcNext c \<Longrightarrow> ts_inv c' = ts_inv c"
  by (simp add: ts_inv_def settled_ids_def pending_ids_def)

lemma ts_inv_emit [simp]: "ts_inv (emit evs c) = ts_inv c"
  by (rule ts_inv_cong) simp_all

lemma ts_inv_shift:
  assumes "ts_inv c" and "tcPending c = (i, e) # ps"
  shows "ts_inv (settle i r (c\<lparr>tcPending := ps\<rparr>))"
  using assms by (simp add: ts_inv_def pending_ids_def [of c])

lemma ts_inv_handleFrame:
  assumes "ts_inv c" and "handleFrame_ts utf8 f c = Some c'"
  shows "ts_inv c'"
  using assms
  by (auto simp: handleFrame_ts_def ts_inv_shift split: if_splits option.splits list.splits prod.splits)

lemma ts_inv_handleFrames: "ts_inv c \<Longrightarrow> ts_inv (snd (handleFrames_ts utf8 fs c))"
  by (induction fs arbitrary: c) (auto split: option.splits dest: ts_inv_handleFrame)

lemma ts_inv_destroy [simp]: "ts_inv (destroy c) = ts_inv c"
  by (simp add: destroy_def)

lemma ts_inv_on_data:
  assumes "ts_inv c"
  shows "ts_inv (on_data utf8 chunk c)"
proof -
  obtain res rest where r: "fdReadAll (fdPush chunk (tcDecoder c)) = (res, rest)" by (cases "fdReadAll (fdPush chunk (tcDecoder c))")
  have c0: "ts_inv (c\<lparr>tcDecoder := rest\<rparr>)" using assms by (subst ts_inv_cong [of _ c]) simp_all
  show ?thesis
  proof (cases res)
    case (Inl e)
    then show ?thesis using r c0 by (simp add: on_data_def)
  next
    case (Inr fs)
    have "ts_inv (snd (handleFrames_ts utf8 fs (c\<lparr>tcDecoder := rest\<rparr>)))" by (rule ts_inv_handleFrames [OF c0])
    then show ?thesis using r Inr by (auto simp: on_data_def split: prod.splits bool.splits)
  qed
qed

lemma reject_pending_inv:
  assumes "ts_inv c"
  shows "ts_inv (reject_pending e c)" and "tcPending (reject_pending e c) = []" and "tcNext (reject_pending e c) = tcNext c"
  using assms by (auto simp: ts_inv_def reject_pending_def pending_ids_def)

lemma scheduleReconnect_simps [simp]:
  "tcPending (scheduleReconnect opts rnd c) = tcPending c" "tcSettled (scheduleReconnect opts rnd c) = tcSettled c"
  "tcNext (scheduleReconnect opts rnd c) = tcNext c"
  by (simp_all add: scheduleReconnect_def Let_def)

lemma ts_inv_scheduleReconnect [simp]: "ts_inv (scheduleReconnect opts rnd c) = ts_inv c"
  by (rule ts_inv_cong) simp_all

lemma on_close_inv:
  assumes "ts_inv c"
  shows "ts_inv (on_close opts rnd c)" and "tcPending (on_close opts rnd c) = []"
proof -
  let ?c = "c\<lparr>tcConnected := False, tcSocket := False\<rparr>"
  have "ts_inv ?c" using assms by (subst ts_inv_cong [of _ c]) simp_all
  note r = reject_pending_inv [OF this, of ConnectionClosed]
  show "ts_inv (on_close opts rnd c)" "tcPending (on_close opts rnd c) = []"
    using r by (simp_all add: on_close_def Let_def)
qed

lemma close_inv:
  assumes "ts_inv c"
  shows "ts_inv (close_ts c)" and "tcPending (close_ts c) = []"
proof -
  define c2 where "c2 = (let c1 = c\<lparr>tcClosing := True, tcHandler := False, tcConsumeQueue := None\<rparr>
      in if tcTimer c1 then emit [ClearTimer] (c1\<lparr>tcTimer := False\<rparr>) else c1)"
  have "ts_inv c2" using assms by (subst ts_inv_cong [of _ c]) (simp_all add: c2_def Let_def)
  note r = reject_pending_inv [OF this, of ConnectionClosing]
  have "close_ts c = (let c3 = reject_pending ConnectionClosing c2 in if tcSocket c3 then emit [EndSocket] c3 else c3)"
    by (simp add: close_ts_def c2_def Let_def)
  then show "ts_inv (close_ts c)" "tcPending (close_ts c) = []" using r by (simp_all add: Let_def)
qed

lemma ts_inv_sendAndWait:
  assumes "ts_inv c"
  shows "ts_inv (sendAndWait opcode payload e c)"
proof -
  have n: "{..<Suc (tcNext c)} = insert (tcNext c) {..<tcNext c}" by auto
  have "tcNext c \<notin> settled_ids c" using assms by (auto simp: ts_inv_def)
  then show ?thesis
    using assms n unfolding ts_inv_def pending_ids_def settled_ids_def
    by (auto simp: sendAndWait_def Let_def settle_def split: option.splits)
qed

lemma ts_inv_write_failed:
  assumes "ts_inv c" and "i < tcNext c"
  shows "ts_inv (write_failed i e c)"
  using assms unfolding ts_inv_def
  by (auto simp: write_failed_def pending_ids_def settled_ids_def settle_def image_iff)

lemma ts_inv_send: "ts_inv c \<Longrightarrow> send_ts opcode payload c = Some c' \<Longrightarrow> ts_inv c'"
  by (auto simp: send_ts_def split: if_splits)

lemma ts_inv_sendConsume: "ts_inv c \<Longrightarrow> sendConsume q o' c = Some c' \<Longrightarrow> ts_inv c'"
  by (auto simp: sendConsume_def split: if_splits)

lemma ts_inv_step: "ts_inv c \<Longrightarrow> ts_inv (ts_step opts utf8 op c)"
proof (cases op)
  case OpConnect
  moreover assume "ts_inv c"
  ultimately show ?thesis by (simp add: ts_step_def tsConnect_def ts_inv_cong [of "c\<lparr>tcClosing := False\<rparr>" c])
next
  case OpOnConnect
  moreover assume "ts_inv c"
  ultimately show ?thesis
    by (simp add: ts_step_def on_connect_def ts_inv_cong [of "c\<lparr>tcSocket := _, tcConnected := _, tcReconnectAttempt := _, tcDecoder := _\<rparr>" c])
next
  case (OpSubscribe q o')
  moreover assume "ts_inv c"
  then have "ts_inv (c\<lparr>tcHandler := True, tcConsumeQueue := Some q, tcConsumeOptions := o'\<rparr>)"
    by (subst ts_inv_cong [of _ c]) simp_all
  ultimately show ?thesis
    by (auto simp: ts_step_def subscribe_ts_def Let_def split: option.splits intro: ts_inv_sendConsume)
qed (auto simp: ts_step_def ts_inv_on_data on_error_def on_close_inv publish_ts_def ts_inv_sendAndWait ack_ts_def nack_ts_def
    extendVisibility_ts_def call_ts_def listQueues_def listSchemas_def registerSchema_def ts_inv_write_failed timer_fires_def
    resubscribe_def close_inv split: option.splits intro: ts_inv_send ts_inv_sendConsume)

lemma ts_inv_run: "ts_inv c \<Longrightarrow> ts_inv (ts_run opts utf8 ops c)"
  unfolding ts_run_def by (induction ops arbitrary: c) (simp_all add: ts_inv_step)

lemma ts_inv_new: "ts_inv newConnection"
  by (simp add: ts_inv_def newConnection_def settled_ids_def pending_ids_def)

section \<open>Answers in order\<close>

definition is_push :: "frame \<Rightarrow> bool" where
  "is_push f \<longleftrightarrow> fOpCode f = 0x04"

definition readable :: "(bytes \<Rightarrow> string) \<Rightarrow> frame \<Rightarrow> bool" where
  "readable utf8 f \<longleftrightarrow>
     (if is_push f then tsDecodeMessage utf8 (fPayload f) \<noteq> None
      else if fOpCode f = 0x07 then decodeErrorResponse utf8 (fPayload f) \<noteq> None else True)"

definition answer :: "(bytes \<Rightarrow> string) \<Rightarrow> frame \<Rightarrow> ts_outcome" where
  "answer utf8 f =
     (if fOpCode f = 0x07 then (case decodeErrorResponse utf8 (fPayload f) of
          Some (code, txt) \<Rightarrow> Rejected (BrokerError code txt) | None \<Rightarrow> Rejected Thrown)
      else Resolved f)"

definition delivered :: "(bytes \<Rightarrow> string) \<Rightarrow> bool \<Rightarrow> frame list \<Rightarrow> ts_event list" where
  "delivered utf8 handler fs =
     concat (map (\<lambda>f. case tsDecodeMessage utf8 (fPayload f) of
         None \<Rightarrow> [] | Some m \<Rightarrow> (if handler then [CallHandler m] else []) @ [EvMessage m]) (filter is_push fs))"

definition replies :: "frame list \<Rightarrow> frame list" where
  "replies fs = filter (\<lambda>f. \<not> is_push f) fs"

definition answers_to :: "frame list \<Rightarrow> (nat \<times> u8) list \<Rightarrow> bool" where
  "answers_to rs ps \<longleftrightarrow> list_all2 (\<lambda>f p. fOpCode f = snd p \<or> fOpCode f = 0x07) rs ps"

definition after_frames :: "(bytes \<Rightarrow> string) \<Rightarrow> frame list \<Rightarrow> (nat \<times> u8) list \<Rightarrow> (nat \<times> u8) list \<Rightarrow> ts_conn \<Rightarrow> ts_conn" where
  \<comment> \<open>the requests \<open>ps\<close> answered, those of \<open>qs\<close> still pending\<close>
  "after_frames utf8 fs ps qs c =
     c\<lparr>tcPending := qs, tcSettled := tcSettled c @ map2 (\<lambda>p f. (fst p, answer utf8 f)) ps (replies fs),
       tcLog := tcLog c @ delivered utf8 (tcHandler c) fs\<rparr>"

lemma handleFrame_push:
  assumes "is_push f" and "readable utf8 f"
  shows "handleFrame_ts utf8 f c = Some (emit (delivered utf8 (tcHandler c) [f]) c)"
  using assms by (auto simp: handleFrame_ts_def is_push_def readable_def delivered_def split: option.splits)

lemma handleFrame_reply:
  assumes "\<not> is_push f" and "readable utf8 f" and "tcPending c = p # ps" and "fOpCode f = snd p \<or> fOpCode f = 0x07"
    and "fst p \<notin> settled_ids c"
  shows "handleFrame_ts utf8 f c = Some (c\<lparr>tcPending := ps, tcSettled := tcSettled c @ [(fst p, answer utf8 f)]\<rparr>)"
  using assms
  by (auto simp: handleFrame_ts_def is_push_def readable_def answer_def settle_def settled_ids_def split: option.splits)

lemma handleFrames_in_order:
  assumes "list_all (readable utf8) fs" and "tcPending c = ps @ qs" and "answers_to (replies fs) ps"
    and "distinct (map fst ps)" and "\<forall>p \<in> set ps. fst p \<notin> settled_ids c"
  shows "handleFrames_ts utf8 fs c = (True, after_frames utf8 fs ps qs c)"
  using assms
proof (induction fs arbitrary: c ps)
  case Nil
  then show ?case by (simp add: after_frames_def replies_def answers_to_def delivered_def)
next
  case (Cons f fs)
  show ?case
  proof (cases "is_push f")
    case True
    let ?c = "emit (delivered utf8 (tcHandler c) [f]) c"
    have "settled_ids ?c = settled_ids c" by (simp add: settled_ids_def)
    with Cons.prems True have "handleFrames_ts utf8 fs ?c = (True, after_frames utf8 fs ps qs ?c)"
      by (intro Cons.IH) (simp_all add: replies_def)
    moreover have "delivered utf8 h (f # fs) = delivered utf8 h [f] @ delivered utf8 h fs" for h
      using True by (simp add: delivered_def)
    ultimately show ?thesis using True Cons.prems(1)
      by (simp add: handleFrame_push after_frames_def replies_def emit_def)
  next
    case False
    then obtain p ps' where ps: "ps = p # ps'" and a: "fOpCode f = snd p \<or> fOpCode f = 0x07" "answers_to (replies fs) ps'"
      using Cons.prems(3) by (auto simp: replies_def answers_to_def list_all2_Cons1)
    let ?c = "c\<lparr>tcPending := ps' @ qs, tcSettled := tcSettled c @ [(fst p, answer utf8 f)]\<rparr>"
    have "settled_ids ?c = insert (fst p) (settled_ids c)" by (simp add: settled_ids_def)
    moreover have "\<forall>q \<in> set ps'. fst q \<noteq> fst p" using Cons.prems(4) ps by (metis distinct.simps(2) in_set_conv_nth length_map list.simps(9) nth_map nth_mem)
    ultimately have "\<forall>q \<in> set ps'. fst q \<notin> settled_ids ?c" using Cons.prems(5) ps by simp
    with Cons.prems a ps have "handleFrames_ts utf8 fs ?c = (True, after_frames utf8 fs ps' qs ?c)"
      by (intro Cons.IH) simp_all
    moreover have "handleFrame_ts utf8 f c = Some ?c"
      using Cons.prems a ps False by (intro handleFrame_reply) auto
    ultimately show ?thesis using False by (simp add: after_frames_def replies_def delivered_def ps)
  qed
qed

subsection \<open>Chunks\<close>

lemma settle_decoder:
  "settle i x (c\<lparr>tcDecoder := r, tcPending := ps\<rparr>) = settle i x (c\<lparr>tcPending := ps\<rparr>)\<lparr>tcDecoder := r\<rparr>"
  by (simp add: settle_def)

lemma handleFrame_decoder:
  "handleFrame_ts utf8 f (c\<lparr>tcDecoder := r\<rparr>) = map_option (\<lambda>c. c\<lparr>tcDecoder := r\<rparr>) (handleFrame_ts utf8 f c)"
  by (auto simp: handleFrame_ts_def emit_def settle_decoder split: option.splits list.splits prod.splits)

lemma handleFrames_decoder:
  "handleFrames_ts utf8 fs (c\<lparr>tcDecoder := r\<rparr>) = map_prod id (\<lambda>c. c\<lparr>tcDecoder := r\<rparr>) (handleFrames_ts utf8 fs c)"
  by (induction fs arbitrary: c) (simp_all add: handleFrame_decoder split: option.splits)

lemma handleFrames_append:
  "handleFrames_ts utf8 (fs @ gs) c
     = (case handleFrames_ts utf8 fs c of (ok, c') \<Rightarrow> if ok then handleFrames_ts utf8 gs c' else (False, c'))"
  by (induction fs arbitrary: c) (simp_all split: option.splits)

lemma on_data_chunks:
  assumes "fdReadAll (tcDecoder c @ concat chunks) = (Inr fs, r)" and "handleFrames_ts utf8 fs c = (True, c')"
    and "fdReadAll (tcDecoder c) = (Inr [], tcDecoder c)"
  shows "fold (on_data utf8) chunks c = c'\<lparr>tcDecoder := r\<rparr>"
  using assms
proof (induction chunks arbitrary: c c' fs)
  case Nil
  then show ?case by simp
next
  case (Cons chunk chunks)
  obtain gs r1 where g: "fdReadAll (tcDecoder c @ chunk) = (Inr gs, r1)"
    using Cons.prems(1) fdReadAll_error [of "tcDecoder c @ chunk" _ _ "concat chunks"]
    by (cases "fdReadAll (tcDecoder c @ chunk)"; cases "fst (fdReadAll (tcDecoder c @ chunk))") auto
  have "prepend gs (fdReadAll (r1 @ concat chunks)) = (Inr fs, r)"
    using Cons.prems(1) fdReadAll_append [OF g, of "concat chunks"] by simp
  then obtain hs where h: "fdReadAll (r1 @ concat chunks) = (Inr hs, r)" "fs = gs @ hs" unfolding prepend_Inr by blast
  obtain c1 where c1: "handleFrames_ts utf8 gs c = (True, c1)" "handleFrames_ts utf8 hs c1 = (True, c')"
    using Cons.prems(2) unfolding h(2) handleFrames_append by (auto split: prod.splits if_splits)
  have "on_data utf8 chunk c = c1\<lparr>tcDecoder := r1\<rparr>"
    by (simp add: on_data_def fdPush_append g handleFrames_decoder c1(1))
  moreover have "fold (on_data utf8) chunks (c1\<lparr>tcDecoder := r1\<rparr>) = c'\<lparr>tcDecoder := r1\<rparr>\<lparr>tcDecoder := r\<rparr>"
    using h(1) fdReadAll_twice [OF g] by (intro Cons.IH [where fs = hs]) (simp_all add: handleFrames_decoder c1(2))
  ultimately show ?case by simp
qed

section \<open>Properties\<close>

text \<open>C31. No request to the TypeScript client hangs over a lost connection. Whatever is called and whatever happens on the socket,
  every promise handed out is settled at most once and is either settled or pending; when the socket closes, and when
  \<open>close\<close> is called, all that are not settled are.\<close>

theorem ts_requests_settle_on_close:
  "let c = ts_run opts utf8 ops newConnection
   in distinct (map fst (tcSettled c)) \<and> settled_ids c \<union> pending_ids c = {..<tcNext c}
      \<and> settled_ids (on_close opts rnd c) = {..<tcNext c} \<and> settled_ids (close_ts c) = {..<tcNext c}"
proof -
  define c where "c = ts_run opts utf8 ops newConnection"
  have c: "ts_inv c" unfolding c_def by (rule ts_inv_run [OF ts_inv_new])
  have n: "tcNext (on_close opts rnd c) = tcNext c" "tcNext (close_ts c) = tcNext c"
    by (simp_all add: on_close_def close_ts_def reject_pending_def Let_def)
  have "settled_ids (on_close opts rnd c) = {..<tcNext c}" "settled_ids (close_ts c) = {..<tcNext c}"
    using on_close_inv [OF c, of opts rnd] close_inv [OF c] n by (simp_all add: ts_inv_def pending_ids_def)
  then show ?thesis using c by (simp add: ts_inv_def c_def Let_def)
qed

text \<open>C15. As long as the broker answers the requests of a connection in order, the TypeScript client gives each request its own
  answer. Let the broker write frames that are the answers to the oldest pending requests, each with the expected opcode or an error, in
  the order of the requests, and messages anywhere between them. However the bytes are cut into chunks, exactly these requests
  are settled, each with its answer, the messages are handed to the handler in order, and the younger requests stay pending.\<close>

theorem ts_replies_in_order:
  assumes "concat chunks = concat (map (\<lambda>(op, payload). WriteFrame op payload) ws)"
    and "list_all (\<lambda>(op, payload). length payload + 2 \<le> MAX_FRAME_SIZE) ws"
    and "fs = map (\<lambda>(op, payload). \<lparr>fVersion = ProtocolVersion, fOpCode = op, fPayload = payload\<rparr>) ws"
    and "list_all (readable utf8) fs" and "answers_to (replies fs) ps"
    and "tcPending c = ps @ qs" and "distinct (map fst ps)" and "\<forall>p \<in> set ps. fst p \<notin> settled_ids c" and "tcDecoder c = []"
  shows "fold (on_data utf8) chunks c
     = c\<lparr>tcPending := qs, tcSettled := tcSettled c @ map2 (\<lambda>p f. (fst p, answer utf8 f)) ps (replies fs),
         tcLog := tcLog c @ delivered utf8 (tcHandler c) fs\<rparr>"
proof -
  have r: "fdReadAll (tcDecoder c @ concat chunks) = (Inr fs, [])"
    using fdReadAll_WriteFrames [OF assms(2)] assms(1,3,9) by simp
  have h: "handleFrames_ts utf8 fs c = (True, after_frames utf8 fs ps qs c)"
    by (rule handleFrames_in_order [OF assms(4,6,5,7,8)])
  have e: "fdReadAll (tcDecoder c) = (Inr [], tcDecoder c)"
    using assms(9) by (simp add: fdReadAll.simps [of "[]"] fdRead_def)
  have "fold (on_data utf8) chunks c = after_frames utf8 fs ps qs c\<lparr>tcDecoder := []\<rparr>" by (rule on_data_chunks [OF r h e])
  then show ?thesis using assms(9) by (simp add: after_frames_def)
qed

lemma readable_sample: "tsDecodeMessage string_of sample_message \<noteq> None"
proof -
  from decodeFields_message [OF sample_message_fields] obtain flds
    where d: "decodeFields sample_message = Some flds" and r: "reads flds sample_fields" .
  have "string_of [] = []" by (simp add: string_of_def)
  from reads_getMap [OF r sample_headers this] obtain m where "getMap string_of flds 4 = Some m" by blast
  then show ?thesis using d by (simp add: tsDecodeMessage_def)
qed

definition two_pending :: ts_conn where
  "two_pending = newConnection\<lparr>tcSocket := True, tcConnected := True, tcPending := [(0, 0x02), (1, 0x09)], tcNext := 2\<rparr>"

theorem ts_replies_in_order_witness:
  "let c = fold (on_data string_of)
        [take 3 (WriteFrame 0x04 sample_message), drop 3 (WriteFrame 0x04 sample_message) @ WriteFrame 0x02 [1], WriteFrame 0x09 [2]] two_pending
   in tcPending c = []
      \<and> tcSettled c = [(0, Resolved \<lparr>fVersion = ProtocolVersion, fOpCode = 0x02, fPayload = [1]\<rparr>),
                       (1, Resolved \<lparr>fVersion = ProtocolVersion, fOpCode = 0x09, fPayload = [2]\<rparr>)]"
proof -
  let ?ws = "[(0x04, sample_message), (0x02, [1]), (0x09, [2])] :: (u8 \<times> bytes) list"
  let ?fs = "map (\<lambda>(op, payload). \<lparr>fVersion = ProtocolVersion, fOpCode = op, fPayload = payload\<rparr>) ?ws"
  have len: "length sample_message = 23" by code_simp
  have "list_all (\<lambda>(op, payload). length payload + 2 \<le> MAX_FRAME_SIZE) ?ws" by (simp add: MAX_FRAME_SIZE_def len)
  moreover have "list_all (readable string_of) ?fs" using readable_sample by (simp add: readable_def is_push_def)
  moreover have "answers_to (replies ?fs) [(0, 0x02), (1, 0x09)]" by (simp add: answers_to_def replies_def is_push_def)
  ultimately show ?thesis
    using ts_replies_in_order [of "[take 3 (WriteFrame 0x04 sample_message), drop 3 (WriteFrame 0x04 sample_message) @ WriteFrame 0x02 [1],
        WriteFrame 0x09 [2]]" ?ws ?fs string_of "[(0, 0x02), (1, 0x09)]" two_pending "[]"]
    by (simp add: two_pending_def newConnection_def settled_ids_def replies_def is_push_def answer_def)
qed

text \<open>C40. An acknowledgement that fails gives its error to an unrelated request and every later answer to the wrong one. A client
  acknowledges a message, which hands out no promise, and then publishes twice; the broker answers the acknowledgement with an error,
  as it does when the message is no longer in flight, and then answers the publishes. The first publish is rejected with the error of the
  acknowledgement, the second is resolved with the answer to the first, and its own answer is dropped.\<close>

theorem ts_failed_ack_shifts_answers:
  assumes "ts_inv c" and "tcSocket c" and "tcConnected c" and "tcPending c = []"
    and "encodeFrame 0x05 (encodeAckRequest mid) \<noteq> None"
    and "encodeFrame 0x01 (encodePublishRequest q1 p1 None None None) \<noteq> None"
    and "encodeFrame 0x01 (encodePublishRequest q2 p2 None None None) \<noteq> None"
    and "decodeErrorResponse utf8 e = Some (code, txt)"
  shows "\<exists>c1 c2. ack_ts mid c = Some c1
     \<and> handleFrames_ts utf8 [\<lparr>fVersion = 1, fOpCode = 0x07, fPayload = e\<rparr>, \<lparr>fVersion = 1, fOpCode = 0x02, fPayload = r1\<rparr>,
           \<lparr>fVersion = 1, fOpCode = 0x02, fPayload = r2\<rparr>]
         (publish_ts q2 p2 None None None (publish_ts q1 p1 None None None c1)) = (True, c2)
     \<and> tcPending c2 = []
     \<and> tcSettled c2 = tcSettled c @ [(tcNext c, Rejected (BrokerError code txt)),
         (tcNext c + 1, Resolved \<lparr>fVersion = 1, fOpCode = 0x02, fPayload = r1\<rparr>)]"
proof -
  have "fst ` set (tcSettled c) \<subseteq> {..<tcNext c}" using assms(1) unfolding ts_inv_def settled_ids_def by blast
  then have new: "tcNext c \<notin> fst ` set (tcSettled c)" "Suc (tcNext c) \<notin> fst ` set (tcSettled c)" by auto
  obtain b where b: "encodeFrame 0x05 (encodeAckRequest mid) = Some b" using assms(5) by auto
  define c1 where "c1 = emit [Write b] c"
  have c1: "tcSocket c1" "tcConnected c1" "tcPending c1 = []" "tcNext c1 = tcNext c" "tcSettled c1 = tcSettled c"
    using assms(2-4) by (simp_all add: c1_def)
  have "ack_ts mid c = Some c1" using assms(2,3) b by (simp add: ack_ts_def send_ts_def c1_def)
  moreover obtain w1 w2 where
    "encodeFrame 0x01 (encodePublishRequest q1 p1 None None None) = Some w1"
    "encodeFrame 0x01 (encodePublishRequest q2 p2 None None None) = Some w2" using assms(6,7) by auto
  ultimately show ?thesis using new c1 assms(8)
    by (simp add: publish_ts_def sendAndWait_def Let_def handleFrame_ts_def settle_def emit_def)
qed

theorem ts_failed_ack_shifts_answers_witness:
  "\<exists>c1 c2. ack_ts ''m'' (on_connect newConnection) = Some c1
     \<and> handleFrames_ts string_of [\<lparr>fVersion = 1, fOpCode = 0x07, fPayload = [8, 4]\<rparr>, \<lparr>fVersion = 1, fOpCode = 0x02, fPayload = [1]\<rparr>,
           \<lparr>fVersion = 1, fOpCode = 0x02, fPayload = [2]\<rparr>]
         (publish_ts ''q'' [6] None None None (publish_ts ''q'' [5] None None None c1)) = (True, c2)
     \<and> tcSettled c2 = [(0, Rejected (BrokerError 4 [])), (1, Resolved \<lparr>fVersion = 1, fOpCode = 0x02, fPayload = [1]\<rparr>)]"
proof -
  have "ts_inv (on_connect newConnection)"
    using ts_inv_run [OF ts_inv_new, of DEFAULT_OPTIONS string_of "[OpOnConnect]"] by (simp add: ts_run_def ts_step_def)
  moreover have "decodeErrorResponse string_of [8, 4] = Some (4, [])" by code_simp
  moreover have "length (encodeAckRequest ''m'') = 3" "length (encodePublishRequest ''q'' [5] None None None) = 6"
    "length (encodePublishRequest ''q'' [6] None None None) = 6" by code_simp+
  ultimately show ?thesis
    using ts_failed_ack_shifts_answers [of "on_connect newConnection" "''m''" "''q''" "[5]" "''q''" "[6]" string_of "[8, 4]" 4 "[]" "[1]" "[2]"]
    by (auto simp: encodeFrame_def on_connect_def newConnection_def)
qed

end
