(* ===== verification/Go_Client.thy ===== *)
theory Go_Client
  imports Server
begin

text \<open>
  The Go client, \<open>pkg/client/client.go\<close> and \<open>pkg/client/typed.go\<close>. A connection is the bytes that will still arrive, the bytes
  that were written, and the error that writing returns, if it does. The generated protobuf code is a parameter (\<open>client_wire\<close>), as
  in the server. A result is \<open>None\<close> when the code panics.
\<close>

section \<open>State\<close>

record net_conn =
  ncIn :: bytes
  ncOut :: bytes
  ncWriteErr :: "string option"

datatype client_error =
    WriteError string
  | ReadError frame_error
  | ClientBrokerError u32 string
  | UnmarshalError
  | HandlerError string
  | MarshalError
  | NilMessage
  | MissingDescriptor

record client_wire =
  cwSchemaRegister :: "string \<Rightarrow> bytes \<Rightarrow> string \<Rightarrow> bytes" \<comment> \<open>\<open>proto.Marshal\<close> of the requests\<close>
  cwSchemaList :: bytes
  cwQueueList :: bytes
  cuError :: "bytes \<Rightarrow> u32 \<times> string" \<comment> \<open>what \<open>proto.Unmarshal\<close> leaves in the response, its error being ignored\<close>
  cuSchemaRegister :: "bytes \<Rightarrow> (u32 \<times> u32) option"
  cuSchemaList :: "bytes \<Rightarrow> SchemaInfo list option"
  cuQueueList :: "bytes \<Rightarrow> QueueInfo list option"
  cuPublish :: "bytes \<Rightarrow> string option"
  cuMessage :: "bytes \<Rightarrow> ProtoMessage option"

section \<open>Requests\<close>

definition conn_write :: "bytes \<Rightarrow> net_conn \<Rightarrow> client_error option \<times> net_conn" where
  "conn_write bs c = (case ncWriteErr c of Some e \<Rightarrow> (Some (WriteError e), c) | None \<Rightarrow> (None, c\<lparr>ncOut := ncOut c @ bs\<rparr>))"

definition conn_decode :: "u32 \<Rightarrow> net_conn \<Rightarrow> (frame_error + frame) \<times> net_conn" where
  "conn_decode mx c = (case DecodeFrame mx (ncIn c) of (r, rest) \<Rightarrow> (r, c\<lparr>ncIn := rest\<rparr>))"

definition await_response :: "client_wire \<Rightarrow> u32 \<Rightarrow> net_conn \<Rightarrow> (client_error + bytes) \<times> net_conn" where
  \<comment> \<open>read one frame; an error frame is an error, any other opcode is taken as the answer\<close>
  "await_response w mx c =
     (case conn_decode mx c of
        (Inl e, c1) \<Rightarrow> (Inl (ReadError e), c1)
      | (Inr resp, c1) \<Rightarrow>
          if fOpCode resp = OpError
          then (Inl (case cuError w (fPayload resp) of (code, msg) \<Rightarrow> ClientBrokerError code msg), c1)
          else (Inr (fPayload resp), c1))"

definition unmarshalled :: "(bytes \<Rightarrow> 'r option) \<Rightarrow> (client_error + bytes) \<times> net_conn \<Rightarrow> (client_error + 'r) \<times> net_conn" where
  "unmarshalled un res =
     (case res of
        (Inl e, c) \<Rightarrow> (Inl e, c)
      | (Inr payload, c) \<Rightarrow> (case un payload of None \<Rightarrow> (Inl UnmarshalError, c) | Some r \<Rightarrow> (Inr r, c)))"

definition SchemaRegister :: "client_wire \<Rightarrow> u32 \<Rightarrow> string \<Rightarrow> bytes \<Rightarrow> string \<Rightarrow> net_conn \<Rightarrow> ((client_error + u32 \<times> u32) \<times> net_conn) go" where
  "SchemaRegister w mx queue descriptor messageType c = do {
     frame \<leftarrow> EncodeFrame OpSchemaRegister (cwSchemaRegister w queue descriptor messageType);
     Some (case conn_write frame c of
             (Some e, c1) \<Rightarrow> (Inl e, c1)
           | (None, c1) \<Rightarrow> unmarshalled (cuSchemaRegister w) (await_response w mx c1))
   }"

definition SchemaList :: "client_wire \<Rightarrow> u32 \<Rightarrow> net_conn \<Rightarrow> ((client_error + SchemaInfo list) \<times> net_conn) go" where
  "SchemaList w mx c = do {
     frame \<leftarrow> EncodeFrame OpSchemaList (cwSchemaList w);
     Some (case conn_write frame c of
             (Some e, c1) \<Rightarrow> (Inl e, c1)
           | (None, c1) \<Rightarrow> unmarshalled (cuSchemaList w) (await_response w mx c1))
   }"

definition QueueList :: "client_wire \<Rightarrow> u32 \<Rightarrow> net_conn \<Rightarrow> ((client_error + QueueInfo list) \<times> net_conn) go" where
  "QueueList w mx c = do {
     frame \<leftarrow> EncodeFrame OpQueueList (cwQueueList w);
     Some (case conn_write frame c of
             (Some e, c1) \<Rightarrow> (Inl e, c1)
           | (None, c1) \<Rightarrow> unmarshalled (cuQueueList w) (await_response w mx c1))
   }"

definition Publish :: "client_wire \<Rightarrow> u32 \<Rightarrow> string \<Rightarrow> bytes \<Rightarrow> net_conn \<Rightarrow> ((client_error + string) \<times> net_conn) go" where
  "Publish w mx queue payload c =
     (case conn_write (WriteFrame OpPublish (EncodeSimplePublishRequestPayload queue payload)) c of
        (Some e, c1) \<Rightarrow> Some (Inl e, c1)
      | (None, c1) \<Rightarrow>
          (case await_response w mx c1 of
             (Inl e, c2) \<Rightarrow> Some (Inl e, c2)
           | (Inr body, c2) \<Rightarrow> do {
               (messageID, ok) \<leftarrow> DecodePublishResponsePayload body;
               Some (if ok then (Inr messageID, c2)
                     else case cuPublish w body of None \<Rightarrow> (Inl UnmarshalError, c2) | Some r \<Rightarrow> (Inr r, c2))
             }))"

definition ClientAck :: "string \<Rightarrow> net_conn \<Rightarrow> client_error option \<times> net_conn" where
  "ClientAck messageID c = conn_write (WriteFrame OpAck (EncodeAckRequestPayload messageID)) c"

section \<open>Consuming\<close>

text \<open>The handler may use the same client, so it acts on the connection and on state of its own. The loop ends only by an error; a loop
  that does not is \<open>None\<close>.\<close>

type_synonym 'h msg_handler = "ProtoMessage \<Rightarrow> net_conn \<times> 'h \<Rightarrow> string option \<times> net_conn \<times> 'h"

partial_function (option) consume_loop :: "client_wire \<Rightarrow> u32 \<Rightarrow> 'h msg_handler \<Rightarrow> net_conn \<times> 'h \<Rightarrow> (client_error \<times> net_conn \<times> 'h) option" where
  "consume_loop w mx handler st =
     (case conn_decode mx (fst st) of
        (Inl e, c) \<Rightarrow> Some (ReadError e, c, snd st)
      | (Inr resp, c) \<Rightarrow>
          if fOpCode resp = OpError
          then Some (case cuError w (fPayload resp) of (code, msg) \<Rightarrow> (ClientBrokerError code msg, c, snd st))
          else if fOpCode resp \<noteq> OpMessage then consume_loop w mx handler (c, snd st)
          else (case cuMessage w (fPayload resp) of
                  None \<Rightarrow> Some (UnmarshalError, c, snd st)
                | Some msg \<Rightarrow>
                    (case handler msg (c, snd st) of
                       (Some err, st') \<Rightarrow> Some (HandlerError err, st')
                     | (None, st') \<Rightarrow> consume_loop w mx handler st')))"

definition ConsumeWithVisibility :: "client_wire \<Rightarrow> u32 \<Rightarrow> string \<Rightarrow> u32 \<Rightarrow> u32 \<Rightarrow> 'h msg_handler \<Rightarrow> net_conn \<times> 'h
    \<Rightarrow> (client_error \<times> net_conn \<times> 'h) option" where
  "ConsumeWithVisibility w mx queue prefetch visibilityTimeout handler st =
     (case conn_write (WriteFrame OpConsume (EncodeSimpleConsumeRequestPayload queue prefetch visibilityTimeout)) (fst st) of
        (Some e, c) \<Rightarrow> Some (e, c, snd st)
      | (None, c) \<Rightarrow> consume_loop w mx handler (c, snd st))"

definition Consume :: "client_wire \<Rightarrow> u32 \<Rightarrow> string \<Rightarrow> u32 \<Rightarrow> 'h msg_handler \<Rightarrow> net_conn \<times> 'h \<Rightarrow> (client_error \<times> net_conn \<times> 'h) option" where
  "Consume w mx queue prefetch = ConsumeWithVisibility w mx queue prefetch 0"

section \<open>Typed payloads\<close>

definition PublishProto :: "('p \<Rightarrow> bytes option) \<Rightarrow> client_wire \<Rightarrow> u32 \<Rightarrow> string \<Rightarrow> 'p \<Rightarrow> net_conn \<Rightarrow> ((client_error + string) \<times> net_conn) go" where
  "PublishProto marshal w mx queue msg c =
     (case marshal msg of None \<Rightarrow> Some (Inl MarshalError, c) | Some payload \<Rightarrow> Publish w mx queue payload c)"

definition proto_handler :: "(bytes \<Rightarrow> 'p option) \<Rightarrow> (ProtoMessage \<Rightarrow> 'p \<Rightarrow> net_conn \<times> 'h \<Rightarrow> string option \<times> net_conn \<times> 'h) \<Rightarrow> 'h msg_handler" where
  "proto_handler unmarshal handler msg st =
     (case unmarshal (pmPayload msg) of
        None \<Rightarrow> (Some ''unmarshal'', st)
      | Some decoded \<Rightarrow> handler msg decoded st)"

definition ConsumeProto :: "(bytes \<Rightarrow> 'p option) \<Rightarrow> client_wire \<Rightarrow> u32 \<Rightarrow> string \<Rightarrow> u32
    \<Rightarrow> (ProtoMessage \<Rightarrow> 'p \<Rightarrow> net_conn \<times> 'h \<Rightarrow> string option \<times> net_conn \<times> 'h) \<Rightarrow> net_conn \<times> 'h \<Rightarrow> (client_error \<times> net_conn \<times> 'h) option" where
  "ConsumeProto unmarshal w mx queue prefetch handler = Consume w mx queue prefetch (proto_handler unmarshal handler)"

subsection \<open>The descriptor set of a message type\<close>

text \<open>Descriptors are values of the protobuf library: the parameters are the path and the imports of a file. The recursion of
  \<open>collect\<close> is its stack of files still to visit.\<close>

partial_function (option) collect :: "('fd \<Rightarrow> string) \<Rightarrow> ('fd \<Rightarrow> 'fd list) \<Rightarrow> 'fd list \<Rightarrow> (string, 'fd) gomap \<Rightarrow> (string, 'fd) gomap option" where
  "collect path imports stack fds =
     (case stack of
        [] \<Rightarrow> Some fds
      | fd # rest \<Rightarrow>
          if gm_get fds (path fd) \<noteq> None then collect path imports rest fds
          else collect path imports (imports fd @ rest) (gm_set fds (path fd) fd))"

definition schemaDescriptorSet :: "('fd \<Rightarrow> string) \<Rightarrow> ('fd \<Rightarrow> 'fd list) \<Rightarrow> ('fd list \<Rightarrow> bytes option) \<Rightarrow> ('fd \<times> string) option option
    \<Rightarrow> (client_error + bytes \<times> string) option" where
  \<comment> \<open>the message is nil, has no descriptor, or has a file and a full name\<close>
  "schemaDescriptorSet path imports marshal msg =
     (case msg of
        None \<Rightarrow> Some (Inl NilMessage)
      | Some None \<Rightarrow> Some (Inl MissingDescriptor)
      | Some (Some (parentFile, fullName)) \<Rightarrow>
          map_option (\<lambda>fds.
              let paths = sort (gm_keys fds); fileSet = map (\<lambda>p. the (gm_get fds p)) paths
              in case marshal fileSet of None \<Rightarrow> Inl MarshalError | Some data \<Rightarrow> Inr (data, fullName))
            (collect path imports [parentFile] []))"

definition SchemaRegisterMessage :: "('fd \<Rightarrow> string) \<Rightarrow> ('fd \<Rightarrow> 'fd list) \<Rightarrow> ('fd list \<Rightarrow> bytes option) \<Rightarrow> client_wire \<Rightarrow> u32 \<Rightarrow> string
    \<Rightarrow> ('fd \<times> string) option option \<Rightarrow> net_conn \<Rightarrow> ((client_error + u32 \<times> u32) \<times> net_conn) go option" where
  "SchemaRegisterMessage path imports marshal w mx queue msg c =
     map_option (\<lambda>r. case r of
         Inl e \<Rightarrow> Some (Inl e, c)
       | Inr (descriptor, messageType) \<Rightarrow> SchemaRegister w mx queue descriptor messageType c)
       (schemaDescriptorSet path imports marshal msg)"

end
