(* ===== verification/Go_Client_Props.thy ===== *)
theory Go_Client_Props
  imports Go_Client Server_Props
begin

text \<open>
  The Go client against the server: what \<open>Publish\<close> returns is what the broker's handler answered, \<open>Consume\<close> hands every message of
  the connection to the handler in order, and a client that publishes while messages are pushed to it takes a message for the answer.
\<close>

section \<open>One request\<close>

definition plain_request :: "string \<Rightarrow> bytes \<Rightarrow> PublishRequest" where
  "plain_request q p = \<lparr>prQueue = q, prPayload = p, prHeaders = [], prMessageId = [], prIdempotencyKey = [], prOrderingKey = []\<rparr>"

definition reads_publish :: "wire \<Rightarrow> string \<Rightarrow> bytes \<Rightarrow> bool" where
  \<comment> \<open>the server's protobuf library reads a message with the queue as field 1 and the payload as field 2 as that request\<close>
  "reads_publish w q p \<longleftrightarrow>
     (\<forall>bs. wire_fields bs = Some [(1, WBytes (bytes_of q)), (2, WBytes p)] \<longrightarrow> wPublish w bs = Some (plain_request q p))"

definition fresh_socket :: "net_conn \<Rightarrow> bool" where
  "fresh_socket c \<longleftrightarrow> ncIn c = [] \<and> ncOut c = [] \<and> ncWriteErr c = None"

lemma await_WriteFrame:
  assumes "ncIn c = WriteFrame op payload @ rest" and "frame_fits mx payload"
  shows "await_response w mx c
     = (if op = OpError then Inl (case cuError w payload of (code, msg) \<Rightarrow> ClientBrokerError code msg) else Inr payload, c\<lparr>ncIn := rest\<rparr>)"
  using assms by (simp add: await_response_def conn_decode_def DecodeFrame_WriteFrame_aux)

lemma server_publish:
  assumes "frame_fits mx (EncodeSimplePublishRequestPayload q p)" and "length q < 2 ^ 63" and "length p < 2 ^ 63"
    and "reads_publish (svWire s) q p" and "cnAuthenticated k"
    and "svReplicator s = None" and "\<not> IsStreamQueue q (svBroker s)"
    and "svSchemaMode s \<noteq> SchemaModeStrict" and "gm_get (rgSchemas (svRegistry s)) q = None"
  shows "conn_read e mx (WriteFrame OpPublish (EncodeSimplePublishRequestPayload q p)) k s
     = map_option (Pair []) (publish_local (seEnv e) (plain_request q p) k s)"
proof -
  have w: "wPublish (svWire s) (EncodeSimplePublishRequestPayload q p) = Some (plain_request q p)"
    using assms(4) wire_publish_request [OF assms(2,3)] by (simp add: reads_publish_def)
  have "DecodeFrame mx (WriteFrame OpPublish (EncodeSimplePublishRequestPayload q p))
      = (Inr \<lparr>fVersion = ProtocolVersion, fOpCode = OpPublish, fPayload = EncodeSimplePublishRequestPayload q p\<rparr>, [])"
    using DecodeFrame_WriteFrame_aux [OF assms(1), of OpPublish "[]"] by simp
  then show ?thesis
    using assms(5-9) w
    by (simp add: conn_read_def conn_frame_def handleFrame_def handlePublish_def Validate_def plain_request_def)
qed

lemma update_depth_broker [simp]: "svBroker (update_depth q s) = svBroker s" "svBroker (emit ms s) = svBroker s"
  by (simp_all add: update_depth_def emit_def split: option.splits)

section \<open>The consume loop\<close>

definition conn_frames :: "(OpCode \<times> bytes) list \<Rightarrow> bytes" where
  "conn_frames fs = concat (map (\<lambda>(op, payload). WriteFrame op payload) fs)"

definition pushed :: "client_wire \<Rightarrow> (OpCode \<times> bytes) list \<Rightarrow> ProtoMessage list" where
  "pushed w fs = List.map_filter (\<lambda>(op, payload). if op = OpMessage then cuMessage w payload else None) fs"

definition frame_ok :: "client_wire \<Rightarrow> u32 \<Rightarrow> OpCode \<times> bytes \<Rightarrow> bool" where
  "frame_ok w mx f \<longleftrightarrow> frame_fits mx (snd f) \<and> fst f \<noteq> OpError \<and> (fst f = OpMessage \<longrightarrow> cuMessage w (snd f) \<noteq> None)"

definition quiet_handler :: "'h msg_handler \<Rightarrow> (ProtoMessage \<Rightarrow> 'h \<Rightarrow> 'h) \<Rightarrow> bool" where
  \<comment> \<open>a handler that succeeds and reads nothing from the connection, though it may write to it\<close>
  "quiet_handler handler step \<longleftrightarrow>
     (\<forall>m c h. \<exists>c'. handler m (c, h) = (None, c', step m h) \<and> ncIn c' = ncIn c)"

lemma conn_decode_frame:
  assumes "ncIn c = conn_frames ((op, payload) # fs)" and "frame_fits mx payload"
  shows "conn_decode mx c = (Inr \<lparr>fVersion = ProtocolVersion, fOpCode = op, fPayload = payload\<rparr>, c\<lparr>ncIn := conn_frames fs\<rparr>)"
  using assms DecodeFrame_WriteFrame_aux [OF assms(2)] by (simp add: conn_decode_def conn_frames_def)

lemma consume_loop_frames:
  assumes "ncIn c = conn_frames fs" and "list_all (frame_ok w mx) fs" and "quiet_handler handler step"
  shows "\<exists>c'. consume_loop w mx handler (c, h) = Some (ReadError EOF, c', fold step (pushed w fs) h) \<and> ncIn c' = []"
  using assms(1,2)
proof (induction fs arbitrary: c h)
  case Nil
  then show ?case
    by (subst consume_loop.simps) (simp add: conn_decode_def conn_frames_def DecodeFrame_def ReadFull_def pushed_def List.map_filter_simps)
next
  case (Cons f fs)
  obtain op payload where f: "f = (op, payload)" by (cases f)
  have rest: "list_all (frame_ok w mx) fs" and "frame_ok w mx f" using Cons.prems(2) by simp_all
  then have ok: "frame_fits mx payload" "op \<noteq> OpError" "op = OpMessage \<Longrightarrow> cuMessage w payload \<noteq> None"
    by (simp_all add: f frame_ok_def)
  note d = conn_decode_frame [OF Cons.prems(1) [unfolded f] ok(1)]
  let ?c = "c\<lparr>ncIn := conn_frames fs\<rparr>"
  show ?case
  proof (cases "op = OpMessage")
    case True
    then obtain m where m: "cuMessage w payload = Some m" using ok(3) by auto
    obtain c' where h: "handler m (?c, h) = (None, c', step m h)" and c': "ncIn c' = conn_frames fs"
      using assms(3) unfolding quiet_handler_def by (metis net_conn.select_convs(1) net_conn.surjective net_conn.update_convs(1))
    have "consume_loop w mx handler (c, h) = consume_loop w mx handler (c', step m h)"
      using True ok m h by (subst consume_loop.simps) (simp add: d)
    then show ?thesis using Cons.IH [OF c' rest, of "step m h"] m True by (simp add: pushed_def List.map_filter_simps f)
  next
    case False
    have "consume_loop w mx handler (c, h) = consume_loop w mx handler (?c, h)"
      using False ok by (subst consume_loop.simps) (simp add: d)
    then show ?thesis using Cons.IH [of ?c h] rest False by (simp add: pushed_def List.map_filter_simps f)
  qed
qed

section \<open>Properties\<close>

text \<open>C11. A publish through the Go client and the server is a publish on the broker. The client's bytes are read by the server as one
  request, the broker's handler runs once on the queue and the payload of the call, and from the bytes the server answers with
  the client returns the message id the handler returned, or an error with the handler's error text. This is for a
  single node, a queue that is not a stream and has no schema, an authenticated connection, frames within both sides' limits, and the protobuf library
  reading what the wire format says.\<close>

theorem client_publish_end_to_end:
  assumes "fresh_socket c" and "frame_fits mx (EncodeSimplePublishRequestPayload q p)" and "length q < 2 ^ 63" and "length p < 2 ^ 63"
    and "reads_publish (svWire s) q p" and "cnAuthenticated k"
    and "svReplicator s = None" and "\<not> IsStreamQueue q (svBroker s)"
    and "svSchemaMode s \<noteq> SchemaModeStrict" and "gm_get (rgSchemas (svRegistry s)) q = None"
    and "HandlePublish (seEnv e) (plain_request q p) (svBroker s) = Some (res, b)"
    and "\<And>mid. res = Inr mid \<Longrightarrow> length mid < 2 ^ 62 \<and> frame_fits cmx (EncodePublishResponsePayload mid)"
    and "\<And>err. res = Inl err \<Longrightarrow> frame_fits cmx (mError (svWire s) 3 (errText (svWire s) err))
        \<and> cuError w (mError (svWire s) 3 (errText (svWire s) err)) = (3, errText (svWire s) err)"
  shows "\<exists>sent out s'. conn_write (WriteFrame OpPublish (EncodeSimplePublishRequestPayload q p)) c = (None, c\<lparr>ncOut := sent\<rparr>)
     \<and> conn_read e mx sent k s = Some ([], [out], k, s') \<and> svBroker s' = b
     \<and> Publish w cmx q p (c\<lparr>ncIn := out\<rparr>)
        = Some (case res of Inr mid \<Rightarrow> Inr mid | Inl err \<Rightarrow> Inl (ClientBrokerError 3 (errText (svWire s) err)), c\<lparr>ncOut := sent\<rparr>)"
proof -
  define sent where "sent = WriteFrame OpPublish (EncodeSimplePublishRequestPayload q p)"
  note srv = server_publish [OF assms(2-10), of e, folded sent_def]
  have c: "ncIn c = []" "ncOut c = []" "ncWriteErr c = None" using assms(1) by (simp_all add: fresh_socket_def)
  have written: "conn_write sent c = (None, c\<lparr>ncOut := sent\<rparr>)"
    "conn_write sent (c\<lparr>ncIn := out\<rparr>) = (None, c\<lparr>ncIn := out, ncOut := sent\<rparr>)" for out
    using c by (simp_all add: conn_write_def)
  have c': "c\<lparr>ncOut := sent, ncIn := []\<rparr> = c\<lparr>ncOut := sent\<rparr>" using c by simp
  have ops: "OpPublishAck \<noteq> OpError" by (simp add: opcode_defs)
  show ?thesis
  proof (cases res)
    case (Inr mid)
    let ?out = "WriteFrame OpPublishAck (EncodePublishResponsePayload mid)"
    have fits: "length mid < 2 ^ 62" "frame_fits cmx (EncodePublishResponsePayload mid)" using assms(12) [OF Inr] by auto
    have "\<exists>s'. conn_read e mx sent k s = Some ([], [?out], k, s') \<and> svBroker s' = b"
      using srv assms(11) Inr by (simp add: publish_local_def publish_ack_def)
    moreover have "Publish w cmx q p (c\<lparr>ncIn := ?out\<rparr>) = Some (Inr mid, c\<lparr>ncOut := sent\<rparr>)"
      using await_WriteFrame [of "c\<lparr>ncIn := ?out, ncOut := sent\<rparr>" OpPublishAck "EncodePublishResponsePayload mid" "[]" cmx w] fits ops c'
      by (simp add: Publish_def sent_def [symmetric] written DecodePublishResponse_Encode_aux)
    ultimately show ?thesis using written Inr unfolding sent_def by auto
  next
    case (Inl err)
    let ?pay = "mError (svWire s) 3 (errText (svWire s) err)"
    have fits: "frame_fits cmx ?pay" "cuError w ?pay = (3, errText (svWire s) err)" using assms(13) [OF Inl] by auto
    have "\<exists>s'. conn_read e mx sent k s = Some ([], [WriteFrame OpError ?pay], k, s') \<and> svBroker s' = b"
      using srv assms(11) Inl frame_fits_EncodeFrame [OF fits(1)] by (simp add: publish_local_def reply_error_def EncodeError_def)
    moreover have "Publish w cmx q p (c\<lparr>ncIn := WriteFrame OpError ?pay\<rparr>)
        = Some (Inl (ClientBrokerError 3 (errText (svWire s) err)), c\<lparr>ncOut := sent\<rparr>)"
      using await_WriteFrame [of "c\<lparr>ncIn := WriteFrame OpError ?pay, ncOut := sent\<rparr>" OpError ?pay "[]" cmx w] fits c'
      by (simp add: Publish_def sent_def [symmetric] written)
    ultimately show ?thesis using written Inl unfolding sent_def by auto
  qed
qed

definition wire_publish :: "bytes \<Rightarrow> PublishRequest option" where
  \<comment> \<open>a protobuf reader for this one message\<close>
  "wire_publish bs = (case wire_fields bs of
     Some [(m, WBytes q), (n, WBytes p)] \<Rightarrow> if m = 1 \<and> n = 2 then Some (plain_request (string_of q) p) else None
   | _ \<Rightarrow> None)"

definition client_demo_server :: "(unit, unit, unit, unit, unit) Server" where
  "client_demo_server = demo_server\<lparr>svWire := demo_wire\<lparr>wPublish := wire_publish\<rparr>\<rparr>"

definition client_demo_wire :: client_wire where
  "client_demo_wire = \<lparr>cwSchemaRegister = \<lambda>_ _ _. [], cwSchemaList = [], cwQueueList = [], cuError = \<lambda>_. (3, []),
     cuSchemaRegister = \<lambda>_. None, cuSchemaList = \<lambda>_. None, cuQueueList = \<lambda>_. None, cuPublish = \<lambda>_. None,
     cuMessage = \<lambda>bs. Some \<lparr>pmMessageId = [], pmQueue = [], pmPayload = bs, pmHeaders = [], pmAttempt = 0, pmPublishedAt = 0, pmOrderingKey = []\<rparr>\<rparr>"

definition demo_socket :: net_conn where
  "demo_socket = \<lparr>ncIn = [], ncOut = [], ncWriteErr = None\<rparr>"

definition demo_published :: "(error + string) \<times> unit Broker" where
  "demo_published = the (HandlePublish (seEnv (demo_env 1)) (plain_request ''q'' [7]) (svBroker client_demo_server))"

theorem client_publish_end_to_end_witness:
  "\<exists>sent out s'. conn_read (demo_env 1) 1024 sent (new_conn ''a'' client_demo_server) client_demo_server
       = Some ([], [out], new_conn ''a'' client_demo_server, s')
     \<and> map_option Len (GetQueue ''q'' (svBroker s')) = Some 1
     \<and> Publish client_demo_wire 1024 ''q'' [7] (demo_socket\<lparr>ncIn := out\<rparr>) = Some (Inr ''u'', demo_socket\<lparr>ncOut := sent\<rparr>)"
proof -
  let ?s = client_demo_server
  have "\<not> Option.is_none (HandlePublish (seEnv (demo_env 1)) (plain_request ''q'' [7]) (svBroker ?s))" by code_simp
  then have h: "HandlePublish (seEnv (demo_env 1)) (plain_request ''q'' [7]) (svBroker ?s) = Some (fst demo_published, snd demo_published)"
    unfolding demo_published_def prod.collapse by (rule some_the)
  have res: "fst demo_published = Inr ''u''" "map_option Len (GetQueue ''q'' (snd demo_published)) = Some 1" by code_simp+
  have "fresh_socket demo_socket" by (simp add: fresh_socket_def demo_socket_def)
  moreover have "length (EncodeSimplePublishRequestPayload ''q'' [7]) = 6" "length (EncodePublishResponsePayload ''u'') = 3" by code_simp+
  then have "frame_fits 1024 (EncodeSimplePublishRequestPayload ''q'' [7])" "frame_fits 1024 (EncodePublishResponsePayload ''u'')"
    by (simp_all add: frame_fits_def MaxFrameSize_def)
  moreover have "reads_publish (svWire ?s) ''q'' [7]"
    by (simp add: reads_publish_def client_demo_server_def wire_publish_def)
  moreover have "cnAuthenticated (new_conn ''a'' ?s)" "svReplicator ?s = None" "\<not> IsStreamQueue ''q'' (svBroker ?s)"
    "svSchemaMode ?s \<noteq> SchemaModeStrict" "Option.is_none (gm_get (rgSchemas (svRegistry ?s)) ''q'')"
    by code_simp+
  ultimately obtain sent out s' where
    "conn_read (demo_env 1) 1024 sent (new_conn ''a'' ?s) ?s = Some ([], [out], new_conn ''a'' ?s, s')" "svBroker s' = snd demo_published"
    "Publish client_demo_wire 1024 ''q'' [7] (demo_socket\<lparr>ncIn := out\<rparr>) = Some (Inr ''u'', demo_socket\<lparr>ncOut := sent\<rparr>)"
    using client_publish_end_to_end [of demo_socket 1024 "''q''" "[7]" ?s "new_conn ''a'' ?s" "demo_env 1" "fst demo_published" "snd demo_published"
        1024 client_demo_wire] h res(1)
    by (auto simp: Option.is_none_def)
  then show ?thesis using res(2) by (intro exI [of _ sent] exI [of _ out] exI [of _ s']) simp
qed

text \<open>C32. Consuming through the Go client hands over every message once, in the order of the connection. For a connection that
  delivers frames within the limit, none of them an error, and then ends, the loop ends with the end of the connection, and the handler was
  called with exactly the messages of the message frames, in order; other frames are skipped.\<close>

theorem client_consume_in_order:
  assumes "ncWriteErr c = None" and "ncIn c = conn_frames fs" and "list_all (frame_ok w mx) fs" and "quiet_handler handler step"
  shows "\<exists>c'. ConsumeWithVisibility w mx queue prefetch vt handler (c, h) = Some (ReadError EOF, c', fold step (pushed w fs) h) \<and> ncIn c' = []"
proof -
  let ?c = "c\<lparr>ncOut := ncOut c @ WriteFrame OpConsume (EncodeSimpleConsumeRequestPayload queue prefetch vt)\<rparr>"
  have "ncIn ?c = conn_frames fs" using assms(2) by simp
  from consume_loop_frames [OF this assms(3,4), of h] assms(1) show ?thesis
    by (simp add: ConsumeWithVisibility_def conn_write_def)
qed

definition acking_handler :: "bytes list msg_handler" where
  \<comment> \<open>collects the payloads and acknowledges each message\<close>
  "acking_handler m st = (None, snd (ClientAck (pmMessageId m) (fst st)), snd st @ [pmPayload m])"

theorem client_consume_in_order_witness:
  "\<exists>c'. ConsumeWithVisibility client_demo_wire 1024 ''q'' 10 0 acking_handler
        (demo_socket\<lparr>ncIn := conn_frames [(OpMessage, [1]), (OpHeartbeatAck, []), (OpMessage, [2])]\<rparr>, [])
      = Some (ReadError EOF, c', [[1], [2]]) \<and> ncIn c' = []"
proof -
  let ?fs = "[(OpMessage, [1]), (OpHeartbeatAck, []), (OpMessage, [2])]"
  have "quiet_handler acking_handler (\<lambda>m h. h @ [pmPayload m])"
    by (auto simp: quiet_handler_def acking_handler_def ClientAck_def conn_write_def split: option.splits)
  moreover have "list_all (frame_ok client_demo_wire 1024) ?fs"
    by (simp add: frame_ok_def frame_fits_def MaxFrameSize_def opcode_defs client_demo_wire_def)
  moreover have "pushed client_demo_wire ?fs = map (the \<circ> cuMessage client_demo_wire) [[1], [2]]"
    by (simp add: pushed_def List.map_filter_simps opcode_defs client_demo_wire_def)
  ultimately show ?thesis
    using client_consume_in_order [of "demo_socket\<lparr>ncIn := conn_frames ?fs\<rparr>" ?fs client_demo_wire 1024 acking_handler
        "\<lambda>m h. h @ [pmPayload m]" "''q''" 10 0 "[]"]
    by (simp add: demo_socket_def client_demo_wire_def)
qed

text \<open>\<open>Publish\<close> takes whatever frame comes next for its answer. On a connection that also consumes, a message that is pushed before the
  answer is decoded as one: the call returns the id of that message, which the consumer never sees, and the answer stays unread.\<close>

lemma publish_takes_pushed_message:
  assumes "ncWriteErr c = None" and "ncIn c = WriteFrame OpMessage payload @ rest" and "frame_fits mx payload"
    and "DecodePublishResponsePayload payload = Some (x, False)" and "cuPublish w payload = Some mid"
  shows "\<exists>c'. Publish w mx queue body c = Some (Inr mid, c') \<and> ncIn c' = rest"
proof -
  let ?c = "c\<lparr>ncOut := ncOut c @ WriteFrame OpPublish (EncodeSimplePublishRequestPayload queue body)\<rparr>"
  have "ncIn ?c = WriteFrame OpMessage payload @ rest" using assms(2) by simp
  note a = await_WriteFrame [OF this assms(3), of w]
  have "OpMessage \<noteq> OpError" by (simp add: opcode_defs)
  then show ?thesis using assms(1,4,5) by (simp add: Publish_def conn_write_def a)
qed

section \<open>The descriptor set\<close>

definition import_rel :: "('fd \<Rightarrow> 'fd list) \<Rightarrow> ('fd \<times> 'fd) set" where
  "import_rel imports = {(a, b). b \<in> set (imports a)}"

definition closure :: "('fd \<Rightarrow> 'fd list) \<Rightarrow> 'fd \<Rightarrow> 'fd set" where
  "closure imports root = (import_rel imports)\<^sup>* `` {root}"

lemma closure_step: "fd \<in> closure imports root \<Longrightarrow> set (imports fd) \<subseteq> closure imports root"
  by (auto simp: closure_def import_rel_def intro: rtrancl_into_rtrancl)

definition collected :: "('fd \<Rightarrow> string) \<Rightarrow> ('fd \<Rightarrow> 'fd list) \<Rightarrow> 'fd set \<Rightarrow> 'fd list \<Rightarrow> (string, 'fd) gomap \<Rightarrow> bool" where
  "collected path imports R stack fds \<longleftrightarrow> distinct (gm_keys fds) \<and> set stack \<subseteq> R
     \<and> (\<forall>(p, fd) \<in> set fds. path fd = p \<and> fd \<in> R \<and> set (imports fd) \<subseteq> snd ` set fds \<union> set stack)"

lemma collected_known:
  assumes "collected path imports R (fd # rest) fds" and "inj_on path R" and "gm_get fds (path fd) \<noteq> None"
  shows "collected path imports R rest fds \<and> fd \<in> snd ` set fds"
proof -
  obtain g where g: "(path fd, g) \<in> set fds" using assms(3) by (auto dest: map_of_SomeD)
  then have "path g = path fd" "g \<in> R" "fd \<in> R" using assms(1) unfolding collected_def by auto
  then have "g = fd" using assms(2) by (auto dest: inj_onD)
  then have fd: "fd \<in> snd ` set fds" using g by force
  then have "snd ` set fds \<union> set (fd # rest) = snd ` set fds \<union> set rest" by auto
  then show ?thesis using assms(1) fd by (simp add: collected_def)
qed

lemma collected_new:
  assumes "collected path imports R (fd # rest) fds" and "gm_get fds (path fd) = None" and "\<And>g. g \<in> R \<Longrightarrow> set (imports g) \<subseteq> R"
  shows "collected path imports R (imports fd @ rest) (gm_set fds (path fd) fd) \<and> snd ` set (gm_set fds (path fd) fd) = insert fd (snd ` set fds)"
proof -
  have k: "path fd \<notin> set (gm_keys fds)" using assms(2) by (simp add: map_of_eq_None_iff)
  have new: "gm_set fds (path fd) fd = fds @ [(path fd, fd)]" by (rule gm_set_new [OF k])
  have sets: "snd ` set (fds @ [(path fd, fd)]) = insert fd (snd ` set fds)" by simp
  have old: "distinct (gm_keys fds)" "fd \<in> R" "set rest \<subseteq> R"
    "\<And>p g. (p, g) \<in> set fds \<Longrightarrow> path g = p \<and> g \<in> R \<and> set (imports g) \<subseteq> snd ` set fds \<union> insert fd (set rest)"
    using assms(1) unfolding collected_def by auto
  have "path g = p \<and> g \<in> R \<and> set (imports g) \<subseteq> insert fd (snd ` set fds) \<union> (set (imports fd) \<union> set rest)"
    if "(p, g) \<in> set fds \<or> (p, g) = (path fd, fd)" for p g
    using that old(2) old(4) [of p g] by auto
  then show ?thesis using old(1-3) assms(3) [OF old(2)] k unfolding new collected_def sets by auto
qed

lemma collect_returns:
  assumes "finite R" and "inj_on path R" and "\<And>g. g \<in> R \<Longrightarrow> set (imports g) \<subseteq> R" and "collected path imports R stack fds"
  shows "\<exists>fds'. collect path imports stack fds = Some fds' \<and> collected path imports R [] fds'
    \<and> snd ` set fds \<union> set stack \<subseteq> snd ` set fds'"
  using assms(4)
proof (induction "(card (R - snd ` set fds), length stack)" arbitrary: stack fds rule: wf_induct_rule [OF wf_lex_prod [OF wf_less_than wf_less_than]])
  case (1 stack fds)
  show ?case
  proof (cases stack)
    case Nil
    then show ?thesis using "1.prems" by (subst collect.simps) simp
  next
    case (Cons fd rest)
    show ?thesis
    proof (cases "gm_get fds (path fd) = None")
      case False
      note k = collected_known [OF "1.prems" [unfolded Cons] assms(2) False]
      have "collect path imports stack fds = collect path imports rest fds" using Cons False by (subst collect.simps) simp
      moreover have "((card (R - snd ` set fds), length rest), (card (R - snd ` set fds), length stack)) \<in> less_than <*lex*> less_than"
        using Cons by simp
      ultimately obtain fds' where "collect path imports stack fds = Some fds'" "collected path imports R [] fds'"
        "snd ` set fds \<union> set rest \<subseteq> snd ` set fds'" using "1.hyps" [of fds rest] k by metis
      then show ?thesis using k Cons by (intro exI [of _ fds']) (simp add: subset_iff)
    next
      case True
      let ?fds = "gm_set fds (path fd) fd"
      note n = collected_new [OF "1.prems" [unfolded Cons] True assms(3)]
      have "fd \<in> R" using "1.prems" Cons by (simp add: collected_def)
      moreover have "fd \<notin> snd ` set fds" using "1.prems" True unfolding collected_def by (fastforce simp: map_of_eq_None_iff)
      ultimately have "card (R - snd ` set ?fds) < card (R - snd ` set fds)"
        using n assms(1) by (intro psubset_card_mono) auto
      moreover have "collect path imports stack fds = collect path imports (imports fd @ rest) ?fds" using Cons True by (subst collect.simps) simp
      ultimately obtain fds' where "collect path imports stack fds = Some fds'" "collected path imports R [] fds'"
        "snd ` set ?fds \<union> set (imports fd @ rest) \<subseteq> snd ` set fds'" using "1.hyps" [of ?fds "imports fd @ rest"] n by auto
      then show ?thesis using n Cons by (intro exI [of _ fds']) (simp add: subset_iff)
    qed
  qed
qed

text \<open>C33. The schema the Go client registers for a message type is complete. If the files reachable by imports from the file of the
  type are finitely many and their paths differ, collecting them ends, and the set that is sent has exactly these files, each once, ordered by path.\<close>

theorem registered_schema_is_complete:
  assumes "finite (closure imports root)" and "inj_on path (closure imports root)"
  shows "\<exists>fs. set fs = closure imports root \<and> distinct fs \<and> sorted (map path fs)
     \<and> schemaDescriptorSet path imports marshal (Some (Some (root, name)))
       = Some (case marshal fs of None \<Rightarrow> Inl MarshalError | Some data \<Rightarrow> Inr (data, name))"
proof -
  let ?R = "closure imports root"
  have "root \<in> ?R" by (simp add: closure_def)
  then have "collected path imports ?R [root] []" by (simp add: collected_def)
  from collect_returns [OF assms closure_step this] obtain fds where
    c: "collect path imports [root] [] = Some fds" "collected path imports ?R [] fds" "root \<in> snd ` set fds" by auto
  have wf: "distinct (gm_keys fds)" and fds: "\<And>p g. (p, g) \<in> set fds \<Longrightarrow> path g = p \<and> g \<in> ?R \<and> set (imports g) \<subseteq> snd ` set fds"
    using c(2) unfolding collected_def by auto
  have "g \<in> snd ` set fds" if "(root, g) \<in> (import_rel imports)\<^sup>*" for g
    using that by (induction rule: rtrancl_induct) (use c(3) fds in \<open>force simp: import_rel_def\<close>)+
  then have all: "snd ` set fds = ?R" using fds by (auto simp: closure_def)
  define fs where "fs = map (\<lambda>p. the (gm_get fds p)) (sort (gm_keys fds))"
  have get: "(\<lambda>p. the (gm_get fds p)) ` fst ` set fds = snd ` set fds"
    using wf by (force simp: image_iff map_of_eq_Some_iff)
  have paths: "map path fs = sort (gm_keys fds)"
    using wf fds by (auto simp: fs_def intro!: map_idI)
  have "set fs = ?R" using get all by (simp add: fs_def)
  moreover have "distinct fs" using paths wf by (metis distinct_map distinct_sort)
  moreover have "sorted (map path fs)" by (simp add: paths)
  ultimately show ?thesis by (intro exI [of _ fs]) (simp add: schemaDescriptorSet_def c(1) Let_def fs_def)
qed

theorem registered_schema_is_complete_witness:
  "\<exists>fs. set fs = {''a'', ''b''} \<and> distinct fs \<and> sorted fs
     \<and> schemaDescriptorSet id (\<lambda>f. if f = ''b'' then [''a''] else []) (\<lambda>fs. Some (concat (map bytes_of fs))) (Some (Some (''b'', ''T'')))
       = Some (Inr (concat (map bytes_of fs), ''T''))"
proof -
  let ?i = "\<lambda>f. if f = ''b'' then [''a''] else []"
  have "(x, y) \<in> (import_rel ?i)\<^sup>* \<Longrightarrow> x = ''b'' \<Longrightarrow> y \<in> {''a'', ''b''}" for x y
    by (induction rule: rtrancl_induct) (auto simp: import_rel_def split: if_splits)
  moreover have "(''b'', ''a'') \<in> (import_rel ?i)\<^sup>*" by (auto simp: import_rel_def)
  ultimately have "closure ?i ''b'' = {''a'', ''b''}" unfolding closure_def by blast
  then show ?thesis
    using registered_schema_is_complete [of ?i "''b''" id "\<lambda>fs. Some (concat (map bytes_of fs))" "''T''"] by simp
qed

end
