(* ===== verification/Api.thy ===== *)
theory Api
  imports Server Decimal
begin

text \<open>
  The HTTP interface, \<open>internal/api/api.go\<close> and \<open>ws.go\<close>. A request is its method, its path, which the mux has cleaned, and the
  value of the query parameter \<open>limit\<close>; a response is a status and a body. Bodies are the values that are encoded as JSON; the
  encoding itself, \<open>net/http\<close> and the websocket library are not modelled. A result is \<open>None\<close> when the code panics.
\<close>

section \<open>What the handlers use of the standard library\<close>

definition TrimPrefix :: "string \<Rightarrow> string \<Rightarrow> string" where
  "TrimPrefix s prefix = (if take (length prefix) s = prefix then drop (length prefix) s else s)"

definition split_path :: "string \<Rightarrow> string \<times> string" where
  \<comment> \<open>\<open>SplitN(path, "/", 2)\<close>: the first part, and the second or the empty string\<close>
  "split_path path = (takeWhile (\<lambda>ch. ch \<noteq> CHR ''/'') path, drop 1 (dropWhile (\<lambda>ch. ch \<noteq> CHR ''/'') path))"

definition Atoi :: "string \<Rightarrow> int option" where
  "Atoi s =
     (let (neg, ds) = (case s of ch # rest \<Rightarrow> if ch = CHR ''-'' then (True, rest) else if ch = CHR ''+'' then (False, rest) else (False, s)
                       | [] \<Rightarrow> (False, []));
          v = (if neg then - dec_value ds else dec_value ds)
      in if ds = [] \<or> \<not> list_all is_digit ds \<or> v < - (2 ^ 63) \<or> 2 ^ 63 \<le> v then None else Some v)"

definition b64_alphabet :: string where
  "b64_alphabet = ''ABCDEFGHIJKLMNOPQRSTUVWXYZabcdefghijklmnopqrstuvwxyz0123456789+/''"

definition b64_char :: "nat \<Rightarrow> char" where
  "b64_char n = b64_alphabet ! n"

fun b64_encode :: "bytes \<Rightarrow> string" where
  \<comment> \<open>\<open>base64.StdEncoding.EncodeToString\<close>\<close>
  "b64_encode [] = []"
| "b64_encode [a] =
     (let n = unat a * 16 in [b64_char (n div 64), b64_char (n mod 64), CHR ''='', CHR ''=''])"
| "b64_encode [a, b] =
     (let n = (unat a * 256 + unat b) * 4
      in [b64_char (n div 4096), b64_char (n div 64 mod 64), b64_char (n mod 64), CHR ''=''])"
| "b64_encode (a # b # c # rest) =
     (let n = (unat a * 256 + unat b) * 256 + unat c
      in [b64_char (n div 262144), b64_char (n div 4096 mod 64), b64_char (n div 64 mod 64), b64_char (n mod 64)] @ b64_encode rest)"

definition round_second :: "duration \<Rightarrow> duration" where
  \<comment> \<open>\<open>Duration.Round(time.Second)\<close>, halves away from zero\<close>
  "round_second d =
     (let m = 1000000000; r = \<bar>d\<bar> mod m; a = (if r + r < m then \<bar>d\<bar> - r else \<bar>d\<bar> + m - r)
      in if d < 0 then - a else a)"

section \<open>Types\<close>

record queueSummary =
  qsName :: string
  qsDepth :: nat
  qsInFlight :: nat
  qsConsumerCount :: nat

record queueDetail =
  qdName :: string
  qdDepth :: nat
  qdInFlight :: nat
  qdConsumerCount :: nat
  qdMaxSize :: int
  qdMaxRetries :: u32
  qdFailurePolicy :: FailurePolicy
  qdHasSchema :: bool

record peekMessage = \<comment> \<open>\<open>dlqMessage\<close> has the same fields\<close>
  pkID :: string
  pkQueue :: string
  pkPayload :: string
  pkHeaders :: "(string, string) gomap"
  pkAttempt :: u32
  pkPublishedAt :: time

record schemaDetail =
  sdQueue :: string
  sdMessageType :: string
  sdVersion :: u32
  sdCreatedAt :: time

record statsResponse =
  srUptime :: duration
  srStartedAt :: time
  srQueueCount :: nat
  srMemoryAlloc :: u64
  srMemoryLimit :: u64
  srNumGoroutine :: nat

datatype api_body =
    BError string
  | BQueues "queueSummary list"
  | BQueue queueDetail
  | BPurged nat
  | BRetried nat
  | BMessages "peekMessage list"
  | BSchemas "SchemaInfo list"
  | BSchema schemaDetail
  | BStats statsResponse
  | BConsumers "(string \<times> nat) list"
  | BEmpty

record http_request =
  rqMethod :: string
  rqPath :: string
  rqLimit :: string

record http_response =
  rsStatus :: nat
  rsBody :: api_body
  rsHeaders :: "(string \<times> string) list"

record ('d, 's) Handler =
  hBroker :: "'s Broker"
  hRegistry :: "'d Registry"
  hHub :: "nat list" \<comment> \<open>the connections of the hub's map\<close>
  hDone :: bool

definition NewHandler :: "'s Broker \<Rightarrow> 'd Registry \<Rightarrow> ('d, 's) Handler" where
  "NewHandler b r = \<lparr>hBroker = b, hRegistry = r, hHub = [], hDone = False\<rparr>"

definition CloseHandler :: "('d, 's) Handler \<Rightarrow> ('d, 's) Handler go" where
  \<comment> \<open>closing a closed channel panics\<close>
  "CloseHandler h = (if hDone h then None else Some (h\<lparr>hDone := True\<rparr>))"

definition writeJSON :: "nat \<Rightarrow> api_body \<Rightarrow> http_response" where
  "writeJSON status v = \<lparr>rsStatus = status, rsBody = v, rsHeaders = [(''Content-Type'', ''application/json'')]\<rparr>"

definition writeError :: "nat \<Rightarrow> string \<Rightarrow> http_response" where
  "writeError status msg = writeJSON status (BError msg)"

type_synonym ('d, 's) answered = "(http_response \<times> ('d, 's) Handler) go"

section \<open>Queues\<close>

definition handleQueues :: "env \<Rightarrow> http_request \<Rightarrow> ('d, 's) Handler \<Rightarrow> ('d, 's) answered" where
  "handleQueues e r h =
     (if rqMethod r \<noteq> ''GET'' then Some (writeError 405 ''method not allowed'', h)
      else Some (writeJSON 200 (BQueues (List.map_filter (\<lambda>name.
             case GetQueue name (hBroker h) of
               None \<Rightarrow> None
             | Some q \<Rightarrow> Some \<lparr>qsName = name, qsDepth = Len q, qsInFlight = InFlightLen q, qsConsumerCount = ConsumerCount q\<rparr>)
           (ListQueues e (hBroker h)))), h))"

definition handleQueueInfo :: "string \<Rightarrow> ('d, 's) Handler \<Rightarrow> ('d, 's) answered" where
  "handleQueueInfo name h =
     (case GetQueue name (hBroker h) of
        None \<Rightarrow> Some (writeError 404 ''queue not found'', h)
      | Some q \<Rightarrow> Some (writeJSON 200 (BQueue \<lparr>qdName = name, qdDepth = Len q, qdInFlight = InFlightLen q,
          qdConsumerCount = ConsumerCount q, qdMaxSize = qMaxSize q, qdMaxRetries = qMaxRetries q,
          qdFailurePolicy = qFailurePolicy q, qdHasSchema = \<not> isl (RGet name (hRegistry h))\<rparr>), h))"

definition handleQueuePurge :: "wire \<Rightarrow> string \<Rightarrow> ('d, 's) Handler \<Rightarrow> ('d, 's) answered" where
  "handleQueuePurge w name h =
     (case GetQueue name (hBroker h) of
        None \<Rightarrow> Some (writeError 404 ''queue not found'', h)
      | Some _ \<Rightarrow> do {
          ((count, err), b) \<leftarrow> PurgeQueue name (hBroker h);
          Some (case err of Some e \<Rightarrow> writeError 500 (errText w e) | None \<Rightarrow> writeJSON 200 (BPurged count), h\<lparr>hBroker := b\<rparr>)
        })"

section \<open>Messages\<close>

definition query_limit :: "int \<Rightarrow> http_request \<Rightarrow> int" where
  "query_limit deflt r =
     (if rqLimit r = [] then deflt
      else case Atoi (rqLimit r) of None \<Rightarrow> deflt | Some n \<Rightarrow> if n > 0 then n else deflt)"

definition peeked :: "message \<Rightarrow> peekMessage" where
  "peeked m = \<lparr>pkID = mID m, pkQueue = mQueue m, pkPayload = b64_encode (mPayload m), pkHeaders = mHeaders m,
     pkAttempt = mAttempt m, pkPublishedAt = mPublishedAt m\<rparr>"

definition handleDLQList :: "http_request \<Rightarrow> string \<Rightarrow> ('d, 's) Handler \<Rightarrow> ('d, 's) answered" where
  "handleDLQList r name h =
     (case GetQueue (DLQName name) (hBroker h) of
        None \<Rightarrow> Some (writeJSON 200 (BMessages []), h)
      | Some q \<Rightarrow>
          if Len q = 0 then Some (writeJSON 200 (BMessages []), h)
          else do { msgs \<leftarrow> Peek (query_limit 100 r) q; Some (writeJSON 200 (BMessages (map peeked msgs)), h) })"

definition handleDLQRetry :: "env \<Rightarrow> wire \<Rightarrow> string \<Rightarrow> ('d, 's) Handler \<Rightarrow> ('d, 's) answered" where
  "handleDLQRetry e w name h = do {
     ((retried, err), b) \<leftarrow> RetryDLQ e name (hBroker h);
     Some (case err of Some er \<Rightarrow> writeError 500 (errText w er) | None \<Rightarrow> writeJSON 200 (BRetried retried), h\<lparr>hBroker := b\<rparr>)
   }"

definition handleDLQPurge :: "wire \<Rightarrow> string \<Rightarrow> ('d, 's) Handler \<Rightarrow> ('d, 's) answered" where
  "handleDLQPurge w name h =
     (case GetQueue (DLQName name) (hBroker h) of
        None \<Rightarrow> Some (writeJSON 200 (BPurged 0), h)
      | Some _ \<Rightarrow> do {
          ((count, err), b) \<leftarrow> PurgeQueue (DLQName name) (hBroker h);
          Some (case err of Some e \<Rightarrow> writeError 500 (errText w e) | None \<Rightarrow> writeJSON 200 (BPurged count), h\<lparr>hBroker := b\<rparr>)
        })"

definition handleMessagesPeek :: "http_request \<Rightarrow> string \<Rightarrow> ('d, 's) Handler \<Rightarrow> ('d, 's) answered" where
  "handleMessagesPeek r name h =
     (case GetQueue name (hBroker h) of
        None \<Rightarrow> Some (writeError 404 ''queue not found'', h)
      | Some q \<Rightarrow> do { msgs \<leftarrow> Peek (query_limit 10 r) q; Some (writeJSON 200 (BMessages (map peeked msgs)), h) })"

definition handleQueueByName :: "env \<Rightarrow> wire \<Rightarrow> http_request \<Rightarrow> ('d, 's) Handler \<Rightarrow> ('d, 's) answered" where
  "handleQueueByName e w r h =
     (let path = TrimPrefix (rqPath r) ''/api/v1/queues/'' in
      if path = [] then Some (writeError 400 ''queue name required'', h)
      else case split_path path of (name, sub) \<Rightarrow>
        if sub = [] \<and> rqMethod r = ''GET'' then handleQueueInfo name h
        else if sub = [] \<and> rqMethod r = ''DELETE'' then handleQueuePurge w name h
        else if sub = ''dlq'' \<and> rqMethod r = ''GET'' then handleDLQList r name h
        else if sub = ''dlq/retry'' \<and> rqMethod r = ''POST'' then handleDLQRetry e w name h
        else if sub = ''dlq'' \<and> rqMethod r = ''DELETE'' then handleDLQPurge w name h
        else if sub = ''messages'' \<and> rqMethod r = ''GET'' then handleMessagesPeek r name h
        else Some (writeError 404 ''not found'', h))"

section \<open>Schemas, statistics, consumers\<close>

definition handleSchemas :: "((string \<times> 'd Schema) list \<Rightarrow> (string \<times> 'd Schema) list) \<Rightarrow> http_request \<Rightarrow> ('d, 's) Handler \<Rightarrow> ('d, 's) answered" where
  "handleSchemas order r h =
     (if rqMethod r \<noteq> ''GET'' then Some (writeError 405 ''method not allowed'', h)
      else Some (writeJSON 200 (BSchemas (List.map_filter (\<lambda>name.
             case RGet name (hRegistry h) of
               Inl _ \<Rightarrow> None
             | Inr s \<Rightarrow> Some \<lparr>siQueue = scQueue s, siMessageType = scMessageType s, siVersion = scVersion s\<rparr>)
           (RList order (hRegistry h)))), h))"

definition handleSchemaByName :: "http_request \<Rightarrow> ('d, 's) Handler \<Rightarrow> ('d, 's) answered" where
  "handleSchemaByName r h =
     (if rqMethod r \<noteq> ''GET'' then Some (writeError 405 ''method not allowed'', h)
      else let name = TrimPrefix (rqPath r) ''/api/v1/schemas/'' in
        if name = [] then Some (writeError 400 ''schema name required'', h)
        else case RGet name (hRegistry h) of
          Inl _ \<Rightarrow> Some (writeError 404 ''schema not found'', h)
        | Inr s \<Rightarrow> Some (writeJSON 200 (BSchema \<lparr>sdQueue = scQueue s, sdMessageType = scMessageType s,
            sdVersion = scVersion s, sdCreatedAt = scCreatedAt s\<rparr>), h))"

definition handleStats :: "env \<Rightarrow> nat \<Rightarrow> http_request \<Rightarrow> ('d, 's) Handler \<Rightarrow> ('d, 's) answered" where
  \<comment> \<open>the times as values, without their text; the second argument is the number of goroutines\<close>
  "handleStats e goroutines r h =
     (if rqMethod r \<noteq> ''GET'' then Some (writeError 405 ''method not allowed'', h)
      else let b = hBroker h in
        Some (writeJSON 200 (BStats \<lparr>srUptime = round_second (eNow e - bStartedAt b), srStartedAt = bStartedAt b,
          srQueueCount = length (ListQueues e b), srMemoryAlloc = bCachedAlloc b, srMemoryLimit = bMemoryLimit b,
          srNumGoroutine = goroutines\<rparr>), h))"

definition handleConsumers :: "env \<Rightarrow> http_request \<Rightarrow> ('d, 's) Handler \<Rightarrow> ('d, 's) answered" where
  "handleConsumers e r h =
     (if rqMethod r \<noteq> ''GET'' then Some (writeError 405 ''method not allowed'', h)
      else Some (writeJSON 200 (BConsumers (List.map_filter (\<lambda>name.
             case GetQueue name (hBroker h) of
               None \<Rightarrow> None
             | Some q \<Rightarrow> if ConsumerCount q > 0 then Some (name, ConsumerCount q) else None)
           (ListQueues e (hBroker h)))), h))"

section \<open>Routing\<close>

definition cors :: "(http_request \<Rightarrow> ('d, 's) Handler \<Rightarrow> ('d, 's) answered) \<Rightarrow> http_request \<Rightarrow> ('d, 's) Handler \<Rightarrow> ('d, 's) answered" where
  "cors next r h =
     (let hdrs = [(''Access-Control-Allow-Origin'', ''*''), (''Access-Control-Allow-Methods'', ''GET, POST, DELETE, OPTIONS''),
          (''Access-Control-Allow-Headers'', ''Content-Type'')]
      in if rqMethod r = ''OPTIONS'' then Some (\<lparr>rsStatus = 204, rsBody = BEmpty, rsHeaders = hdrs\<rparr>, h)
         else map_option (\<lambda>(resp, h'). (resp\<lparr>rsHeaders := hdrs @ rsHeaders resp\<rparr>, h')) (next r h))"

record 'd api_env =
  aeEnv :: env
  aeWire :: wire
  aeSchemas :: "(string \<times> 'd Schema) list \<Rightarrow> (string \<times> 'd Schema) list"
  aeGoroutines :: nat

definition has_prefix :: "string \<Rightarrow> string \<Rightarrow> bool" where
  "has_prefix p s \<longleftrightarrow> take (length p) s = p"

definition api_routes :: "'d api_env \<Rightarrow> http_request \<Rightarrow> ('d, 's) Handler \<Rightarrow> ('d, 's) answered option" where
  \<comment> \<open>the handler the mux picks for a path: \<open>None\<close> for one that is not registered here; a pattern that ends in a slash
    stands for its subtree\<close>
  "api_routes a r h =
     (let e = aeEnv a; path = rqPath r in
      if path = ''/api/v1/queues'' then Some (cors (handleQueues e) r h)
      else if has_prefix ''/api/v1/queues/'' path then Some (cors (handleQueueByName e (aeWire a)) r h)
      else if path = ''/api/v1/schemas'' then Some (cors (handleSchemas (aeSchemas a)) r h)
      else if has_prefix ''/api/v1/schemas/'' path then Some (cors handleSchemaByName r h)
      else if path = ''/api/v1/stats'' then Some (cors (handleStats e (aeGoroutines a)) r h)
      else if path = ''/api/v1/consumers'' then Some (cors (handleConsumers e) r h)
      else None)"

section \<open>The websocket hub\<close>

datatype ws_event = QueueDepth string nat nat \<comment> \<open>name, depth, in flight\<close>

definition hub_add :: "nat \<Rightarrow> ('d, 's) Handler \<Rightarrow> ('d, 's) Handler" where
  "hub_add conn h = h\<lparr>hHub := List.insert conn (hHub h)\<rparr>"

definition hub_remove :: "nat \<Rightarrow> ('d, 's) Handler \<Rightarrow> ('d, 's) Handler" where
  "hub_remove conn h = h\<lparr>hHub := filter (\<lambda>c. c \<noteq> conn) (hHub h)\<rparr>"

definition broadcast :: "(nat list \<Rightarrow> nat list) \<Rightarrow> ws_event \<Rightarrow> ('d, 's) Handler \<Rightarrow> (nat \<times> ws_event) list" where
  \<comment> \<open>what is written to whom; the clients come in the order of a \<open>range\<close>, and a failed write changes nothing\<close>
  "broadcast order ev h = map (\<lambda>c. (c, ev)) (order (hHub h))"

definition ws_tick :: "env \<Rightarrow> (nat list \<Rightarrow> nat list) \<Rightarrow> ('d, 's) Handler \<Rightarrow> (nat \<times> ws_event) list" where
  \<comment> \<open>one turn of the loop of \<open>startWSBroadcast\<close>\<close>
  "ws_tick e order h =
     (if hDone h \<or> hHub h = [] then []
      else concat (map (\<lambda>name.
        case GetQueue name (hBroker h) of
          None \<Rightarrow> []
        | Some q \<Rightarrow> broadcast order (QueueDepth name (Len q) (InFlightLen q)) h) (ListQueues e (hBroker h))))"

end
