(* ===== verification/Api_Props.thy ===== *)
theory Api_Props
  imports Api Server_Props
begin

text \<open>
  The HTTP interface: base64 is invertible, requests that read change nothing and always get an answer, peeking shows the head of a queue, and
  purging empties it.
\<close>

section \<open>Base64\<close>

definition b64_val :: "char \<Rightarrow> nat" where
  "b64_val ch = length (takeWhile (\<lambda>x. x \<noteq> ch) b64_alphabet)"

fun b64_decode :: "string \<Rightarrow> bytes" where
  "b64_decode (a # b # c # d # rest) =
     (if d = CHR ''='' then
        (if c = CHR ''='' then [of_nat ((b64_val a * 64 + b64_val b) div 16)]
         else let n = ((b64_val a * 64 + b64_val b) * 64 + b64_val c) div 4 in [of_nat (n div 256), of_nat (n mod 256)])
      else let n = ((b64_val a * 64 + b64_val b) * 64 + b64_val c) * 64 + b64_val d
        in [of_nat (n div 65536), of_nat (n div 256 mod 256), of_nat (n mod 256)] @ b64_decode rest)"
| "b64_decode _ = []"

lemma b64_chars: "n < 64 \<Longrightarrow> b64_val (b64_char n) = n \<and> b64_char n \<noteq> CHR ''=''"
proof -
  have "list_all (\<lambda>n. b64_val (b64_char n) = n \<and> b64_char n \<noteq> CHR ''='') [0..<64]" by code_simp
  then show "n < 64 \<Longrightarrow> b64_val (b64_char n) = n \<and> b64_char n \<noteq> CHR ''=''" by (simp add: list_all_iff)
qed

lemma sextets: "((n div 262144 * 64 + n div 4096 mod 64) * 64 + n div 64 mod 64) * 64 + n mod 64 = (n :: nat)"
proof -
  have "n div 4096 = n div 64 div 64" "n div 262144 = n div 64 div 64 div 64" by (simp_all add: div_mult2_eq [symmetric])
  then show ?thesis by (simp only: div_mult_mod_eq)
qed

lemma byte_bound: "unat (b :: u8) < 256"
  using unsigned_less [of b] by simp

lemma byte_nat [simp]: "unat (b :: u8) div 256 = 0" "unat (b :: u8) mod 256 = unat b"
  using byte_bound [of b] by simp_all

lemma low_byte: "(m * 256 + unat (c :: u8)) div 256 = m" "(m * 256 + unat c) mod 256 = unat c"
  by simp_all

lemma b64_decode_encode [simp]: "b64_decode (b64_encode bs) = bs"
proof (induction bs rule: b64_encode.induct)
  case 1
  then show ?case by simp
next
  case (2 a)
  define n where "n = unat a * 16"
  have n: "n div 64 < 64" "n mod 64 < 64" using byte_bound [of a] by (simp_all add: n_def div_less_iff_less_mult)
  have "n div 16 = unat a" by (simp add: n_def)
  then show ?case using b64_chars [OF n(1)] b64_chars [OF n(2)] div_mult_mod_eq [of n 64] by (simp add: n_def [symmetric] Let_def)
next
  case (3 a b)
  define n where "n = (unat a * 256 + unat b) * 4"
  have n: "n div 4096 < 64" "n div 64 mod 64 < 64" "n mod 64 < 64" using byte_bound [of a] byte_bound [of b] by (simp_all add: n_def div_less_iff_less_mult)
  have "n div 4096 = n div 64 div 64" by (simp add: div_mult2_eq [symmetric])
  then have s: "((n div 4096 * 64 + n div 64 mod 64) * 64 + n mod 64) = n" by (simp only: div_mult_mod_eq)
  have "n div 4 = unat a * 256 + unat b" by (simp add: n_def)
  moreover have "b64_encode [a, b] = [b64_char (n div 4096), b64_char (n div 64 mod 64), b64_char (n mod 64), CHR ''='']"
    by (simp only: b64_encode.simps Let_def n_def)
  ultimately show ?case using b64_chars [OF n(1)] b64_chars [OF n(2)] b64_chars [OF n(3)] s
    by (simp del: b64_encode.simps add: Let_def)
next
  case (4 a b c rest)
  define n where "n = (unat a * 256 + unat b) * 256 + unat c"
  have n: "n div 262144 < 64" "n div 4096 mod 64 < 64" "n div 64 mod 64 < 64" "n mod 64 < 64"
    using byte_bound [of a] byte_bound [of b] byte_bound [of c] by (simp_all add: n_def div_less_iff_less_mult)
  have d: "n div 256 = unat a * 256 + unat b" "n mod 256 = unat c" unfolding n_def by (rule low_byte)+
  have "n div 65536 = n div 256 div 256" by (simp add: div_mult2_eq [symmetric])
  then have "n div 65536 = unat a" "n div 256 mod 256 = unat b" unfolding d(1) using low_byte [of "unat a" b] by simp_all
  moreover have "b64_encode (a # b # c # rest)
      = [b64_char (n div 262144), b64_char (n div 4096 mod 64), b64_char (n div 64 mod 64), b64_char (n mod 64)] @ b64_encode rest"
    by (simp only: b64_encode.simps Let_def n_def)
  ultimately show ?case
    using b64_chars [OF n(1)] b64_chars [OF n(2)] b64_chars [OF n(3)] b64_chars [OF n(4)] sextets [of n] d(2) 4
    by (simp del: b64_encode.simps add: Let_def)
qed

section \<open>Reading\<close>

lemma query_limit_pos: "0 < d \<Longrightarrow> 0 < query_limit d r"
  by (auto simp: query_limit_def split: option.splits)

lemma Peek_limit: "0 < d \<Longrightarrow> Peek (query_limit d r) q = Some (take (nat (query_limit d r)) (qMessages q))"
  using query_limit_pos [of d r] by (auto simp: Peek_def Let_def)

lemma cors_reads:
  assumes "\<exists>resp. next r h = Some (resp, h)"
  shows "\<exists>resp. cors next r h = Some (resp, h)"
  using assms by (auto simp: cors_def Let_def)

lemma reading_handlers:
  "\<exists>resp. handleQueues e r h = Some (resp, h)" "\<exists>resp. handleSchemas order r h = Some (resp, h)"
  "\<exists>resp. handleSchemaByName r h = Some (resp, h)" "\<exists>resp. handleStats e n r h = Some (resp, h)"
  "\<exists>resp. handleConsumers e r h = Some (resp, h)" "\<exists>resp. handleQueueInfo name h = Some (resp, h)"
  "\<exists>resp. handleDLQList r name h = Some (resp, h)" "\<exists>resp. handleMessagesPeek r name h = Some (resp, h)"
  by (auto simp: handleQueues_def handleSchemas_def handleSchemaByName_def handleStats_def handleConsumers_def handleQueueInfo_def
      handleDLQList_def handleMessagesPeek_def Peek_limit Let_def split: option.splits sum.splits)

lemma reading_by_name:
  assumes "rqMethod r \<noteq> ''DELETE''" and "rqMethod r \<noteq> ''POST''"
  shows "\<exists>resp. handleQueueByName e w r h = Some (resp, h)"
  using assms by (simp add: handleQueueByName_def Let_def reading_handlers split: prod.splits)

lemma split_path_name:
  assumes "CHR ''/'' \<notin> set name"
  shows "split_path (name @ CHR ''/'' # sub) = (name, sub)" and "split_path name = (name, [])"
proof -
  have t: "takeWhile (\<lambda>ch. ch \<noteq> CHR ''/'') (name @ ys) = name @ takeWhile (\<lambda>ch. ch \<noteq> CHR ''/'') ys"
    "dropWhile (\<lambda>ch. ch \<noteq> CHR ''/'') (name @ ys) = dropWhile (\<lambda>ch. ch \<noteq> CHR ''/'') ys" for ys
    using assms by (auto intro!: takeWhile_append2 dropWhile_append2)
  show "split_path (name @ CHR ''/'' # sub) = (name, sub)" "split_path name = (name, [])"
    using t [of "CHR ''/'' # sub"] t(1) [of "[]"] t(2) [of "[]", simplified append_Nil2] by (simp_all add: split_path_def del: dropWhile_eq_Nil_conv)
qed

lemma queue_route:
  assumes "rqPath r = ''/api/v1/queues/'' @ rest" and "rest \<noteq> []"
  shows "api_routes a r h = Some (cors (handleQueueByName (aeEnv a) (aeWire a)) r h)"
  using assms by (simp add: api_routes_def Let_def has_prefix_def)

section \<open>A sample handler\<close>

definition api_demo :: "(unit, unit) Handler" where
  "api_demo = NewHandler (snd (the (HandlePublish (plain_env 0 ''u'' 1)
     \<lparr>prQueue = ''q'', prPayload = [1, 2], prHeaders = [], prMessageId = ''m'', prIdempotencyKey = [], prOrderingKey = []\<rparr> (NewBroker [] 0)))) NewRegistry"

definition api_demo_env :: "unit api_env" where
  "api_demo_env = \<lparr>aeEnv = plain_env 0 ''u'' 1, aeWire = demo_wire, aeSchemas = \<lambda>xs. xs, aeGoroutines = 7\<rparr>"

definition api_request :: "string \<Rightarrow> string \<Rightarrow> http_request" where
  "api_request m path = \<lparr>rqMethod = m, rqPath = path, rqLimit = ''5''\<rparr>"

definition api_demo_queue :: Queue where
  "api_demo_queue = the (GetQueue ''q'' (hBroker api_demo))"

lemma api_demo_queue: "GetQueue ''q'' (hBroker api_demo) = Some api_demo_queue"
proof -
  have "\<not> Option.is_none (GetQueue ''q'' (hBroker api_demo))" by code_simp
  then show ?thesis unfolding api_demo_queue_def by (rule some_the)
qed

section \<open>Properties\<close>



text \<open>Peeking at a queue over HTTP shows its head: the answer lists the oldest pending messages, in order, as many as the limit of the
  query asks for (10 without one), with their ids, headers, attempts and times, and the base64 text of a
  payload decodes to the payload.\<close>

theorem api_peek_shows_head:
  assumes "rqMethod r = ''GET''" and "rqPath r = ''/api/v1/queues/'' @ name @ ''/messages''" and "CHR ''/'' \<notin> set name"
    and "GetQueue name (hBroker h) = Some q"
  shows "\<exists>resp. api_routes a r h = Some (Some (resp, h)) \<and> rsStatus resp = 200
     \<and> rsBody resp = BMessages (map peeked (take (nat (query_limit 10 r)) (qMessages q)))
     \<and> map (b64_decode \<circ> pkPayload) (map peeked (take (nat (query_limit 10 r)) (qMessages q)))
       = map mPayload (take (nat (query_limit 10 r)) (qMessages q))"
proof -
  have "TrimPrefix (rqPath r) ''/api/v1/queues/'' = name @ CHR ''/'' # ''messages''" using assms(2) by (simp add: TrimPrefix_def)
  then have "handleQueueByName (aeEnv a) (aeWire a) r h = handleMessagesPeek r name h"
    using assms(1,3) by (simp add: handleQueueByName_def Let_def split_path_name(1))
  then show ?thesis
    using assms(1,4) queue_route [OF assms(2), of a h] by (simp add: cors_def Let_def handleMessagesPeek_def Peek_limit writeJSON_def peeked_def)
qed

theorem api_peek_shows_head_witness:
  "\<exists>resp. api_routes api_demo_env (api_request ''GET'' ''/api/v1/queues/q/messages'') api_demo = Some (Some (resp, api_demo))
     \<and> rsBody resp = BMessages (map peeked (qMessages api_demo_queue))
     \<and> map (b64_decode \<circ> pkPayload \<circ> peeked) (qMessages api_demo_queue) = [[1, 2]]"
proof -
  have "length (qMessages api_demo_queue) = 1" "query_limit 10 (api_request ''GET'' ''/api/v1/queues/q/messages'') = 5"
    "map mPayload (qMessages api_demo_queue) = [[1, 2]]" by code_simp+
  then show ?thesis
    using api_peek_shows_head [of "api_request ''GET'' ''/api/v1/queues/q/messages''" "''q''" api_demo api_demo_queue api_demo_env] api_demo_queue
    by (auto simp: api_request_def comp_def)
qed

text \<open>C35. Deleting a queue over HTTP empties it. If the answer is 200 it carries the number of messages the queue held, pending and in flight, the queue is
  there and empty, and every other queue is as before; on a storage error the answer is 500 and no queue changes.\<close>

theorem api_delete_purges:
  assumes "rqMethod r = ''DELETE''" and "rqPath r = ''/api/v1/queues/'' @ name" and "name \<noteq> []" and "CHR ''/'' \<notin> set name"
    and "GetQueue name (hBroker h) = Some q" and "api_routes a r h = Some (Some (resp, h'))"
  shows "(rsStatus resp = 200 \<and> rsBody resp = BPurged (Len q + InFlightLen q)
        \<and> (\<exists>q'. GetQueue name (hBroker h') = Some q' \<and> Len q' = 0 \<and> InFlightLen q' = 0)
        \<and> (\<forall>other. other \<noteq> name \<longrightarrow> GetQueue other (hBroker h') = GetQueue other (hBroker h)))
     \<or> (rsStatus resp = 500 \<and> bQueues (hBroker h') = bQueues (hBroker h))"
proof -
  have "TrimPrefix (rqPath r) ''/api/v1/queues/'' = name" using assms(2) by (simp add: TrimPrefix_def)
  then have "handleQueueByName (aeEnv a) (aeWire a) r h = handleQueuePurge (aeWire a) name h"
    using assms(1,3,4) by (simp add: handleQueueByName_def Let_def split_path_name(2))
  then obtain resp0 where p: "handleQueuePurge (aeWire a) name h = Some (resp0, h')" and r: "rsStatus resp = rsStatus resp0" "rsBody resp = rsBody resp0"
    using assms(1,6) queue_route [OF assms(2,3), of a h] by (auto simp: cors_def Let_def)
  show ?thesis using p assms(5) unfolding r
    by (auto simp: handleQueuePurge_def PurgeQueue_def writeError_def writeJSON_def Purge_def put_queue_def GetQueue_def Len_def InFlightLen_def
        split: bind_splits option.splits prod.splits)
qed

definition api_deleted :: "http_response \<times> (unit, unit) Handler" where
  "api_deleted = the (the (api_routes api_demo_env (api_request ''DELETE'' ''/api/v1/queues/q'') api_demo))"

theorem api_delete_purges_witness:
  "api_routes api_demo_env (api_request ''DELETE'' ''/api/v1/queues/q'') api_demo = Some (Some api_deleted)
   \<and> rsBody (fst api_deleted) = BPurged 1
   \<and> (\<exists>q'. GetQueue ''q'' (hBroker (snd api_deleted)) = Some q' \<and> Len q' = 0)"
proof -
  let ?r = "api_request ''DELETE'' ''/api/v1/queues/q''"
  have "\<not> Option.is_none (api_routes api_demo_env ?r api_demo)" "\<not> Option.is_none (the (api_routes api_demo_env ?r api_demo))" by code_simp+
  then have a: "api_routes api_demo_env ?r api_demo = Some (Some (fst api_deleted, snd api_deleted))"
    unfolding api_deleted_def prod.collapse by (metis some_the)
  have "rsStatus (fst api_deleted) = 200" "Len api_demo_queue + InFlightLen api_demo_queue = 1" by code_simp+
  then show ?thesis
    using api_delete_purges [of ?r "''q''" api_demo api_demo_queue api_demo_env "fst api_deleted" "snd api_deleted"] a api_demo_queue
    by (auto simp: api_request_def)
qed

end
