(* ===== verification/Spec2Isabelle.thy ===== *)
theory Spec2Isabelle
  imports Frame Client_Codec Queue_Props Badger_Props Stream_Size Queue_Content Batcher Server_Props Cluster_Props Durability_Props Ts_Connection_Props Go_Client_Props Api_Props
begin

text \<open>
  \<^bold>\<open>A verification development for the qwer-q message broker.\<close>

  \<^bold>\<open>The program.\<close> A broker process listens on TCP. A connection carries length-prefixed frames (\<open>internal/protocol\<close>); the server
  (\<open>internal/broker/server.go\<close>) authenticates the client, decodes the payload and calls a handler of the broker (\<open>handlers.go\<close>). The broker
  (\<open>broker.go\<close>) has queues (\<open>queue.go\<close>), which may have consumer groups (\<open>group.go\<close>), and streams (\<open>stream.go\<close>); it drops repeated publishes
  (\<open>dedup.go\<close>), answers calls (\<open>call.go\<close>), checks payloads against schemas (\<open>internal/schema\<close>) and keeps messages in a key-value store
  (\<open>internal/storage\<close>), directly or in batches. In a cluster the commands go through a replicated log (\<open>internal/cluster\<close>). There is an
  HTTP interface (\<open>internal/api\<close>), a Go client (\<open>pkg/client\<close>) and a TypeScript client (\<open>clients/typescript\<close>).

  \<^bold>\<open>How Go and TypeScript are read.\<close> A struct is a record with the fields of the struct, a method is a function that takes and
  returns it, a method that holds a mutex is one atomic step. A panic is \<open>None\<close> (type \<open>'a go\<close>), an error is a value. A Go map is an
  association list with distinct keys, and the order of a \<open>range\<close> is a parameter that is only known to be a permutation. Machine integers are words
  where they can wrap; instants and durations are integers of nanoseconds. Clock readings, fresh ids and map orders are drawn from an argument (\<open>env\<close>).
  A goroutine is a program counter whose steps interleave with everything else. \<open>Prelude\<close> holds these notions and the lemmas on them.

  \<^bold>\<open>Theories and sources.\<close>
  \<^item> Wire: \<open>Frame\<close> (\<open>frame.go\<close>, \<open>opcodes.go\<close>), \<open>Varint\<close> (\<open>encoding/binary\<close>), \<open>Client_Codec\<close> (\<open>client_codec.go\<close>, \<open>publish_response.go\<close>, and a
    reader of the protobuf wire format). Frames and payloads round-trip.
  \<^item> Queues: \<open>Message\<close>, \<open>Broker_Types\<close>, \<open>Delivery\<close> (the contract of one turn of a delivery loop), \<open>Work_Queue\<close> (the accounting contract), \<open>Group\<close> and
    \<open>Group_Laws\<close> (\<open>group.go\<close>), \<open>Queues\<close>, \<open>Queue_Delivery\<close>, \<open>Queue_Laws\<close>, \<open>Queue_Content\<close>, \<open>Queue_Props\<close> (\<open>queue.go\<close>). Every operation keeps the invariant, no
    message appears or disappears other than by what the operations report, delivery is in order, ordering keys stay with one consumer,
    limits, deadlines and failure policies hold. Groups are covered up to two members; with three the code loses messages, which is proved.
  \<^item> Storage: \<open>Storage_Codec\<close> (\<open>codec.go\<close>), \<open>Storage_Iface\<close> (\<open>storage.go\<close>, as locales), \<open>Key_Value\<close> (what is assumed of BadgerDB, and a
    store in memory that has it), \<open>Badger_Store\<close>, \<open>Badger_Laws\<close>, \<open>Badger_Streams\<close>, \<open>Badger_Props\<close> (\<open>badger.go\<close>), \<open>Reference_Codec\<close> (a codec that has
    what is assumed of JSON), \<open>Decimal\<close>, \<open>Batcher\<close> (\<open>batcher.go\<close>). The storage implements a map of messages and a log per stream; a batched write that
    was answered is stored.
  \<^item> Streams: \<open>Stream_Queue\<close> (\<open>stream.go\<close>), \<open>Stream_Laws\<close>, \<open>Stream_Props\<close>, \<open>Stream_Limits\<close>, \<open>Stream_Size\<close>. A consumer sees a section of the log, once and in
    order, under any interleaving; retention by age is safe, retention by size is not.
  \<^item> Broker: \<open>Dedup\<close>, \<open>Broker\<close>, \<open>Handlers\<close> (also \<open>dlq.go\<close>), \<open>Call\<close>, \<open>Schema\<close>, \<open>Metrics\<close>, \<open>Server\<close>, \<open>Server_Props\<close>, \<open>Idle_Queues\<close>. \<open>Durability\<close> and \<open>Durability_Props\<close>
    join handlers and storage: a publish that was answered survives a crash of the process, and every run keeps the broker well formed.
  \<^item> Cluster: \<open>Cluster\<close>, \<open>Cluster_Props\<close> (\<open>fsm.go\<close>, \<open>replicator.go\<close>, parts of \<open>raft.go\<close>). Replicas without consumers that apply the same log stay equal.
  \<^item> Clients and HTTP: \<open>Go_Client\<close>, \<open>Go_Client_Props\<close> (client, frames, server and handler composed), \<open>Ts_Frame\<close>, \<open>Ts_Codec\<close>, \<open>Ts_Codec_Props\<close>, \<open>Ts_Connection\<close>,
    \<open>Ts_Connection_Props\<close>, \<open>Api\<close>, \<open>Api_Props\<close>.

  \<^bold>\<open>Interfaces.\<close> \<open>go_map\<close>, \<open>delivery\<close>, \<open>work_queue\<close>, \<open>content\<close>, \<open>kv_store\<close>, \<open>message_store\<close>, \<open>broker_store\<close>, \<open>stream_store\<close>, \<open>badger_store\<close>, \<open>batch_writes\<close> and
  \<open>crash_safe\<close> are the contracts between the parts. They are interpreted on the model's own definitions: \<open>gd\<close> and \<open>gq\<close> for groups, \<open>qd\<close> and
  \<open>wq\<close> for queues, \<open>kept\<close> for what delivery leaves of a message, \<open>mb\<close> for the storage over the key-value store in memory.

  \<^bold>\<open>Loops and bounds.\<close> Delivery loops, decoders and printers are total, by the length of what is left. Four loops may run on: purging a queue in the
  storage, which retries in batches and is shown to return; the consume loop of the Go client, which is shown to return on a connection that
  ends; the collection of imports, which is shown to return if finitely many files are reachable; and retention by size, whose number of reads is
  bounded by an argument, because it is shown not to finish within \<open>10 ^ 17\<close> reads on a small stream. The protobuf reader has the length
  of its input as a bound, which is enough since a field takes a byte. Sizes are assumed below what a machine can hold where a length is written as a number.

  \<^bold>\<open>What is assumed of other code.\<close> BadgerDB commits a transaction as a whole or not at all and iterates in key order (\<open>kv_store\<close>); JSON and
  the generated protobuf code read back what they wrote, or read what the wire format says; the Raft library applies committed commands in order; ULIDs come from
  a library. Each is a parameter, and every property that relies on one has an instance with a concrete function. A crash is that of the process: with the
  default fsync interval a loss of power may lose more.

  \<^bold>\<open>Not modelled.\<close> Generated protobuf code (\<open>messages.pb.go\<close>); opening and accepting sockets; opening, closing and syncing BadgerDB; starting and
  stopping Raft, its stores and its transport; the process start and the flags of \<open>cmd/qwer-q\<close>; log lines and the metrics endpoint, which are output only; the
  dashboard's files; JSON text and the text of times in HTTP answers; the benchmarks. Time-outs of sockets are not modelled either.
\<close>

end
